(* ===== verification/Prelude.thy ===== *)
theory Prelude
  imports Main "HOL-Library.Word" "HOL-Library.Monad_Syntax" "HOL-Library.Multiset"
begin

text \<open>
  Shared vocabulary of the development: the machine integers, Rust's \<open>Result\<close> as a sum,
  panicking slice operations in the option monad (\<^const>\<open>None\<close> is a panic), little-endian
  conversions, the interface of \<open>heapless::Vec\<close> (a third-party crate, hence a parameter)
  and the list lemmas that the component theories share.
\<close>

unbundle bit_operations_syntax

named_theorems slice_simps \<open>characteristic equations of the slice operations\<close>
named_theorems result_simps \<open>characteristic equations of the Result operations\<close>

section \<open>Machine integers\<close>

type_synonym u8 = "8 word"
type_synonym u16 = "16 word"
type_synonym u32 = "32 word"
type_synonym u64 = "64 word"
type_synonym i8 = "8 word"

text \<open>Rust's \<open>saturating_add\<close> and \<open>saturating_sub\<close> on an unsigned type.\<close>

definition saturating_add :: "'w::len word \<Rightarrow> 'w word \<Rightarrow> 'w word" where
  "saturating_add a b = (if unat a + unat b < 2 ^ LENGTH('w) then a + b else - 1)"

definition saturating_sub :: "'w::len word \<Rightarrow> 'w word \<Rightarrow> 'w word" where
  "saturating_sub a b = (if a < b then 0 else a - b)"

lemma unat_saturating_add:
  "unat (saturating_add a b :: 'w::len word) = min (2 ^ LENGTH('w) - 1) (unat a + unat b)"
  by (auto simp: saturating_add_def unat_word_ariths min_def unsigned_minus_1_eq_mask mask_eq_exp_minus_1)

lemma unat_saturating_sub: "unat (saturating_sub a b) = unat a - unat b"
  by (auto simp: saturating_sub_def unat_sub word_less_nat_alt word_le_nat_alt not_less)

lemma saturating_add_0 [simp]: "saturating_add a 0 = a"
  using unsigned_less [of a, where ?'a = nat] by (simp add: saturating_add_def)

lemma saturating_sub_le: "saturating_sub a b \<le> a"
  by (simp add: word_le_nat_alt unat_saturating_sub)

lemma saturating_add_ge: "a \<le> saturating_add a b"
  unfolding word_le_nat_alt unat_saturating_add using unsigned_less [of a, where ?'a = nat] by linarith

lemma word_less_succ:
  fixes w :: u32
  assumes "w \<noteq> - 1" shows "w < w + 1"
proof -
  have "unat w \<noteq> 2 ^ 32 - 1"
    using assms by (simp add: word_unat_eq_iff unsigned_minus_1_eq_mask mask_eq_exp_minus_1)
  then have "unat w + 1 < 2 ^ 32" using unsigned_less [of w, where ?'a = nat] by simp
  then have "unat (w + 1) = unat w + 1" by (simp add: unat_word_ariths)
  then show ?thesis by (simp add: word_less_nat_alt)
qed

lemma word_less_cases:
  fixes w :: "'w::len word"
  assumes "unat w < k"
  obtains n where "n < k" "w = of_nat n"
proof
  show "w = of_nat (unat w)" by simp
qed (rule assms)

section \<open>Result\<close>

text \<open>\<open>Result<T, E>\<close> is \<open>'e + 'a\<close>; the \<open>?\<close> operator is \<open>result_bind\<close>.\<close>

fun result_bind :: "'e + 'a \<Rightarrow> ('a \<Rightarrow> 'e + 'b) \<Rightarrow> 'e + 'b" where
  "result_bind (Inl e) f = Inl e"
| "result_bind (Inr a) f = f a"

fun result_map :: "('a \<Rightarrow> 'b) \<Rightarrow> 'e + 'a \<Rightarrow> 'e + 'b" where
  "result_map f (Inl e) = Inl e"
| "result_map f (Inr a) = Inr (f a)"

fun result_unwrap_or :: "'e + 'a \<Rightarrow> 'a \<Rightarrow> 'a" where
  "result_unwrap_or (Inl e) d = d"
| "result_unwrap_or (Inr a) d = a"

fun result_ok :: "'e + 'a \<Rightarrow> 'a option" where
  "result_ok (Inl e) = None"
| "result_ok (Inr a) = Some a"

lemma result_bind_Inr_iff [result_simps]:
  "result_bind r f = Inr b \<longleftrightarrow> (\<exists>a. r = Inr a \<and> f a = Inr b)"
  by (cases r) auto

lemma result_bind_Inl_iff [result_simps]:
  "result_bind r f = Inl e \<longleftrightarrow> r = Inl e \<or> (\<exists>a. r = Inr a \<and> f a = Inl e)"
  by (cases r) auto

section \<open>Slices that may panic\<close>

text \<open>
  \<open>idx xs i\<close> is \<open>xs[i]\<close>, \<open>put xs i x\<close> is \<open>xs[i] = x\<close>, \<open>slice xs i j\<close> is \<open>&xs[i..j]\<close> and
  \<open>copy_at xs i j ys\<close> is \<open>xs[i..j].copy_from_slice(ys)\<close>. Each panics (\<^const>\<open>None\<close>) where Rust
  does: out of range, or where \<open>copy_from_slice\<close> is given a slice of another length.
\<close>

definition idx :: "'a list \<Rightarrow> nat \<Rightarrow> 'a option" where
  "idx xs i = (if i < length xs then Some (xs ! i) else None)"

definition put :: "'a list \<Rightarrow> nat \<Rightarrow> 'a \<Rightarrow> 'a list option" where
  "put xs i x = (if i < length xs then Some (xs[i := x]) else None)"

definition slice :: "'a list \<Rightarrow> nat \<Rightarrow> nat \<Rightarrow> 'a list option" where
  "slice xs i j = (if i \<le> j \<and> j \<le> length xs then Some (take (j - i) (drop i xs)) else None)"

definition copy_at :: "'a list \<Rightarrow> nat \<Rightarrow> nat \<Rightarrow> 'a list \<Rightarrow> 'a list option" where
  "copy_at xs i j ys =
     (if i \<le> j \<and> j \<le> length xs \<and> length ys = j - i then Some (take i xs @ ys @ drop j xs) else None)"

lemma idx_in [simp, slice_simps]: "i < length xs \<Longrightarrow> idx xs i = Some (xs ! i)"
  by (simp add: idx_def)

lemma idx_out [slice_simps]: "length xs \<le> i \<Longrightarrow> idx xs i = None"
  by (simp add: idx_def)

lemma slice_in [slice_simps]:
  "i \<le> j \<Longrightarrow> j \<le> length xs \<Longrightarrow> slice xs i j = Some (take (j - i) (drop i xs))"
  by (simp add: slice_def)

text \<open>
  Serialisers fill a buffer from left to right: after \<open>i\<close> bytes the buffer is
  \<open>done @ rest\<close> with \<open>length done = i\<close>. These two lemmas are the only facts about the
  writes that the serialisers need.
\<close>

lemma put_append:
  "put (xs @ ys) (length xs) b = (case ys of [] \<Rightarrow> None | _ # ys' \<Rightarrow> Some (xs @ b # ys'))"
  by (cases ys) (auto simp: put_def)

lemma copy_at_append:
  "copy_at (xs @ ys) (length xs) (length xs + length bs) bs =
     (if length bs \<le> length ys then Some (xs @ bs @ drop (length bs) ys) else None)"
  by (auto simp: copy_at_def)

section \<open>Little-endian bytes\<close>

definition u16_to_le_bytes :: "u16 \<Rightarrow> u8 \<times> u8" where
  "u16_to_le_bytes w = (ucast w, ucast (drop_bit 8 w))"

definition u16_from_le_bytes :: "u8 \<Rightarrow> u8 \<Rightarrow> u16" where
  "u16_from_le_bytes a b = ucast a OR push_bit 8 (ucast b)"

definition u32_to_le_bytes :: "u32 \<Rightarrow> u8 list" where
  "u32_to_le_bytes w =
     [ucast w, ucast (drop_bit 8 w), ucast (drop_bit 16 w), ucast (drop_bit 24 w)]"

definition u32_from_le_bytes :: "u8 \<Rightarrow> u8 \<Rightarrow> u8 \<Rightarrow> u8 \<Rightarrow> u32" where
  "u32_from_le_bytes a b c d =
     ucast a OR push_bit 8 (ucast b) OR push_bit 16 (ucast c) OR push_bit 24 (ucast d)"

lemma u16_from_to_le: "u16_from_le_bytes (fst (u16_to_le_bytes w)) (snd (u16_to_le_bytes w)) = w"
  by (rule bit_word_eqI) (auto simp: u16_from_le_bytes_def u16_to_le_bytes_def bit_simps)

lemma u16_to_from_le: "u16_to_le_bytes (u16_from_le_bytes a b) = (a, b)"
  unfolding u16_from_le_bytes_def u16_to_le_bytes_def prod.inject
  by (intro conjI; rule bit_word_eqI) (auto simp: bit_simps dest: bit_imp_le_length)

lemma u32_from_to_le:
  "u32_from_le_bytes (ucast w) (ucast (drop_bit 8 w)) (ucast (drop_bit 16 w)) (ucast (drop_bit 24 w)) = w"
proof (rule bit_word_eqI)
  fix n assume "n < LENGTH(32)"
  then consider "n < 8" | "8 \<le> n" "n < 16" | "16 \<le> n" "n < 24" | "24 \<le> n" "n < 32"
    by fastforce
  then show "bit (u32_from_le_bytes (ucast w) (ucast (drop_bit 8 w)) (ucast (drop_bit 16 w))
      (ucast (drop_bit 24 w))) n = bit w n"
    by cases (auto simp: u32_from_le_bytes_def bit_simps)
qed

lemma u32_to_from_le: "u32_to_le_bytes (u32_from_le_bytes a b c d) = [a, b, c, d]"
  unfolding u32_from_le_bytes_def u32_to_le_bytes_def list.inject
  by (intro conjI; (rule bit_word_eqI)?) (auto simp: bit_simps dest: bit_imp_le_length)

lemma length_u32_to_le [simp]: "length (u32_to_le_bytes w) = 4"
  by (simp add: u32_to_le_bytes_def)

section \<open>The interface of heapless::Vec\<close>

text \<open>
  \<open>heapless::Vec<T, N>\<close> is third-party code. Its operations are a parameter of every
  definition that calls one; the contents are a list and the capacity an argument.
  \<open>heapless_ok\<close> states the documented behaviour: \<open>push\<close> and \<open>extend_from_slice\<close> refuse what does
  not fit, \<open>swap_remove\<close> moves the last element into the hole and panics out of range.
\<close>

record 'a heapless =
  hv_push :: "nat \<Rightarrow> 'a list \<Rightarrow> 'a \<Rightarrow> 'a + 'a list"
  hv_extend_from_slice :: "nat \<Rightarrow> 'a list \<Rightarrow> 'a list \<Rightarrow> unit + 'a list"
  hv_swap_remove :: "'a list \<Rightarrow> nat \<Rightarrow> ('a \<times> 'a list) option"
  hv_clear :: "'a list \<Rightarrow> 'a list"

definition heapless_ok :: "'a heapless \<Rightarrow> bool" where
  "heapless_ok hv \<longleftrightarrow>
     (\<forall>n xs x. hv_push hv n xs x = (if length xs < n then Inr (xs @ [x]) else Inl x)) \<and>
     (\<forall>n xs ys. hv_extend_from_slice hv n xs ys =
        (if length xs + length ys \<le> n then Inr (xs @ ys) else Inl ())) \<and>
     (\<forall>xs i. hv_swap_remove hv xs i =
        (if i < length xs then Some (xs ! i, butlast (xs[i := last xs])) else None)) \<and>
     (\<forall>xs. hv_clear hv xs = [])"

lemma heapless_okD [simp]:
  assumes "heapless_ok hv"
  shows "hv_push hv n xs x = (if length xs < n then Inr (xs @ [x]) else Inl x)"
    and "hv_extend_from_slice hv n xs ys = (if length xs + length ys \<le> n then Inr (xs @ ys) else Inl ())"
    and "hv_swap_remove hv xs i =
          (if i < length xs then Some (xs ! i, butlast (xs[i := last xs])) else None)"
    and "hv_clear hv xs = []"
  using assms by (auto simp: heapless_ok_def)

text \<open>A concrete instance, at which the witnesses evaluate.\<close>

definition list_heapless :: "'a heapless" where
  "list_heapless = \<lparr>
     hv_push = (\<lambda>n xs x. if length xs < n then Inr (xs @ [x]) else Inl x),
     hv_extend_from_slice = (\<lambda>n xs ys. if length xs + length ys \<le> n then Inr (xs @ ys) else Inl ()),
     hv_swap_remove = (\<lambda>xs i. if i < length xs then Some (xs ! i, butlast (xs[i := last xs])) else None),
     hv_clear = (\<lambda>_. [])\<rparr>"

lemma list_heapless_ok [simp, intro]: "heapless_ok list_heapless"
  by (simp add: heapless_ok_def list_heapless_def)

lemma mset_swap_remove:
  assumes "i < length xs"
  shows "mset (butlast (xs[i := last xs])) = mset xs - {#xs ! i#}"
proof -
  from assms have "xs \<noteq> []" by auto
  then have "xs[i := last xs] \<noteq> []" by simp
  have "last (xs[i := last xs]) = last xs"
    using assms \<open>xs \<noteq> []\<close> by (simp add: last_list_update)
  then have "mset (xs[i := last xs]) = add_mset (last xs) (mset (butlast (xs[i := last xs])))"
    using \<open>xs[i := last xs] \<noteq> []\<close>
    by (metis add_mset_add_single append_butlast_last_id mset.simps mset_append)
  then show ?thesis using assms by (simp add: mset_update)
qed

lemma length_swap_remove [simp]: "length (butlast (xs[i := x])) = length xs - 1"
  by simp

lemma drop_Cons_D:
  assumes "drop i xs = y # ys"
  shows "i < length xs" and "xs ! i = y" and "drop (i + 1) xs = ys" and "i + 1 \<le> length xs"
proof -
  show i: "i < length xs" using assms by (metis drop_eq_Nil leI list.discI)
  then show "i + 1 \<le> length xs" by simp
  show "xs ! i = y" "drop (i + 1) xs = ys"
    using assms Cons_nth_drop_Suc [OF i] by simp_all
qed

end
