(* ===== verification/Constants.thy ===== *)
theory Constants
  imports Prelude
begin

text \<open>Protocol constants of \<open>crates/meshcore-core/src/constants.rs\<close>.\<close>

definition PUB_KEY_SIZE :: nat where "PUB_KEY_SIZE = 32"
definition PRV_KEY_SIZE :: nat where "PRV_KEY_SIZE = 64"
definition SEED_SIZE :: nat where "SEED_SIZE = 32"
definition SIGNATURE_SIZE :: nat where "SIGNATURE_SIZE = 64"

definition CIPHER_KEY_SIZE :: nat where "CIPHER_KEY_SIZE = 16"
definition CIPHER_BLOCK_SIZE :: nat where "CIPHER_BLOCK_SIZE = 16"
definition CIPHER_MAC_SIZE :: nat where "CIPHER_MAC_SIZE = 2"

definition PATH_HASH_SIZE :: nat where "PATH_HASH_SIZE = 1"
definition MAX_HASH_SIZE :: nat where "MAX_HASH_SIZE = 8"

definition MAX_PACKET_PAYLOAD :: nat where "MAX_PACKET_PAYLOAD = 184"
definition MAX_PATH_SIZE :: nat where "MAX_PATH_SIZE = 64"
definition MAX_TRANS_UNIT :: nat where "MAX_TRANS_UNIT = 255"

definition MAX_ADVERT_DATA_SIZE :: nat where "MAX_ADVERT_DATA_SIZE = 32"

definition PH_ROUTE_MASK :: u8 where "PH_ROUTE_MASK = 0x03"
definition PH_TYPE_SHIFT :: nat where "PH_TYPE_SHIFT = 2"
definition PH_TYPE_MASK :: u8 where "PH_TYPE_MASK = 0x0F"
definition PH_VER_SHIFT :: nat where "PH_VER_SHIFT = 6"
definition PH_VER_MASK :: u8 where "PH_VER_MASK = 0x03"

lemmas size_constants =
  PUB_KEY_SIZE_def PRV_KEY_SIZE_def SEED_SIZE_def SIGNATURE_SIZE_def CIPHER_KEY_SIZE_def
  CIPHER_BLOCK_SIZE_def CIPHER_MAC_SIZE_def PATH_HASH_SIZE_def MAX_HASH_SIZE_def
  MAX_PACKET_PAYLOAD_def MAX_PATH_SIZE_def MAX_TRANS_UNIT_def MAX_ADVERT_DATA_SIZE_def

lemmas header_constants =
  PH_ROUTE_MASK_def PH_TYPE_SHIFT_def PH_TYPE_MASK_def PH_VER_SHIFT_def PH_VER_MASK_def

end
