(* ===== verification/Interfaces.thy ===== *)
theory Interfaces
  imports Prelude
begin

text \<open>
  The contracts that several components share, each a locale whose client lemmas are proved
  once: \<open>codec\<close> for an encoder/decoder pair, \<open>ready_queue\<close> for the dispatcher's two time-driven queues,
  \<open>random_source\<close> for the generators, \<open>unique_clock\<close> for the clocks. Every locale is interpreted on the code's own
  operations, in the theory of the component that provides them.
\<close>

section \<open>Codecs\<close>

text \<open>
  An encoder and a partial decoder that are inverse to each other on well-formed values. The
  header byte, the little-endian integers and the wire packet all provide this contract.
\<close>

locale codec =
  fixes encode :: "'p \<Rightarrow> 'w"
    and decode :: "'w \<Rightarrow> 'p option"
    and wf :: "'p \<Rightarrow> bool"
  assumes decode_encode: "wf p \<Longrightarrow> decode (encode p) = Some p"
    and decode_sound: "decode w = Some p \<Longrightarrow> wf p \<and> encode p = w"
begin

lemma encode_inj: "wf p \<Longrightarrow> wf q \<Longrightarrow> encode p = encode q \<Longrightarrow> p = q"
  using decode_encode by (metis option.inject)

lemma decode_iff: "decode w = Some p \<longleftrightarrow> wf p \<and> encode p = w"
  using decode_encode decode_sound by blast

lemma decode_None_iff: "decode w = None \<longleftrightarrow> (\<forall>p. wf p \<longrightarrow> encode p \<noteq> w)"
  using decode_iff by (metis not_Some_eq)

lemma decode_inj: "decode v = Some p \<Longrightarrow> decode w = Some p \<Longrightarrow> v = w"
  using decode_sound by metis

end

section \<open>Queues of timed entries\<close>

text \<open>
  \<open>drain\<close> is \<open>while let Some(x) = q.pop() { ... }\<close>: it pops until nothing is ready. The fuel bounds the
  number of pops; \<open>ready_queue.drain_complete\<close> shows that one more than the queue's size is enough.
\<close>

fun drain :: "nat \<Rightarrow> ('q \<Rightarrow> ('r option \<times> 'q) option) \<Rightarrow> 'q \<Rightarrow> ('r list \<times> 'q) option" where
  "drain 0 pop q = None"
| "drain (Suc n) pop q = do {
     (r, q) \<leftarrow> pop q;
     case r of
       None \<Rightarrow> Some ([], q)
     | Some x \<Rightarrow> do { (xs, q) \<leftarrow> drain n pop q; Some (x # xs, q) }
   }"

text \<open>
  The contract of a queue that hands out its ready entries in the order of a key: \<open>bag\<close> is the
  abstract contents, \<open>out\<close> what the caller sees of an entry, \<open>ok\<close> the assumption on the third-party
  container \<open>pop\<close> is given.
\<close>

locale ready_queue =
  fixes ok :: "'c \<Rightarrow> bool"
    and bag :: "'q \<Rightarrow> 'e multiset"
    and key :: "'e \<Rightarrow> 'k::linorder"
    and ready :: "'n \<Rightarrow> 'e \<Rightarrow> bool"
    and out :: "'e \<Rightarrow> 'r"
    and pop :: "'c \<Rightarrow> 'n \<Rightarrow> 'q \<Rightarrow> ('r option \<times> 'q) option"
  assumes pop_none: "ok c \<Longrightarrow> \<forall>e \<in># bag q. \<not> ready n e \<Longrightarrow> pop c n q = Some (None, q)"
    and pop_some: "ok c \<Longrightarrow> e \<in># bag q \<Longrightarrow> ready n e \<Longrightarrow>
      \<exists>b q'. pop c n q = Some (Some (out b), q') \<and> b \<in># bag q \<and> ready n b \<and>
        (\<forall>f \<in># bag q. ready n f \<longrightarrow> key b \<le> key f) \<and> bag q' = bag q - {#b#}"
begin

lemma pop_total:
  assumes "ok c" obtains r q' where "pop c n q = Some (r, q')"
  using pop_none [OF assms] pop_some [OF assms] by metis

lemma pop_None_iff:
  assumes "ok c"
  shows "pop c n q = Some (None, q') \<longleftrightarrow> q' = q \<and> (\<forall>e \<in># bag q. \<not> ready n e)"
  using pop_none [OF assms, of q n] pop_some [OF assms, of _ q n] by fastforce

lemma drain_complete:
  assumes "ok c" "size (bag q) < fuel"
  shows "\<exists>es q'. drain fuel (pop c n) q = Some (map out es, q') \<and> sorted (map key es) \<and>
    mset es = filter_mset (ready n) (bag q) \<and> bag q' = filter_mset (\<lambda>e. \<not> ready n e) (bag q)"
  using assms(2)
proof (induction fuel arbitrary: q)
  case (Suc fuel)
  show ?case
  proof (cases "\<forall>e \<in># bag q. \<not> ready n e")
    case True
    then have "filter_mset (ready n) (bag q) = {#}" "filter_mset (\<lambda>e. \<not> ready n e) (bag q) = bag q"
      by (auto intro: multiset_eqI simp: filter_mset_eq_conv count_eq_zero_iff)
    with pop_none [OF assms(1) True] show ?thesis by (intro exI [of _ "[]"]) simp
  next
    case False
    then obtain e where "e \<in># bag q" "ready n e" by blast
    from pop_some [OF assms(1) this] obtain b q' where
      p: "pop c n q = Some (Some (out b), q')" and b: "b \<in># bag q" "ready n b"
      and least: "\<forall>f \<in># bag q. ready n f \<longrightarrow> key b \<le> key f" and q': "bag q' = bag q - {#b#}"
      by blast
    have q: "bag q = add_mset b (bag q')" using q' b by simp
    with Suc.prems have "size (bag q') < fuel" by simp
    from Suc.IH [OF this] obtain es q'' where
      d: "drain fuel (pop c n) q' = Some (map out es, q'')" "sorted (map key es)"
      "mset es = filter_mset (ready n) (bag q')" "bag q'' = filter_mset (\<lambda>e. \<not> ready n e) (bag q')"
      by blast
    have "\<forall>f \<in> set es. key b \<le> key f"
    proof
      fix f assume "f \<in> set es"
      then have "f \<in># filter_mset (ready n) (bag q')" using d(3) by (metis set_mset_mset)
      then show "key b \<le> key f" using least q by simp
    qed
    then show ?thesis
      using p d b q by (intro exI [of _ "b # es"] exI [of _ q'']) simp
  qed
qed simp

end

section \<open>Random sources\<close>

text \<open>
  A generator fills a buffer of the length asked for; \<open>next_u32\<close> is the provided method of the trait \<open>Rng\<close>
  (\<open>crates/meshcore-radio/src/rng.rs\<close>).
\<close>

definition next_u32 :: "(nat \<Rightarrow> 'g \<Rightarrow> u8 list \<times> 'g) \<Rightarrow> 'g \<Rightarrow> u32 \<Rightarrow> u32 \<Rightarrow> u32 \<times> 'g" where
  "next_u32 random g lo hi =
     (if lo \<ge> hi then (lo, g)
      else
        let (buf, g) = random 4 g;
            val = u32_from_le_bytes (buf ! 0) (buf ! 1) (buf ! 2) (buf ! 3)
        in (lo + val mod (hi - lo), g))"

locale random_source =
  fixes random :: "nat \<Rightarrow> 'g \<Rightarrow> u8 list \<times> 'g"
  assumes random_length: "length (fst (random n g)) = n"
begin

lemma next_u32_range:
  assumes "lo < hi"
  shows "lo \<le> fst (next_u32 random g lo hi) \<and> fst (next_u32 random g lo hi) < hi"
proof -
  obtain buf g' where r: "random 4 g = (buf, g')" by fastforce
  define v where "v = u32_from_le_bytes (buf ! 0) (buf ! 1) (buf ! 2) (buf ! 3)"
  have n: "fst (next_u32 random g lo hi) = lo + v mod (hi - lo)"
    using assms by (simp add: next_u32_def r v_def not_le [THEN iffD2])
  have d: "unat (hi - lo) = unat hi - unat lo" using assms by (simp add: unat_sub less_imp_le)
  have "unat (v mod (hi - lo)) = unat v mod (unat hi - unat lo)" by (simp add: unat_mod d)
  also have "\<dots> < unat hi - unat lo" using assms by (simp add: word_less_nat_alt)
  finally have m: "unat (v mod (hi - lo)) < unat hi - unat lo" .
  moreover have "unat hi < 2 ^ 32" using unsigned_less [of hi, where ?'a = nat] by simp
  ultimately have "unat (lo + v mod (hi - lo)) = unat lo + unat (v mod (hi - lo))"
    by (simp add: unat_word_ariths)
  with m show ?thesis by (simp add: n word_le_nat_alt word_less_nat_alt)
qed

lemma next_u32_le:
  "lo \<le> fst (next_u32 random g lo hi)"
  using next_u32_range [of lo hi g] by (cases "lo < hi") (auto simp: next_u32_def)

end

section \<open>Clocks with unique readings\<close>

text \<open>
  A run of a clock: a reading under an environment (the monotonic time) or another operation. The contract says that a
  unique reading is remembered, exceeds the last one unless that was the largest, and that nothing else
  forgets it.
\<close>

fun clock_run ::
    "('e \<Rightarrow> 's \<Rightarrow> (u32 \<times> 's) option) \<Rightarrow> ('o \<Rightarrow> 's \<Rightarrow> 's) \<Rightarrow> ('e + 'o) list \<Rightarrow> 's \<Rightarrow> (u32 list \<times> 's) option" where
  "clock_run uniq touch [] s = Some ([], s)"
| "clock_run uniq touch (Inl e # evs) s = do {
     (v, s) \<leftarrow> uniq e s;
     (vs, s) \<leftarrow> clock_run uniq touch evs s;
     Some (v # vs, s)
   }"
| "clock_run uniq touch (Inr x # evs) s = clock_run uniq touch evs (touch x s)"

locale unique_clock =
  fixes uniq :: "'e \<Rightarrow> 's \<Rightarrow> (u32 \<times> 's) option"
    and touch :: "'o \<Rightarrow> 's \<Rightarrow> 's"
    and last_value :: "'s \<Rightarrow> u32"
  assumes uniq_last: "uniq e s = Some (v, s') \<Longrightarrow> last_value s' = v"
    and uniq_greater: "uniq e s = Some (v, s') \<Longrightarrow> last_value s \<noteq> - 1 \<Longrightarrow> last_value s < v"
    and touch_last: "last_value (touch x s) = last_value s"
begin

lemma run_increasing:
  assumes "clock_run uniq touch evs s = Some (vs, s')" "- 1 \<notin> set (butlast (last_value s # vs))"
  shows "sorted_wrt (<) (last_value s # vs)"
  using assms
proof (induction evs arbitrary: s vs)
  case (Cons ev evs)
  show ?case
  proof (cases ev)
    case (Inl e)
    with Cons.prems(1) obtain v t ws where u: "uniq e s = Some (v, t)"
      and r: "clock_run uniq touch evs t = Some (ws, s')" and vs: "vs = v # ws"
      by (auto simp: bind_eq_Some_conv)
    have l: "last_value t = v" by (rule uniq_last [OF u])
    have "last_value s \<noteq> - 1" using Cons.prems(2) vs by auto
    then have "last_value s < v" by (rule uniq_greater [OF u])
    moreover have "sorted_wrt (<) (v # ws)"
      using Cons.IH [OF r] l Cons.prems(2) vs by (auto split: if_splits)
    ultimately show ?thesis by (auto simp: vs intro: less_trans)
  next
    case (Inr x)
    with Cons.prems Cons.IH [of "touch x s" vs] show ?thesis by (simp add: touch_last)
  qed
qed simp

lemma run_distinct:
  assumes "clock_run uniq touch evs s = Some (vs, s')" "- 1 \<notin> set (butlast (last_value s # vs))"
  shows "distinct vs"
  using run_increasing [OF assms] by (simp add: strict_sorted_iff)

end

end
