(* ===== verification/Fmt.thy ===== *)
theory Fmt
  imports Prelude
begin

text \<open>
  The formatting directives of \<open>core::fmt\<close> that the source uses: \<open>{}\<close> on an unsigned integer,
  \<open>{:02x}\<close> and \<open>{:#04x}\<close> on a byte.
\<close>

definition hex_digit :: "nat \<Rightarrow> char" where
  "hex_digit n = ''0123456789abcdef'' ! n"

definition fmt_02x :: "u8 \<Rightarrow> string" where
  "fmt_02x b = [hex_digit (unat b div 16), hex_digit (unat b mod 16)]"

definition fmt_hash_04x :: "u8 \<Rightarrow> string" where
  "fmt_hash_04x b = ''0x'' @ fmt_02x b"

fun fmt_nat :: "nat \<Rightarrow> string" where
  "fmt_nat n = (if n < 10 then [hex_digit n] else fmt_nat (n div 10) @ [hex_digit (n mod 10)])"

declare fmt_nat.simps [simp del]

lemma length_fmt_02x [simp]: "length (fmt_02x b) = 2"
  by (simp add: fmt_02x_def)

text \<open>Reading the hexadecimal digits back, in the lower case they are printed in.\<close>

definition hex_value :: "char \<Rightarrow> nat option" where
  "hex_value c = List.find (\<lambda>n. hex_digit n = c) [0..<16]"

fun unhex :: "string \<Rightarrow> u8 list option" where
  "unhex [] = Some []"
| "unhex [c] = None"
| "unhex (c # d # cs) = do {
     x \<leftarrow> hex_value c;
     y \<leftarrow> hex_value d;
     bs \<leftarrow> unhex cs;
     Some (of_nat (16 * x + y) # bs)
   }"

lemma hex_value_digit: "n < 16 \<Longrightarrow> hex_value (hex_digit n) = Some n"
proof -
  have "\<forall>n \<in> set [0..<16]. hex_value (hex_digit n) = Some n" by code_simp
  then show "n < 16 \<Longrightarrow> hex_value (hex_digit n) = Some n" by simp
qed

lemma unhex_fmt_02x [simp]: "unhex (fmt_02x b @ cs) = map_option (Cons b) (unhex cs)"
proof -
  have "unat b div 16 < 16" using unsigned_less [of b, where ?'a = nat] by (simp add: less_mult_imp_div_less)
  moreover have "(of_nat (16 * (unat b div 16) + unat b mod 16) :: u8) = b"
    by (simp only: mult_div_mod_eq) simp
  ultimately show ?thesis
    by (cases "unhex cs") (simp_all add: fmt_02x_def hex_value_digit del: of_nat_add of_nat_mult)
qed

end
