(* ===== verification/Header.thy ===== *)
theory Header
  imports Constants Interfaces Fmt
begin

text \<open>
  \<open>crates/meshcore-core/src/header.rs\<close>: the header byte \<open>0bVVPPPPRR\<close>, its three enums and the
  conversions from and to a byte.
\<close>

definition DO_NOT_RETRANSMIT :: u8 where
  "DO_NOT_RETRANSMIT = 0xFF"

section \<open>Errors\<close>

datatype HeaderError =
    InvalidRouteType u8
  | InvalidPayloadType u8
  | InvalidPayloadVersion u8

fun HeaderError_fmt :: "HeaderError \<Rightarrow> string" where
  "HeaderError_fmt (InvalidRouteType v) = ''invalid route type: '' @ fmt_hash_04x v"
| "HeaderError_fmt (InvalidPayloadType v) = ''invalid payload type: '' @ fmt_hash_04x v"
| "HeaderError_fmt (InvalidPayloadVersion v) = ''invalid payload version: '' @ fmt_hash_04x v"

section \<open>RouteType\<close>

datatype RouteType = TransportFlood | Flood | Direct | TransportDirect

fun RouteType_as_u8 :: "RouteType \<Rightarrow> u8" where
  "RouteType_as_u8 TransportFlood = 0x00"
| "RouteType_as_u8 Flood = 0x01"
| "RouteType_as_u8 Direct = 0x02"
| "RouteType_as_u8 TransportDirect = 0x03"

definition RouteType_try_from :: "u8 \<Rightarrow> HeaderError + RouteType" where
  "RouteType_try_from value =
     (if value = 0x00 then Inr TransportFlood
      else if value = 0x01 then Inr Flood
      else if value = 0x02 then Inr Direct
      else if value = 0x03 then Inr TransportDirect
      else Inl (InvalidRouteType value))"

fun is_flood :: "RouteType \<Rightarrow> bool" where
  "is_flood Flood = True"
| "is_flood TransportFlood = True"
| "is_flood _ = False"

fun is_direct :: "RouteType \<Rightarrow> bool" where
  "is_direct Direct = True"
| "is_direct TransportDirect = True"
| "is_direct _ = False"

fun RouteType_has_transport_codes :: "RouteType \<Rightarrow> bool" where
  "RouteType_has_transport_codes TransportFlood = True"
| "RouteType_has_transport_codes TransportDirect = True"
| "RouteType_has_transport_codes _ = False"

section \<open>PayloadType\<close>

datatype PayloadType =
    Request | Response | TxtMsg | Ack | Advert | GrpTxt | GrpData | AnonReq | Path | Trace
  | Multipart | Control | RawCustom

fun PayloadType_as_u8 :: "PayloadType \<Rightarrow> u8" where
  "PayloadType_as_u8 Request = 0x00"
| "PayloadType_as_u8 Response = 0x01"
| "PayloadType_as_u8 TxtMsg = 0x02"
| "PayloadType_as_u8 Ack = 0x03"
| "PayloadType_as_u8 Advert = 0x04"
| "PayloadType_as_u8 GrpTxt = 0x05"
| "PayloadType_as_u8 GrpData = 0x06"
| "PayloadType_as_u8 AnonReq = 0x07"
| "PayloadType_as_u8 Path = 0x08"
| "PayloadType_as_u8 Trace = 0x09"
| "PayloadType_as_u8 Multipart = 0x0A"
| "PayloadType_as_u8 Control = 0x0B"
| "PayloadType_as_u8 RawCustom = 0x0F"

definition PayloadType_try_from :: "u8 \<Rightarrow> HeaderError + PayloadType" where
  "PayloadType_try_from value =
     (if value = 0x00 then Inr Request
      else if value = 0x01 then Inr Response
      else if value = 0x02 then Inr TxtMsg
      else if value = 0x03 then Inr Ack
      else if value = 0x04 then Inr Advert
      else if value = 0x05 then Inr GrpTxt
      else if value = 0x06 then Inr GrpData
      else if value = 0x07 then Inr AnonReq
      else if value = 0x08 then Inr Path
      else if value = 0x09 then Inr Trace
      else if value = 0x0A then Inr Multipart
      else if value = 0x0B then Inr Control
      else if value = 0x0F then Inr RawCustom
      else Inl (InvalidPayloadType value))"

section \<open>PayloadVersion\<close>

datatype PayloadVersion = V1 | V2 | V3 | V4

fun PayloadVersion_as_u8 :: "PayloadVersion \<Rightarrow> u8" where
  "PayloadVersion_as_u8 V1 = 0x00"
| "PayloadVersion_as_u8 V2 = 0x01"
| "PayloadVersion_as_u8 V3 = 0x02"
| "PayloadVersion_as_u8 V4 = 0x03"

definition PayloadVersion_try_from :: "u8 \<Rightarrow> HeaderError + PayloadVersion" where
  "PayloadVersion_try_from value =
     (if value = 0x00 then Inr V1
      else if value = 0x01 then Inr V2
      else if value = 0x02 then Inr V3
      else if value = 0x03 then Inr V4
      else Inl (InvalidPayloadVersion value))"

section \<open>PacketHeader\<close>

record PacketHeader =
  hdr_route_type :: RouteType
  hdr_payload_type :: PayloadType
  hdr_version :: PayloadVersion

definition PacketHeader_try_from :: "u8 \<Rightarrow> HeaderError + PacketHeader" where
  "PacketHeader_try_from byte =
     result_bind (RouteType_try_from (byte AND PH_ROUTE_MASK)) (\<lambda>rt.
     result_bind (PayloadType_try_from (drop_bit PH_TYPE_SHIFT byte AND PH_TYPE_MASK)) (\<lambda>pt.
     result_bind (PayloadVersion_try_from (drop_bit PH_VER_SHIFT byte AND PH_VER_MASK)) (\<lambda>v.
     Inr \<lparr>hdr_route_type = rt, hdr_payload_type = pt, hdr_version = v\<rparr>)))"

definition PacketHeader_into_u8 :: "PacketHeader \<Rightarrow> u8" where
  "PacketHeader_into_u8 h =
     RouteType_as_u8 (hdr_route_type h)
     OR push_bit PH_TYPE_SHIFT (PayloadType_as_u8 (hdr_payload_type h))
     OR push_bit PH_VER_SHIFT (PayloadVersion_as_u8 (hdr_version h))"

definition PacketHeader_is_do_not_retransmit :: "u8 \<Rightarrow> bool" where
  "PacketHeader_is_do_not_retransmit raw \<longleftrightarrow> raw = DO_NOT_RETRANSMIT"

section \<open>Facts about single fields\<close>

lemma route_try_from_iff: "RouteType_try_from w = Inr r \<longleftrightarrow> RouteType_as_u8 r = w"
  by (cases r) (auto simp: RouteType_try_from_def)

lemma payload_try_from_iff: "PayloadType_try_from w = Inr r \<longleftrightarrow> PayloadType_as_u8 r = w"
  by (cases r) (auto simp: PayloadType_try_from_def)

lemma version_try_from_iff: "PayloadVersion_try_from w = Inr r \<longleftrightarrow> PayloadVersion_as_u8 r = w"
  by (cases r) (auto simp: PayloadVersion_try_from_def)

lemma try_from_as_u8 [simp]:
  "RouteType_try_from (RouteType_as_u8 r) = Inr r"
  "PayloadType_try_from (PayloadType_as_u8 p) = Inr p"
  "PayloadVersion_try_from (PayloadVersion_as_u8 v) = Inr v"
  by (simp_all add: route_try_from_iff payload_try_from_iff version_try_from_iff)

lemmas try_from_iff = route_try_from_iff payload_try_from_iff version_try_from_iff

lemma and_masks: "w AND (3 :: u8) = take_bit 2 w" "w AND (15 :: u8) = take_bit 4 w"
  by (simp_all add: take_bit_eq_mask mask_eq_exp_minus_1)

lemma two_bit_cases: "w AND (3 :: u8) \<in> {0, 1, 2, 3}"
proof -
  have "unat (w AND 3) < 4" unfolding and_masks unsigned_take_bit_eq by (simp add: take_bit_eq_mod)
  then obtain n where "n < 4" "w AND 3 = of_nat n" by (rule word_less_cases)
  then show ?thesis by (auto simp: numeral_eq_Suc less_Suc_eq)
qed

lemma four_bit_cases: "w AND (15 :: u8) \<in> {0, 1, 2, 3, 4, 5, 6, 7, 8, 9, 10, 11, 12, 13, 14, 15}"
proof -
  have "unat (w AND 15) < 16" unfolding and_masks unsigned_take_bit_eq by (simp add: take_bit_eq_mod)
  then obtain n where "n < 16" "w AND 15 = of_nat n" by (rule word_less_cases)
  then show ?thesis by (auto simp: numeral_eq_Suc less_Suc_eq)
qed

lemma route_masked_total: "\<exists>r. RouteType_try_from (b AND PH_ROUTE_MASK) = Inr r"
  using two_bit_cases [of b] by (auto simp: RouteType_try_from_def PH_ROUTE_MASK_def)

lemma version_masked_total:
  "\<exists>v. PayloadVersion_try_from (drop_bit PH_VER_SHIFT b AND PH_VER_MASK) = Inr v"
  using two_bit_cases [of "drop_bit 6 b"]
  by (auto simp: PayloadVersion_try_from_def header_constants)

lemma payload_masked_error:
  "PayloadType_try_from (w AND 15) = Inl e \<longleftrightarrow>
     e = InvalidPayloadType (w AND 15) \<and> w AND 15 \<in> {0x0C, 0x0D, 0x0E}"
  using four_bit_cases [of w] by (auto simp: PayloadType_try_from_def)

section \<open>The header byte\<close>

lemma into_u8_fields:
  "PacketHeader_into_u8 h AND PH_ROUTE_MASK = RouteType_as_u8 (hdr_route_type h)"
  "drop_bit PH_TYPE_SHIFT (PacketHeader_into_u8 h) AND PH_TYPE_MASK = PayloadType_as_u8 (hdr_payload_type h)"
  "drop_bit PH_VER_SHIFT (PacketHeader_into_u8 h) AND PH_VER_MASK = PayloadVersion_as_u8 (hdr_version h)"
  by (cases "hdr_route_type h"; cases "hdr_payload_type h"; cases "hdr_version h";
      simp add: PacketHeader_into_u8_def header_constants)+

lemma byte_of_fields:
  "(b AND PH_ROUTE_MASK) OR push_bit PH_TYPE_SHIFT (drop_bit PH_TYPE_SHIFT b AND PH_TYPE_MASK)
     OR push_bit PH_VER_SHIFT (drop_bit PH_VER_SHIFT b AND PH_VER_MASK) = b"
  unfolding header_constants and_masks
proof (rule bit_word_eqI)
  fix n assume "n < LENGTH(8)"
  then have "n < 2 \<or> (\<exists>m. n = m + 2 \<and> m < 4) \<or> (\<exists>m. n = m + 6 \<and> m < 2)"
    by simp presburger
  then show "bit (take_bit 2 b OR push_bit 2 (take_bit 4 (drop_bit 2 b))
      OR push_bit 6 (take_bit 2 (drop_bit 6 b))) n = bit b n"
    by (auto simp: bit_simps add.commute)
qed

lemma header_try_from_iff: "PacketHeader_try_from b = Inr h \<longleftrightarrow> PacketHeader_into_u8 h = b"
proof
  assume "PacketHeader_try_from b = Inr h"
  then have "RouteType_as_u8 (hdr_route_type h) = b AND PH_ROUTE_MASK"
    and "PayloadType_as_u8 (hdr_payload_type h) = drop_bit PH_TYPE_SHIFT b AND PH_TYPE_MASK"
    and "PayloadVersion_as_u8 (hdr_version h) = drop_bit PH_VER_SHIFT b AND PH_VER_MASK"
    by (auto simp: PacketHeader_try_from_def result_simps try_from_iff)
  then show "PacketHeader_into_u8 h = b"
    by (simp only: PacketHeader_into_u8_def byte_of_fields)
next
  assume "PacketHeader_into_u8 h = b"
  then show "PacketHeader_try_from b = Inr h"
    using into_u8_fields [of h] by (simp add: PacketHeader_try_from_def)
qed

lemma header_try_from_error_iff:
  "PacketHeader_try_from b = Inl e \<longleftrightarrow>
     e = InvalidPayloadType (drop_bit PH_TYPE_SHIFT b AND PH_TYPE_MASK) \<and>
     drop_bit PH_TYPE_SHIFT b AND PH_TYPE_MASK \<in> {0x0C, 0x0D, 0x0E}"
proof -
  obtain r where "RouteType_try_from (b AND PH_ROUTE_MASK) = Inr r"
    using route_masked_total by blast
  moreover obtain v where "PayloadVersion_try_from (drop_bit PH_VER_SHIFT b AND PH_VER_MASK) = Inr v"
    using version_masked_total by blast
  ultimately show ?thesis
    using payload_masked_error [of "drop_bit PH_TYPE_SHIFT b" e]
    by (auto simp: PacketHeader_try_from_def result_simps PH_TYPE_MASK_def)
qed

interpretation header_codec:
  codec PacketHeader_into_u8 "\<lambda>b. result_ok (PacketHeader_try_from b)" "\<lambda>_. True"
proof unfold_locales
  fix h show "result_ok (PacketHeader_try_from (PacketHeader_into_u8 h)) = Some h"
    using header_try_from_iff [of "PacketHeader_into_u8 h" h] by simp
next
  fix b h assume "result_ok (PacketHeader_try_from b) = Some h"
  then have "PacketHeader_try_from b = Inr h"
    by (cases "PacketHeader_try_from b") auto
  then show "True \<and> PacketHeader_into_u8 h = b"
    by (simp add: header_try_from_iff)
qed

section \<open>Properties\<close>

text \<open>C34: The header byte round-trips in both directions: a byte parses to a header exactly when that header
  encodes to the byte, so nothing but the reserved payload types is lost or confused.\<close>

theorem header_round_trip: "PacketHeader_try_from b = Inr h \<longleftrightarrow> PacketHeader_into_u8 h = b"
  by (rule header_try_from_iff)

text \<open>The only way a header byte fails to parse is a reserved payload type 0x0C, 0x0D or 0x0E, which is
  also the value the error carries; route type and version never fail, since they are masked.\<close>

theorem header_error_only_reserved_payload:
  "PacketHeader_try_from b = Inl e \<longleftrightarrow>
     e = InvalidPayloadType (drop_bit PH_TYPE_SHIFT b AND PH_TYPE_MASK) \<and>
     drop_bit PH_TYPE_SHIFT b AND PH_TYPE_MASK \<in> {0x0C, 0x0D, 0x0E}"
  by (rule header_try_from_error_iff)

end
