(* ===== verification/Packet.thy ===== *)
theory Packet
  imports Header
begin

text \<open>
  \<open>crates/meshcore-core/src/packet.rs\<close>: the wire packet, its path-length encoding, the
  serialiser \<open>write_to\<close> and the parser \<open>read_from\<close>. Both work on byte buffers through the panicking
  slice operations of the prelude, so that "never panics" is a theorem and not an assumption.
\<close>

section \<open>The packet and its accessors\<close>

definition PATH_HASH_COUNT_MASK :: u8 where "PATH_HASH_COUNT_MASK = 0x3F"
definition PATH_HASH_SIZE_SHIFT :: nat where "PATH_HASH_SIZE_SHIFT = 6"

record Packet =
  header :: u8
  path_len :: u8
  transport_codes :: "u16 \<times> u16"
  path :: "u8 list"
  payload :: "u8 list"
  snr :: i8

definition Packet_new :: Packet where
  "Packet_new = \<lparr>header = 0, path_len = 0, transport_codes = (0, 0), path = [], payload = [], snr = 0\<rparr>"

definition parsed_header :: "Packet \<Rightarrow> HeaderError + PacketHeader" where
  "parsed_header p = PacketHeader_try_from (header p)"

definition route_type :: "Packet \<Rightarrow> HeaderError + RouteType" where
  "route_type p = RouteType_try_from (header p AND PH_ROUTE_MASK)"

definition payload_type :: "Packet \<Rightarrow> HeaderError + PayloadType" where
  "payload_type p = result_bind (parsed_header p) (\<lambda>parsed. Inr (hdr_payload_type parsed))"

definition has_transport_codes :: "Packet \<Rightarrow> bool" where
  "has_transport_codes p = result_unwrap_or (result_map RouteType_has_transport_codes (route_type p)) False"

definition path_hash_size :: "Packet \<Rightarrow> u8" where
  "path_hash_size p = drop_bit PATH_HASH_SIZE_SHIFT (path_len p) + 1"

definition path_hash_count :: "Packet \<Rightarrow> u8" where
  "path_hash_count p = path_len p AND PATH_HASH_COUNT_MASK"

definition path_byte_len :: "Packet \<Rightarrow> nat" where
  "path_byte_len p = unat (path_hash_count p) * unat (path_hash_size p)"

definition set_path_hash_count :: "Packet \<Rightarrow> u8 \<Rightarrow> Packet" where
  "set_path_hash_count p cnt =
     p\<lparr>path_len := (path_len p AND NOT PATH_HASH_COUNT_MASK) OR (cnt AND PATH_HASH_COUNT_MASK)\<rparr>"

definition set_path_hash_size_and_count :: "Packet \<Rightarrow> u8 \<Rightarrow> u8 \<Rightarrow> Packet" where
  "set_path_hash_size_and_count p sz cnt =
     (let size_enc = saturating_sub sz 1 AND 0x03
      in p\<lparr>path_len := push_bit PATH_HASH_SIZE_SHIFT size_enc OR (cnt AND PATH_HASH_COUNT_MASK)\<rparr>)"

definition is_valid_path_len :: "Packet \<Rightarrow> bool" where
  "is_valid_path_len p \<longleftrightarrow> drop_bit PATH_HASH_SIZE_SHIFT (path_len p) \<noteq> 0x03"

definition mark_do_not_retransmit :: "Packet \<Rightarrow> Packet" where
  "mark_do_not_retransmit p = p\<lparr>header := DO_NOT_RETRANSMIT\<rparr>"

definition is_do_not_retransmit :: "Packet \<Rightarrow> bool" where
  "is_do_not_retransmit p \<longleftrightarrow> header p = DO_NOT_RETRANSMIT"

section \<open>Serialisation\<close>

definition wire_len :: "Packet \<Rightarrow> nat" where
  "wire_len p = 1 + (if has_transport_codes p then 4 else 0) + 1 + path_byte_len p + length (payload p)"

text \<open>The result is the number of bytes written and the buffer; \<^const>\<open>None\<close> is a panic.\<close>

definition write_transport :: "Packet \<Rightarrow> nat \<Rightarrow> u8 list \<Rightarrow> (nat \<times> u8 list) option" where
  "write_transport p i dest =
     (if has_transport_codes p then do {
        let tc0 = u16_to_le_bytes (fst (transport_codes p));
        dest \<leftarrow> put dest i (fst tc0);
        dest \<leftarrow> put dest (i + 1) (snd tc0);
        let i = i + 2;
        let tc1 = u16_to_le_bytes (snd (transport_codes p));
        dest \<leftarrow> put dest i (fst tc1);
        dest \<leftarrow> put dest (i + 1) (snd tc1);
        Some (i + 2, dest)
      } else Some (i, dest))"

definition write_path :: "Packet \<Rightarrow> nat \<Rightarrow> u8 list \<Rightarrow> (nat \<times> u8 list) option" where
  "write_path p i dest =
     (let pbl = path_byte_len p in
      if pbl > 0 then do {
        src \<leftarrow> slice (path p) 0 pbl;
        dest \<leftarrow> copy_at dest i (i + pbl) src;
        Some (i + pbl, dest)
      } else Some (i, dest))"

definition write_payload :: "Packet \<Rightarrow> nat \<Rightarrow> u8 list \<Rightarrow> (nat \<times> u8 list) option" where
  "write_payload p i dest =
     (let payload_len = length (payload p) in
      if payload_len > 0 then do {
        dest \<leftarrow> copy_at dest i (i + payload_len) (payload p);
        Some (i + payload_len, dest)
      } else Some (i, dest))"

definition write_to :: "Packet \<Rightarrow> u8 list \<Rightarrow> (nat \<times> u8 list) option" where
  "write_to p dest = do {
     dest \<leftarrow> put dest 0 (header p);
     (i, dest) \<leftarrow> write_transport p 1 dest;
     dest \<leftarrow> put dest i (path_len p);
     (i, dest) \<leftarrow> write_path p (i + 1) dest;
     write_payload p i dest
   }"

section \<open>Parsing\<close>

text \<open>
  \<open>read_from\<close> mutates the packet as it goes and may return \<open>false\<close> in the middle: each stage
  returns the packet so far with the next index, or \<^const>\<open>None\<close> in the second component for
  \<open>return false\<close>. The outer option is the panic.
\<close>

definition read_transport :: "Packet \<Rightarrow> u8 list \<Rightarrow> nat \<Rightarrow> (Packet \<times> nat option) option" where
  "read_transport p src i =
     (if has_transport_codes p then
        if i + 4 > length src then Some (p, None)
        else do {
          a \<leftarrow> idx src i;
          b \<leftarrow> idx src (i + 1);
          let tc0 = u16_from_le_bytes a b;
          let i = i + 2;
          c \<leftarrow> idx src i;
          d \<leftarrow> idx src (i + 1);
          let tc1 = u16_from_le_bytes c d;
          Some (p\<lparr>transport_codes := (tc0, tc1)\<rparr>, Some (i + 2))
        }
      else Some (p\<lparr>transport_codes := (0, 0)\<rparr>, Some i))"

definition read_path :: "u8 heapless \<Rightarrow> Packet \<Rightarrow> u8 list \<Rightarrow> nat \<Rightarrow> (Packet \<times> nat option) option" where
  "read_path hv p src i =
     (if i \<ge> length src then Some (p, None)
      else do {
        b \<leftarrow> idx src i;
        let p = p\<lparr>path_len := b\<rparr>;
        let i = i + 1;
        if \<not> is_valid_path_len p then Some (p, None)
        else do {
          let bl = path_byte_len p;
          if i + bl > length src then Some (p, None)
          else do {
            let p = p\<lparr>path := hv_clear hv (path p)\<rparr>;
            if bl > 0 then do {
              s \<leftarrow> slice src i (i + bl);
              case hv_extend_from_slice hv MAX_PATH_SIZE (path p) s of
                Inl _ \<Rightarrow> Some (p, None)
              | Inr v \<Rightarrow> Some (p\<lparr>path := v\<rparr>, Some (i + bl))
            } else Some (p, Some (i + bl))
          }
        }
      })"

definition read_payload :: "u8 heapless \<Rightarrow> Packet \<Rightarrow> u8 list \<Rightarrow> nat \<Rightarrow> (bool \<times> Packet) option" where
  "read_payload hv p src i =
     (if i > length src then Some (False, p)
      else let payload_len = length src - i in
        if payload_len > MAX_PACKET_PAYLOAD then Some (False, p)
        else
          let p = p\<lparr>payload := hv_clear hv (payload p)\<rparr> in
          if payload_len > 0 then do {
            s \<leftarrow> slice src i (i + payload_len);
            case hv_extend_from_slice hv MAX_PACKET_PAYLOAD (payload p) s of
              Inl _ \<Rightarrow> Some (False, p)
            | Inr v \<Rightarrow> Some (True, p\<lparr>payload := v\<rparr>)
          } else Some (True, p))"

definition read_from :: "u8 heapless \<Rightarrow> Packet \<Rightarrow> u8 list \<Rightarrow> (bool \<times> Packet) option" where
  "read_from hv p src =
     (if length src < 2 then Some (False, p)
      else do {
        b \<leftarrow> idx src 0;
        let p = p\<lparr>header := b\<rparr>;
        (p, r) \<leftarrow> read_transport p src 1;
        case r of
          None \<Rightarrow> Some (False, p)
        | Some i \<Rightarrow> do {
            (p, r) \<leftarrow> read_path hv p src i;
            case r of None \<Rightarrow> Some (False, p) | Some i \<Rightarrow> read_payload hv p src i
          }
      })"

section \<open>The wire image\<close>

text \<open>
  The abstract wire format of the module's header comment: what \<open>write_to\<close> lays out and
  \<open>read_from\<close> accepts. \<open>path_complete\<close> says that the path vector holds the bytes its length byte
  announces; the fields are public, so a caller can break it.
\<close>

definition wire_transport :: "Packet \<Rightarrow> u8 list" where
  "wire_transport p =
     (if has_transport_codes p then
        [fst (u16_to_le_bytes (fst (transport_codes p))), snd (u16_to_le_bytes (fst (transport_codes p))),
         fst (u16_to_le_bytes (snd (transport_codes p))), snd (u16_to_le_bytes (snd (transport_codes p)))]
      else [])"

definition wire_bytes :: "Packet \<Rightarrow> u8 list" where
  "wire_bytes p =
     header p # wire_transport p @ path_len p # take (path_byte_len p) (path p) @ payload p"

definition path_complete :: "Packet \<Rightarrow> bool" where
  "path_complete p \<longleftrightarrow> path_byte_len p \<le> length (path p)"

lemma length_wire_bytes: "path_complete p \<Longrightarrow> length (wire_bytes p) = wire_len p"
  by (auto simp: wire_bytes_def wire_len_def wire_transport_def path_complete_def)


lemma put_app_Cons: "length xs = n \<Longrightarrow> put (xs @ y # ys) n b = Some ((xs @ [b]) @ ys)"
  by (auto simp: put_def)

lemma put_app_Nil: "length xs = n \<Longrightarrow> put xs n b = None"
  by (auto simp: put_def)

lemma write_transport_eq:
  assumes [simp]: "length xs = n"
  shows "write_transport p n (xs @ ys) =
    (if length (wire_transport p) \<le> length ys then
       Some (n + length (wire_transport p), (xs @ wire_transport p) @ drop (length (wire_transport p)) ys)
     else None)"
proof (cases "has_transport_codes p")
  case True
  consider "ys = []" | a where "ys = [a]" | a b where "ys = [a, b]" | a b c where "ys = [a, b, c]"
    | a b c d zs where "ys = a # b # c # d # zs"
    by (metis list.exhaust)
  then show ?thesis
    by cases (simp_all add: True write_transport_def wire_transport_def Let_def put_app_Cons put_app_Nil
      del: append_assoc)
next
  case False
  then show ?thesis by (simp add: write_transport_def wire_transport_def)
qed


lemma put_app:
  assumes "length xs = n"
  shows "put (xs @ ys) n b = (if ys = [] then None else Some ((xs @ [b]) @ drop 1 ys))"
  using assms by (cases ys) (auto simp: put_def)

lemma copy_at_app:
  assumes "length xs = n" "m = n + length bs"
  shows "copy_at (xs @ ys) n m bs =
     (if length bs \<le> length ys then Some ((xs @ bs) @ drop (length bs) ys) else None)"
  using assms by (auto simp: copy_at_def)

lemma slice_prefix: "slice xs 0 n = (if n \<le> length xs then Some (take n xs) else None)"
  by (simp add: slice_def)


lemma write_path_eq:
  assumes "length xs = i"
  shows "write_path p i (xs @ ys) =
    (if path_complete p \<and> path_byte_len p \<le> length ys
     then Some (i + path_byte_len p, (xs @ take (path_byte_len p) (path p)) @ drop (path_byte_len p) ys)
     else None)"
  using assms
  by (auto simp: write_path_def path_complete_def slice_prefix copy_at_app Let_def del: append_assoc)

lemma write_payload_eq:
  assumes "length xs = i"
  shows "write_payload p i (xs @ ys) =
    (if length (payload p) \<le> length ys
     then Some (i + length (payload p), (xs @ payload p) @ drop (length (payload p)) ys) else None)"
  using assms by (auto simp: write_payload_def copy_at_app Let_def)


lemma write_to_eq:
  "write_to p dest =
     (if path_complete p \<and> wire_len p \<le> length dest
      then Some (wire_len p, wire_bytes p @ drop (wire_len p) dest) else None)"
proof (cases dest)
  case Nil
  then show ?thesis by (simp add: write_to_def put_def wire_len_def)
next
  case (Cons d ds)
  let ?tc = "wire_transport p" and ?pa = "take (path_byte_len p) (path p)"
  have len: "wire_len p = 2 + length ?tc + path_byte_len p + length (payload p)"
    by (simp add: wire_len_def wire_transport_def)
  have h: "put dest 0 (header p) = Some ([header p] @ ds)" by (simp add: put_def Cons)
  note tc = write_transport_eq [of "[header p]" 1 p ds]
  show ?thesis
  proof (cases "path_complete p \<and> length ?tc + 1 + path_byte_len p \<le> length ds")
    case True
    define xs where "xs = (([header p] @ ?tc) @ [path_len p]) @ ?pa"
    define ys where "ys = drop (path_byte_len p) (drop 1 (drop (length ?tc) ds))"
    have "length ?pa = path_byte_len p" using True by (simp add: path_complete_def)
    then have "length xs = 1 + length ?tc + 1 + path_byte_len p" by (simp add: xs_def)
    moreover have "write_to p dest = write_payload p (1 + length ?tc + 1 + path_byte_len p) (xs @ ys)"
      using True
      by (auto simp: write_to_def h tc put_app write_path_eq xs_def ys_def simp
          del: append_Cons append_Nil append_assoc One_nat_def)
    ultimately have "write_to p dest =
        (if length (payload p) \<le> length ys
         then Some (wire_len p, (xs @ payload p) @ drop (length (payload p)) ys) else None)"
      by (simp add: write_payload_eq len)
    with True show ?thesis by (auto simp: len xs_def ys_def Cons wire_bytes_def add_ac)
  next
    case False
    then have "write_to p dest = None"
      by (auto simp: write_to_def h tc put_app write_path_eq simp del: append_Cons append_Nil append_assoc One_nat_def)
    with False show ?thesis by (auto simp: len Cons)
  qed
qed

section \<open>The parser inverts it\<close>

definition wf_packet :: "Packet \<Rightarrow> bool" where
  "wf_packet p \<longleftrightarrow>
     is_valid_path_len p \<and> length (path p) = path_byte_len p \<and> length (path p) \<le> MAX_PATH_SIZE \<and>
     length (payload p) \<le> MAX_PACKET_PAYLOAD \<and>
     (has_transport_codes p \<or> transport_codes p = (0, 0))"

lemma packet_update_simps [simp]:
  "has_transport_codes (p\<lparr>path_len := a\<rparr>) = has_transport_codes p"
  "has_transport_codes (p\<lparr>transport_codes := t\<rparr>) = has_transport_codes p"
  "has_transport_codes (p\<lparr>path := b\<rparr>) = has_transport_codes p"
  "has_transport_codes (p\<lparr>payload := b\<rparr>) = has_transport_codes p"
  "has_transport_codes (p\<lparr>snr := s\<rparr>) = has_transport_codes p"
  "path_byte_len (p\<lparr>header := h\<rparr>) = path_byte_len p"
  "path_byte_len (p\<lparr>transport_codes := t\<rparr>) = path_byte_len p"
  "path_byte_len (p\<lparr>path := b\<rparr>) = path_byte_len p"
  "path_byte_len (p\<lparr>payload := b\<rparr>) = path_byte_len p"
  "path_byte_len (p\<lparr>snr := s\<rparr>) = path_byte_len p"
  "is_valid_path_len (p\<lparr>header := h\<rparr>) = is_valid_path_len p"
  "is_valid_path_len (p\<lparr>transport_codes := t\<rparr>) = is_valid_path_len p"
  "is_valid_path_len (p\<lparr>path := b\<rparr>) = is_valid_path_len p"
  "is_valid_path_len (p\<lparr>payload := b\<rparr>) = is_valid_path_len p"
  "is_valid_path_len (p\<lparr>snr := s\<rparr>) = is_valid_path_len p"
  by (simp_all add: has_transport_codes_def route_type_def path_byte_len_def path_hash_count_def
      path_hash_size_def is_valid_path_len_def)

lemma has_transport_codes_cong: "header p = header q \<Longrightarrow> has_transport_codes p = has_transport_codes q"
  by (simp add: has_transport_codes_def route_type_def)
lemma path_len_cong: "path_len p = path_len q \<Longrightarrow> path_byte_len p = path_byte_len q"
   "path_len p = path_len q \<Longrightarrow> is_valid_path_len p = is_valid_path_len q"
  by (simp_all add: path_byte_len_def path_hash_count_def path_hash_size_def is_valid_path_len_def)

lemma drop4:
  assumes "i + 4 \<le> length src"
  shows "drop i src = src ! i # src ! (i + 1) # src ! (i + 2) # src ! (i + 3) # drop (i + 4) src"
  using assms by (simp add: Cons_nth_drop_Suc eval_nat_numeral)

lemma read_transport_cases:
  "read_transport p src i =
     (if has_transport_codes p then
        if i + 4 \<le> length src then
          Some (p\<lparr>transport_codes := (u16_from_le_bytes (src ! i) (src ! (i + 1)),
                                      u16_from_le_bytes (src ! (i + 2)) (src ! (i + 3)))\<rparr>, Some (i + 4))
        else Some (p, None)
      else Some (p\<lparr>transport_codes := (0, 0)\<rparr>, Some i))"
  by (simp add: read_transport_def Let_def numeral_3_eq_3)

lemma read_transport_sound:
  assumes "read_transport p src i = Some (q, Some j)" "i \<le> length src"
  shows "\<exists>tc. q = p\<lparr>transport_codes := tc\<rparr> \<and> drop i src = wire_transport q @ drop j src \<and>
           i \<le> j \<and> j \<le> length src \<and> (has_transport_codes q \<or> transport_codes q = (0, 0))"
  using assms drop4 [of i src]
  by (auto simp: read_transport_cases wire_transport_def u16_to_from_le split: if_splits)

lemma read_transport_complete:
  assumes "drop i src = wire_transport q @ rest" "header p = header q"
    "has_transport_codes q \<or> transport_codes q = (0, 0)" "i \<le> length src"
  shows "read_transport p src i =
    Some (p\<lparr>transport_codes := transport_codes q\<rparr>, Some (i + length (wire_transport q)))"
proof (cases "has_transport_codes q")
  case True
  then have "has_transport_codes p" using assms by (simp cong: has_transport_codes_cong)
  moreover have "4 \<le> length (drop i src)" unfolding assms(1) by (simp add: wire_transport_def True)
  then have len: "i + 4 \<le> length src" by simp
  have "u16_to_le_bytes (fst (transport_codes q)) = (src ! i, src ! (i + 1))"
    "u16_to_le_bytes (snd (transport_codes q)) = (src ! (i + 2), src ! (i + 3))"
    using assms(1) drop4 [OF len] True by (auto simp: wire_transport_def prod_eq_iff)
  then have "(u16_from_le_bytes (src ! i) (src ! (i + 1)),
      u16_from_le_bytes (src ! (i + 2)) (src ! (i + 3))) = transport_codes q"
    using u16_from_to_le [of "fst (transport_codes q)"] u16_from_to_le [of "snd (transport_codes q)"]
    by (simp add: prod_eq_iff)
  ultimately show ?thesis
    using True len by (simp add: read_transport_cases wire_transport_def)
next
  case False
  then have "\<not> has_transport_codes p" using assms by (simp cong: has_transport_codes_cong)
  with False assms show ?thesis by (simp add: read_transport_cases wire_transport_def)
qed

lemma read_path_cases:
  assumes "heapless_ok hv"
  shows "read_path hv p src i =
     (if length src \<le> i then Some (p, None)
      else let p = p\<lparr>path_len := src ! i\<rparr>; bl = path_byte_len p in
        if \<not> is_valid_path_len p \<or> length src < i + 1 + bl then Some (p, None)
        else if bl > MAX_PATH_SIZE then Some (p\<lparr>path := []\<rparr>, None)
        else Some (p\<lparr>path := take bl (drop (i + 1) src)\<rparr>, Some (i + 1 + bl)))"
  using assms by (auto simp: read_path_def Let_def slice_def)

lemma read_path_sound:
  assumes "read_path hv p src i = Some (q, Some j)" "heapless_ok hv"
  shows "\<exists>b v. q = p\<lparr>path_len := b, path := v\<rparr> \<and> is_valid_path_len q \<and>
    length v = path_byte_len q \<and> length v \<le> MAX_PATH_SIZE \<and>
    drop i src = b # v @ drop j src \<and> j \<le> length src"
proof -
  from assms obtain q0 where q0: "q0 = p\<lparr>path_len := src ! i\<rparr>" and "i < length src"
    and "is_valid_path_len q0" "i + 1 + path_byte_len q0 \<le> length src"
    "path_byte_len q0 \<le> MAX_PATH_SIZE" "q = q0\<lparr>path := take (path_byte_len q0) (drop (i + 1) src)\<rparr>"
    and j: "j = i + 1 + path_byte_len q0"
    by (auto simp: read_path_cases Let_def split: if_splits)
  moreover have "drop i src = src ! i # take (path_byte_len q0) (drop (i + 1) src) @ drop j src"
  proof -
    have "drop j src = drop (path_byte_len q0) (drop (i + 1) src)"
      by (simp add: j add.commute)
    moreover have "drop i src = src ! i # drop (i + 1) src"
      using \<open>i < length src\<close> by (simp add: Cons_nth_drop_Suc)
    ultimately show ?thesis by (simp only: append_take_drop_id)
  qed
  ultimately show ?thesis by (auto simp: min_def)
qed

lemma read_path_complete:
  assumes "drop i src = path_len q # path q @ rest" "heapless_ok hv" "wf_packet q" "i \<le> length src"
  shows "read_path hv p src i =
    Some (p\<lparr>path_len := path_len q, path := path q\<rparr>, Some (i + 1 + path_byte_len q))"
proof -
  have "i < length src" using assms(1) by (metis drop_all list.distinct(1) not_less)
  then have "src ! i = path_len q" "drop (i + 1) src = path q @ rest"
    using assms(1) by (simp_all add: Cons_nth_drop_Suc [symmetric])
  moreover have "length src = i + 1 + length (path q) + length rest"
    using arg_cong [OF assms(1), of length] \<open>i < length src\<close> by simp
  moreover have "path_byte_len (p\<lparr>path_len := path_len q\<rparr>) = path_byte_len q"
     "is_valid_path_len (p\<lparr>path_len := path_len q\<rparr>) = is_valid_path_len q"
    by (auto intro!: path_len_cong)
  ultimately show ?thesis
    using assms(3) \<open>i < length src\<close>
    unfolding read_path_cases [OF assms(2)] Let_def wf_packet_def by simp
qed

lemma read_payload_cases:
  assumes "heapless_ok hv"
  shows "read_payload hv p src i =
     (if length src < i \<or> length src - i > MAX_PACKET_PAYLOAD then Some (False, p)
      else Some (True, p\<lparr>payload := drop i src\<rparr>))"
  using assms by (auto simp: read_payload_def Let_def slice_def)


lemma idx_first: "2 \<le> length src \<Longrightarrow> idx src 0 = Some (src ! 0)"
  by (auto simp: idx_def)

lemma read_from_sound:
  assumes hv: "heapless_ok hv" and r: "read_from hv q src = Some (True, p)"
  shows "wf_packet p \<and> wire_bytes p = src \<and> snr p = snr q"
proof -
  from r have len: "2 \<le> length src" by (auto simp: read_from_def split: if_splits)
  then have src: "src = src ! 0 # drop 1 src" by (cases src) auto
  from r len obtain q1 i q2 j where
    t: "read_transport (q\<lparr>header := src ! 0\<rparr>) src 1 = Some (q1, Some i)" and
    a: "read_path hv q1 src i = Some (q2, Some j)" and
    l: "read_payload hv q2 src j = Some (True, p)"
    by (auto simp: read_from_def bind_eq_Some_conv idx_def split: if_splits option.splits)
  from read_transport_sound [OF t] len obtain tc where
    q1: "q1 = q\<lparr>header := src ! 0, transport_codes := tc\<rparr>" and
    d1: "drop 1 src = wire_transport q1 @ drop i src" and
    tc: "has_transport_codes q1 \<or> transport_codes q1 = (0, 0)"
    by auto
  from read_path_sound [OF a hv] obtain b v where
    q2: "q2 = q1\<lparr>path_len := b, path := v\<rparr>" and val: "is_valid_path_len q2" and
    v: "length v = path_byte_len q2" "length v \<le> MAX_PATH_SIZE" and
    di: "drop i src = b # v @ drop j src" and "j \<le> length src"
    by blast
  from l hv have p: "p = q2\<lparr>payload := drop j src\<rparr>" and "length src - j \<le> MAX_PACKET_PAYLOAD"
    by (auto simp: read_payload_cases split: if_splits)
  have "wire_transport p = wire_transport q1"
    by (simp add: p q2 wire_transport_def)
  then have "wire_bytes p = src ! 0 # wire_transport q1 @ b # v @ drop j src"
    using v by (simp add: wire_bytes_def p q2 q1)
  then have "wire_bytes p = src" using src d1 di by simp
  moreover have "wf_packet p"
    using val v tc \<open>length src - j \<le> MAX_PACKET_PAYLOAD\<close> by (auto simp: wf_packet_def p q2 q1)
  ultimately show ?thesis by (simp add: p q2 q1)
qed

lemma read_from_complete:
  assumes hv: "heapless_ok hv" and wf: "wf_packet p"
  shows "read_from hv q (wire_bytes p) = Some (True, p\<lparr>snr := snr q\<rparr>)"
proof -
  define src where "src = wire_bytes p"
  let ?i = "1 + length (wire_transport p)"
  let ?q1 = "q\<lparr>header := header p, transport_codes := transport_codes p\<rparr>"
  let ?q2 = "?q1\<lparr>path_len := path_len p, path := path p\<rparr>"
  from wf have pl: "take (path_byte_len p) (path p) = path p" by (simp add: wf_packet_def)
  have len: "2 \<le> length src" "src ! 0 = header p" by (simp_all add: src_def wire_bytes_def)
  have d1: "drop 1 src = wire_transport p @ path_len p # path p @ payload p"
    by (simp add: src_def wire_bytes_def pl)
  then have di: "drop ?i src = path_len p # path p @ payload p"
    by (simp add: src_def wire_bytes_def)
  have il: "?i \<le> length src" by (simp add: src_def wire_bytes_def)
  have dj: "drop (?i + 1 + path_byte_len p) src = payload p"
    using wf by (simp add: src_def wire_bytes_def wf_packet_def)
  have jl: "?i + 1 + path_byte_len p \<le> length src"
    using wf by (simp add: src_def wire_bytes_def wf_packet_def)
  have t: "read_transport (q\<lparr>header := header p\<rparr>) src 1 = Some (?q1, Some ?i)"
    using read_transport_complete [OF d1, of "q\<lparr>header := header p\<rparr>"] wf len by (simp add: wf_packet_def)
  have a: "read_path hv ?q1 src ?i = Some (?q2, Some (?i + 1 + path_byte_len p))"
    by (rule read_path_complete [OF di hv wf il])
  have l: "read_payload hv ?q2 src (?i + 1 + path_byte_len p) = Some (True, ?q2\<lparr>payload := payload p\<rparr>)"
  proof -
    have "length src - (?i + 1 + path_byte_len p) \<le> MAX_PACKET_PAYLOAD"
      using arg_cong [OF dj, of length] wf by (simp only: length_drop wf_packet_def)
    with jl dj show ?thesis by (simp only: read_payload_cases [OF hv]) simp
  qed
  have "read_from hv q src = Some (True, ?q2\<lparr>payload := payload p\<rparr>)"
    using len t a l by (simp add: read_from_def idx_first)
  then show ?thesis by (simp add: src_def)
qed

lemma read_from_total:
  assumes hv: "heapless_ok hv"
  shows "\<exists>b p. read_from hv q src = Some (b, p)"
proof (cases "length src < 2")
  case True
  then show ?thesis unfolding read_from_def by auto
next
  case False
  have t: "\<exists>p' r. read_transport p src i = Some (p', r)" for p i
    by (simp add: read_transport_cases)
  have a: "\<exists>p' r. read_path hv p src i = Some (p', r)" for p i
    using hv by (simp add: read_path_cases Let_def)
  have l: "\<exists>b p'. read_payload hv p src i = Some (b, p')" for p i
    using hv by (auto simp: read_payload_cases)
  obtain p1 r1 where 1: "read_transport (q\<lparr>header := src ! 0\<rparr>) src 1 = Some (p1, r1)"
    using t by blast
  show ?thesis
  proof (cases r1)
    case None
    with 1 False show ?thesis by (auto simp: read_from_def idx_first)
  next
    case (Some i)
    obtain p2 r2 where "read_path hv p1 src i = Some (p2, r2)" using a by blast
    with 1 False Some l show ?thesis by (cases r2) (auto simp: read_from_def idx_first)
  qed
qed

section \<open>The codec contract\<close>

definition decode_packet :: "u8 list \<Rightarrow> Packet option" where
  "decode_packet src =
     (case read_from list_heapless Packet_new src of Some (True, p) \<Rightarrow> Some p | _ \<Rightarrow> None)"

lemma decode_packet_iff:
  "decode_packet src = Some p \<longleftrightarrow> read_from list_heapless Packet_new src = Some (True, p)"
  by (auto simp: decode_packet_def split: option.splits bool.splits)

interpretation wire: codec wire_bytes decode_packet "\<lambda>p. wf_packet p \<and> snr p = 0"
proof unfold_locales
  fix p assume "wf_packet p \<and> snr p = 0"
  then show "decode_packet (wire_bytes p) = Some p"
    using read_from_complete [OF list_heapless_ok, of p Packet_new]
    by (simp add: decode_packet_iff Packet_new_def)
next
  fix src p assume "decode_packet src = Some p"
  then have "wf_packet p \<and> wire_bytes p = src \<and> snr p = snr Packet_new"
    using read_from_sound [OF list_heapless_ok] by (simp add: decode_packet_iff)
  then show "(wf_packet p \<and> snr p = 0) \<and> wire_bytes p = src" by (simp add: Packet_new_def)
qed

lemma wire_bytes_snr [simp]: "wire_bytes (p\<lparr>snr := s\<rparr>) = wire_bytes p"
  by (simp add: wire_bytes_def wire_transport_def)

lemma wf_packet_snr [simp]: "wf_packet (p\<lparr>snr := s\<rparr>) = wf_packet p"
  by (simp add: wf_packet_def)

lemma wf_path_complete [simp, intro]: "wf_packet p \<Longrightarrow> path_complete p"
  by (simp add: wf_packet_def path_complete_def)

lemma wf_wire_len_le: "wf_packet p \<Longrightarrow> wire_len p \<le> 254"
  by (auto simp: wf_packet_def wire_len_def size_constants)

section \<open>The path length byte\<close>

lemma path_hash_count_lt: "unat (path_hash_count p) < 64"
proof -
  have "path_hash_count p = take_bit 6 (path_len p)"
    by (simp add: path_hash_count_def PATH_HASH_COUNT_MASK_def take_bit_eq_mask mask_eq_exp_minus_1)
  then show ?thesis by (simp add: unsigned_take_bit_eq) (simp add: take_bit_eq_mod)
qed

lemma six_bits: "w AND PATH_HASH_COUNT_MASK = take_bit 6 w"
  by (simp add: PATH_HASH_COUNT_MASK_def take_bit_eq_mask mask_eq_exp_minus_1)

lemma set_path_hash_size_and_count_len:
  "path_len (set_path_hash_size_and_count p sz n) =
    push_bit 6 (take_bit 2 (saturating_sub sz 1)) OR take_bit 6 n"
  by (simp add: set_path_hash_size_and_count_def six_bits PATH_HASH_SIZE_SHIFT_def and_masks)

lemma drop_len: "drop_bit 6 (push_bit 6 (take_bit 2 a)) OR drop_bit 6 (take_bit 6 (n :: u8)) = take_bit 2 a"
  by (rule bit_word_eqI) (auto simp: bit_simps)

lemma take_len: "take_bit 6 (push_bit 6 (take_bit 2 a)) OR take_bit 6 (n :: u8) = take_bit 6 n"
  by (rule bit_word_eqI) (auto simp: bit_simps)


lemma set_size_and_count_fields:
  "path_hash_size (set_path_hash_size_and_count p sz n) = take_bit 2 (saturating_sub sz 1) + 1"
  "path_hash_count (set_path_hash_size_and_count p sz n) = take_bit 6 n"
  "is_valid_path_len (set_path_hash_size_and_count p sz n) \<longleftrightarrow> take_bit 2 (saturating_sub sz 1) \<noteq> 3"
  by (simp_all add: path_hash_size_def path_hash_count_def is_valid_path_len_def six_bits
      PATH_HASH_SIZE_SHIFT_def set_path_hash_size_and_count_len drop_len take_len)

lemma set_count_fields:
  "path_hash_size (set_path_hash_count p n) = path_hash_size p"
  "path_hash_count (set_path_hash_count p n) = take_bit 6 n"
proof -
  have len: "path_len (set_path_hash_count p n) = (path_len p AND NOT (mask 6)) OR take_bit 6 n"
    by (simp add: set_path_hash_count_def PATH_HASH_COUNT_MASK_def take_bit_eq_mask mask_eq_exp_minus_1)
  have "drop_bit 6 ((w AND NOT (mask 6)) OR take_bit 6 n) = drop_bit 6 w" for w :: u8
    by (rule bit_word_eqI) (auto simp: bit_simps dest: bit_imp_le_length)
  then show "path_hash_size (set_path_hash_count p n) = path_hash_size p"
    by (simp only: path_hash_size_def PATH_HASH_SIZE_SHIFT_def len)
  have "take_bit 6 ((w AND NOT (mask 6)) OR take_bit 6 n) = take_bit 6 n" for w :: u8
    by (rule bit_word_eqI) (auto simp: bit_simps)
  then show "path_hash_count (set_path_hash_count p n) = take_bit 6 n"
    by (simp only: path_hash_count_def six_bits len)
qed

lemma take_bit_6_small: "n < 64 \<Longrightarrow> take_bit 6 (n :: u8) = n"
  by (simp add: word_unat_eq_iff unsigned_take_bit_eq take_bit_nat_eq_self_iff word_less_nat_alt)

lemma small_size_cases:
  assumes "1 \<le> sz" "sz \<le> (4 :: u8)"
  shows "take_bit 2 (saturating_sub sz 1) + 1 = sz" "take_bit 2 (saturating_sub sz 1) = 3 \<longleftrightarrow> sz = 4"
proof -
  from assms(2) have "unat sz < 5" by (simp add: word_le_nat_alt)
  then obtain n where "n < 5" "sz = of_nat n" by (rule word_less_cases)
  with assms have "sz \<in> {1, 2, 3, 4}" by (auto simp: numeral_eq_Suc less_Suc_eq)
  then show "take_bit 2 (saturating_sub sz 1) + 1 = sz" "take_bit 2 (saturating_sub sz 1) = 3 \<longleftrightarrow> sz = 4"
    by (auto simp: saturating_sub_def)
qed

section \<open>Properties\<close>

text \<open>C20: Packet parsing is exactly the inverse of the wire format: \<open>read_from\<close> accepts a frame iff it is
  the wire image of a well-formed packet, and then it returns that packet (the SNR field, which is not
  on the wire, is kept from before).\<close>

theorem read_from_accepts_iff:
  assumes "heapless_ok hv"
  shows "read_from hv q src = Some (True, p) \<longleftrightarrow> wf_packet p \<and> wire_bytes p = src \<and> snr p = snr q"
proof
  assume "read_from hv q src = Some (True, p)"
  with assms show "wf_packet p \<and> wire_bytes p = src \<and> snr p = snr q" by (rule read_from_sound)
next
  assume r: "wf_packet p \<and> wire_bytes p = src \<and> snr p = snr q"
  then have "p\<lparr>snr := snr q\<rparr> = p" by simp
  with r assms show "read_from hv q src = Some (True, p)" using read_from_complete by metis
qed

definition sample_packet :: Packet where
  "sample_packet = \<lparr>header = 0x10, path_len = 0x42, transport_codes = (0x1234, 0x5678),
     path = [1, 2, 3, 4], payload = [0xAA, 0xBB], snr = 0\<rparr>"

lemma sample_packet_wf [simp]: "wf_packet sample_packet"
  by (simp add: sample_packet_def wf_packet_def is_valid_path_len_def path_byte_len_def path_hash_count_def
      path_hash_size_def PATH_HASH_COUNT_MASK_def PATH_HASH_SIZE_SHIFT_def size_constants
      has_transport_codes_def route_type_def RouteType_try_from_def PH_ROUTE_MASK_def)

lemma sample_packet_wire:
  "wire_bytes sample_packet = [0x10, 0x34, 0x12, 0x78, 0x56, 0x42, 1, 2, 3, 4, 0xAA, 0xBB]"
  by (simp add: sample_packet_def wire_bytes_def wire_transport_def path_byte_len_def path_hash_count_def
      path_hash_size_def PATH_HASH_COUNT_MASK_def PATH_HASH_SIZE_SHIFT_def u16_to_le_bytes_def
      has_transport_codes_def route_type_def RouteType_try_from_def PH_ROUTE_MASK_def)

theorem read_from_accepts_iff_witness:
  "read_from list_heapless Packet_new [0x10, 0x34, 0x12, 0x78, 0x56, 0x42, 1, 2, 3, 4, 0xAA, 0xBB]
     = Some (True, sample_packet)"
  using read_from_accepts_iff [OF list_heapless_ok, of Packet_new _ sample_packet]
  by (simp add: sample_packet_wire) (simp add: sample_packet_def Packet_new_def)

text \<open>C21: Round trip through a buffer: a well-formed packet serialised into any buffer that has room,
  without a panic, is parsed back to itself.\<close>

theorem packet_round_trip:
  assumes "heapless_ok hv" "wf_packet p" "wire_len p \<le> length dest"
  shows "\<exists>dest'. write_to p dest = Some (wire_len p, dest') \<and> length dest' = length dest \<and>
           read_from hv q (take (wire_len p) dest') = Some (True, p\<lparr>snr := snr q\<rparr>)"
  using assms
  by (auto simp: write_to_eq read_from_complete length_wire_bytes)

theorem packet_round_trip_witness:
  "\<exists>dest'. write_to sample_packet (replicate 255 0) = Some (wire_len sample_packet, dest') \<and>
     length dest' = 255 \<and>
     read_from list_heapless Packet_new (take (wire_len sample_packet) dest') =
       Some (True, sample_packet\<lparr>snr := 0\<rparr>)"
  using packet_round_trip [OF list_heapless_ok sample_packet_wf, of "replicate 255 0" Packet_new]
    wf_wire_len_le [OF sample_packet_wf]
  by (simp add: Packet_new_def)

text \<open>C22: \<open>write_to\<close> on every branch: it panics exactly when the path vector is shorter than the length byte
  announces or the buffer is shorter than \<open>wire_len\<close>; otherwise it writes the wire image, leaves the rest
  of the buffer alone and returns \<open>wire_len\<close>.\<close>

theorem write_to_spec:
  "write_to p dest =
     (if path_complete p \<and> wire_len p \<le> length dest
      then Some (wire_len p, wire_bytes p @ drop (wire_len p) dest) else None)"
  by (rule write_to_eq)

text \<open>\<open>read_from\<close> never panics, whatever the bytes and the packet it overwrites, and returns \<open>false\<close> exactly
  for the frames that no well-formed packet has as its wire image.\<close>

theorem read_from_rejects_iff:
  assumes "heapless_ok hv"
  shows "\<exists>b p. read_from hv q src = Some (b, p) \<and> (b \<longleftrightarrow> (\<exists>r. wf_packet r \<and> wire_bytes r = src))"
proof -
  obtain b p where r: "read_from hv q src = Some (b, p)" using read_from_total [OF assms] by blast
  have "b" if "wf_packet s" "wire_bytes s = src" for s
    using read_from_complete [OF assms that(1), of q] that(2) r by simp
  moreover have "wf_packet p \<and> wire_bytes p = src" if b
    using that r read_from_sound [OF assms] by simp
  ultimately show ?thesis using r by blast
qed

theorem read_from_rejects_iff_witness:
  "\<exists>b p. read_from list_heapless Packet_new [0x09, 0xC5] = Some (b, p) \<and>
     (b \<longleftrightarrow> (\<exists>r. wf_packet r \<and> wire_bytes r = [0x09, 0xC5]))"
  by (rule read_from_rejects_iff [OF list_heapless_ok])

text \<open>Whatever was received can be sent again: an accepted frame is at most 254 bytes long, its \<open>wire_len\<close>
  is its length, and writing the parsed packet to a buffer of \<open>MAX_TRANS_UNIT\<close> bytes reproduces the frame.\<close>

theorem received_can_be_sent:
  assumes "heapless_ok hv" "read_from hv q src = Some (True, p)"
  shows "length src \<le> 254 \<and> wire_len p = length src \<and>
    write_to p (replicate MAX_TRANS_UNIT b) = Some (length src, src @ replicate (MAX_TRANS_UNIT - length src) b)"
proof -
  from assms have wf: "wf_packet p" and src: "wire_bytes p = src" using read_from_sound by blast+
  have "wire_len p = length src" using length_wire_bytes [of p] wf src by auto
  with wf src wf_wire_len_le [OF wf] show ?thesis by (simp add: write_to_eq MAX_TRANS_UNIT_def)
qed

theorem received_can_be_sent_witness:
  "write_to sample_packet (replicate MAX_TRANS_UNIT 0) =
     Some (12, [0x10, 0x34, 0x12, 0x78, 0x56, 0x42, 1, 2, 3, 4, 0xAA, 0xBB] @ replicate 243 0)"
proof -
  have "read_from list_heapless Packet_new (wire_bytes sample_packet) = Some (True, sample_packet)"
    using read_from_complete [OF list_heapless_ok sample_packet_wf, of Packet_new]
    by (simp add: Packet_new_def sample_packet_def)
  from received_can_be_sent [OF list_heapless_ok this, of 0] show ?thesis
    by (simp add: sample_packet_wire MAX_TRANS_UNIT_def)
qed

text \<open>No two well-formed packets share a wire image (up to the SNR field, which is not transmitted).\<close>

theorem wire_bytes_injective:
  assumes "wf_packet p" "wf_packet r" "wire_bytes p = wire_bytes r"
  shows "p\<lparr>snr := 0\<rparr> = r\<lparr>snr := 0\<rparr>"
  using wire.encode_inj [of "p\<lparr>snr := 0\<rparr>" "r\<lparr>snr := 0\<rparr>"] assms by simp

theorem wire_bytes_injective_witness:
  "sample_packet\<lparr>snr := 0\<rparr> = sample_packet\<lparr>snr := 5, snr := 0\<rparr>"
  using wire_bytes_injective [of sample_packet "sample_packet\<lparr>snr := 5\<rparr>"] by simp

text \<open>The path length byte: the setters and getters agree for the sizes 1 to 4 and counts below 64, only
  size 4 is invalid, and changing the count keeps the size.\<close>

theorem path_len_encoding:
  assumes "1 \<le> sz" "sz \<le> 4" "n < 64" "m < 64"
  shows "path_hash_size (set_path_hash_size_and_count p sz n) = sz \<and>
    path_hash_count (set_path_hash_size_and_count p sz n) = n \<and>
    (is_valid_path_len (set_path_hash_size_and_count p sz n) \<longleftrightarrow> sz \<noteq> 4) \<and>
    path_hash_size (set_path_hash_count (set_path_hash_size_and_count p sz n) m) = sz \<and>
    path_hash_count (set_path_hash_count (set_path_hash_size_and_count p sz n) m) = m"
  using assms
  by (simp add: set_size_and_count_fields set_count_fields take_bit_6_small small_size_cases)

theorem path_len_encoding_witness:
  "path_hash_size (set_path_hash_size_and_count Packet_new 2 10) = 2 \<and>
   path_hash_count (set_path_hash_count (set_path_hash_size_and_count Packet_new 2 10) 5) = 5"
  using path_len_encoding [of 2 10 5 Packet_new] by simp

end
