(* ===== verification/Dedup.thy ===== *)
theory Dedup
  imports Packet
begin

text \<open>
  \<open>crates/meshcore-core/src/dedup.rs\<close>: the duplicate filter, a ring buffer of truncated packet
  hashes. SHA-256 is third-party code and a parameter \<open>sha256\<close> of the definitions; feeding the hasher with
  several \<open>update\<close> calls hashes the concatenation. The const generic \<open>N\<close> is the length of \<open>hashes\<close>.
\<close>

section \<open>The ring buffer\<close>

definition ZERO_HASH :: "u8 list" where
  "ZERO_HASH = replicate MAX_HASH_SIZE 0"

definition packet_hash :: "(u8 list \<Rightarrow> u8 list) \<Rightarrow> Packet \<Rightarrow> u8 list" where
  "packet_hash sha256 p =
     (let payload_type_byte = drop_bit 2 (header p) AND 0x0F;
          digest = sha256 ([payload_type_byte]
                    @ (if payload_type_byte = PayloadType_as_u8 Trace then [path_len p] else [])
                    @ payload p)
      in take MAX_HASH_SIZE digest)"

record PacketDedup =
  hashes :: "u8 list list"
  next_idx :: nat
  direct_dups :: u32
  flood_dups :: u32

definition PacketDedup_new :: "nat \<Rightarrow> PacketDedup" where
  "PacketDedup_new N = \<lparr>hashes = replicate N ZERO_HASH, next_idx = 0, direct_dups = 0, flood_dups = 0\<rparr>"

definition has_seen :: "(u8 list \<Rightarrow> u8 list) \<Rightarrow> PacketDedup \<Rightarrow> Packet \<Rightarrow> (bool \<times> PacketDedup) option" where
  "has_seen sha256 d p =
     (let hash = packet_hash sha256 p in
      if List.member (hashes d) hash then
        let direct = result_unwrap_or (result_map is_direct (route_type p)) False
        in Some (True, if direct then d\<lparr>direct_dups := direct_dups d + 1\<rparr>
                       else d\<lparr>flood_dups := flood_dups d + 1\<rparr>)
      else do {
        hs \<leftarrow> put (hashes d) (next_idx d) hash;
        Some (False, d\<lparr>hashes := hs, next_idx := (next_idx d + 1) mod length (hashes d)\<rparr>)
      })"

fun clear_first :: "u8 list \<Rightarrow> u8 list list \<Rightarrow> u8 list list" where
  "clear_first hash [] = []"
| "clear_first hash (stored # rest) =
     (if stored = hash then ZERO_HASH # rest else stored # clear_first hash rest)"

definition clear_entry :: "(u8 list \<Rightarrow> u8 list) \<Rightarrow> PacketDedup \<Rightarrow> Packet \<Rightarrow> PacketDedup" where
  "clear_entry sha256 d p = d\<lparr>hashes := clear_first (packet_hash sha256 p) (hashes d)\<rparr>"

definition reset_stats :: "PacketDedup \<Rightarrow> PacketDedup" where
  "reset_stats d = d\<lparr>direct_dups := 0, flood_dups := 0\<rparr>"

text \<open>A run of \<open>has_seen\<close> over a sequence of packets: the verdicts and the final table.\<close>

fun seen_run :: "(u8 list \<Rightarrow> u8 list) \<Rightarrow> PacketDedup \<Rightarrow> Packet list \<Rightarrow> (bool list \<times> PacketDedup) option" where
  "seen_run sha256 d [] = Some ([], d)"
| "seen_run sha256 d (p # ps) = do {
     (b, d) \<leftarrow> has_seen sha256 d p;
     (bs, d) \<leftarrow> seen_run sha256 d ps;
     Some (b # bs, d)
   }"

section \<open>The abstract filter: the last N new hashes\<close>

text \<open>
  The abstraction reads the ring from the slot to be overwritten next, so it lists the remembered
  hashes from the oldest to the newest. \<open>ring_ok\<close> is the invariant of the table.
\<close>

definition fifo :: "PacketDedup \<Rightarrow> u8 list list" where
  "fifo d = drop (next_idx d) (hashes d) @ take (next_idx d) (hashes d)"

definition nonzero :: "u8 list list \<Rightarrow> u8 list list" where
  "nonzero hs = [h \<leftarrow> hs. h \<noteq> ZERO_HASH]"

definition ring_ok :: "PacketDedup \<Rightarrow> bool" where
  "ring_ok d \<longleftrightarrow> next_idx d < length (hashes d) \<and> distinct (nonzero (hashes d))"

text \<open>The specification: remember a new hash by forgetting the oldest one.\<close>

definition fifo_push :: "u8 list list \<Rightarrow> u8 list \<Rightarrow> u8 list list" where
  "fifo_push q h = tl q @ [h]"

lemma set_fifo [simp]: "set (fifo d) = set (hashes d)"
  by (simp add: fifo_def) (metis append_take_drop_id set_append sup_commute)

lemma length_fifo [simp]: "length (fifo d) = length (hashes d)"
  by (simp add: fifo_def)

lemma fifo_insert:
  assumes "next_idx d < length (hashes d)"
  shows "fifo (d\<lparr>hashes := (hashes d)[next_idx d := h], next_idx := (next_idx d + 1) mod length (hashes d)\<rparr>)
    = fifo_push (fifo d) h"
proof -
  let ?n = "next_idx d" and ?hs = "hashes d"
  have upd: "take (Suc ?n) (?hs[?n := h]) = take ?n ?hs @ [h]"
    using assms by (simp add: take_Suc_conv_app_nth)
  show ?thesis
  proof (cases "Suc ?n = length ?hs")
    case True
    then have "?hs[?n := h] = take ?n ?hs @ [h]" using upd by simp
    with True assms show ?thesis
      by (simp add: fifo_def fifo_push_def Cons_nth_drop_Suc [symmetric])
  next
    case False
    with assms upd show ?thesis
      by (simp add: fifo_def fifo_push_def Cons_nth_drop_Suc [symmetric])
  qed
qed

lemma has_seen_old:
  assumes "packet_hash sha p \<in> set (hashes d)"
  shows "\<exists>d'. has_seen sha d p = Some (True, d') \<and> hashes d' = hashes d \<and> next_idx d' = next_idx d"
  using assms by (auto simp: has_seen_def Let_def)

lemma has_seen_new:
  assumes "packet_hash sha p \<notin> set (hashes d)" "next_idx d < length (hashes d)"
  shows "has_seen sha d p = Some (False, d\<lparr>hashes := (hashes d)[next_idx d := packet_hash sha p],
      next_idx := (next_idx d + 1) mod length (hashes d)\<rparr>)"
  using assms by (simp add: has_seen_def put_def)

lemma nonzero_update:
  assumes "distinct (nonzero hs)" "h \<notin> set hs" "i < length hs"
  shows "distinct (nonzero (hs[i := h]))"
proof -
  have "hs[i := h] = take i hs @ h # drop (Suc i) hs" using assms by (simp add: upd_conv_take_nth_drop)
  moreover have "hs = take i hs @ hs ! i # drop (Suc i) hs" using assms by (simp add: id_take_nth_drop)
  then have "distinct (nonzero (take i hs @ hs ! i # drop (Suc i) hs))" using assms(1) by simp
  ultimately show ?thesis
    using assms(2) by (auto simp: nonzero_def dest: in_set_takeD in_set_dropD split: if_splits)
qed

lemma has_seen_cases:
  assumes "ring_ok d"
  obtains d' where "packet_hash sha p \<in> set (fifo d)" "has_seen sha d p = Some (True, d')"
      "fifo d' = fifo d" "ring_ok d'" "length (hashes d') = length (hashes d)"
  | d' where "packet_hash sha p \<notin> set (fifo d)" "has_seen sha d p = Some (False, d')"
      "fifo d' = fifo_push (fifo d) (packet_hash sha p)" "ring_ok d'" "length (hashes d') = length (hashes d)"
      "direct_dups d' = direct_dups d" "flood_dups d' = flood_dups d"
proof (cases "packet_hash sha p \<in> set (hashes d)")
  case True
  then obtain d' where "has_seen sha d p = Some (True, d')" "hashes d' = hashes d" "next_idx d' = next_idx d"
    using has_seen_old by blast
  moreover from this have "fifo d' = fifo d" by (simp add: fifo_def)
  ultimately show ?thesis using True assms that(1) [of d'] by (simp add: ring_ok_def)
next
  case False
  let ?d = "d\<lparr>hashes := (hashes d)[next_idx d := packet_hash sha p],
      next_idx := (next_idx d + 1) mod length (hashes d)\<rparr>"
  from assms have n: "next_idx d < length (hashes d)" by (simp add: ring_ok_def)
  moreover have "Suc (next_idx d) mod length (hashes d) < length (hashes d)"
    using n by (intro mod_less_divisor) linarith
  then have "ring_ok ?d" using assms False n by (simp add: ring_ok_def nonzero_update)
  ultimately show ?thesis
    using that(2) [of ?d] False has_seen_new [OF False n] fifo_insert [OF n] by simp
qed

lemma fifo_pushes:
  assumes "length ns \<le> length q"
  shows "foldl fifo_push q ns = drop (length ns) q @ ns"
  using assms
proof (induction ns rule: rev_induct)
  case (snoc h ns)
  then have "drop (length ns) q \<noteq> []" by simp
  with snoc show ?case by (simp add: fifo_push_def drop_Suc tl_drop)
qed simp

fun new_hashes :: "(u8 list \<Rightarrow> u8 list) \<Rightarrow> Packet list \<Rightarrow> bool list \<Rightarrow> u8 list list" where
  "new_hashes sha (p # ps) (b # bs) = (if b then new_hashes sha ps bs else packet_hash sha p # new_hashes sha ps bs)"
| "new_hashes sha _ _ = []"

lemma seen_run_fifo:
  assumes "ring_ok d"
  shows "\<exists>bs d'. seen_run sha d ps = Some (bs, d') \<and> ring_ok d' \<and> length (hashes d') = length (hashes d) \<and>
    fifo d' = foldl fifo_push (fifo d) (new_hashes sha ps bs) \<and> length bs = length ps"
  using assms
proof (induction ps arbitrary: d)
  case (Cons p ps)
  from Cons.prems show ?case
  proof (cases rule: has_seen_cases [where p = p and sha = sha])
    case (1 d')
    with Cons.IH [of d'] show ?thesis by fastforce
  next
    case (2 d')
    with Cons.IH [of d'] show ?thesis by fastforce
  qed
qed simp

text \<open>
  The filter as a function on hashes: the verdicts on a sequence of them, and the hashes remembered in the end. A hash is a duplicate when it is one of
  the remembered ones, and only a new one is remembered.
\<close>

fun fifo_run :: "u8 list list \<Rightarrow> u8 list list \<Rightarrow> bool list \<times> u8 list list" where
  "fifo_run q [] = ([], q)"
| "fifo_run q (h # hs) =
     (let (bs, q') = fifo_run (if h \<in> set q then q else fifo_push q h) hs in ((h \<in> set q) # bs, q'))"

text \<open>The packets reported as duplicates that are direct, or that are not.\<close>

definition direct_packet :: "Packet \<Rightarrow> bool" where
  "direct_packet p = (case route_type p of Inr rt \<Rightarrow> is_direct rt | Inl _ \<Rightarrow> False)"

definition dups :: "bool \<Rightarrow> Packet list \<Rightarrow> bool list \<Rightarrow> nat" where
  "dups direct ps bs = length [(p, b) \<leftarrow> zip ps bs. b \<and> direct_packet p = direct]"

lemma dups_Cons [simp]:
  "dups direct [] bs = 0"
  "dups direct (p # ps) (b # bs) = (if b \<and> direct_packet p = direct then 1 else 0) + dups direct ps bs"
  by (simp_all add: dups_def)

lemma fifo_counters [simp]: "fifo (d\<lparr>direct_dups := n\<rparr>) = fifo d" "fifo (d\<lparr>flood_dups := n\<rparr>) = fifo d"
  by (simp_all add: fifo_def)

lemma has_seen_ring:
  assumes "ring_ok d" "h = packet_hash sha p"
  shows "\<exists>d'. has_seen sha d p = Some (h \<in> set (fifo d), d') \<and> ring_ok d' \<and> length (hashes d') = length (hashes d) \<and>
    fifo d' = (if h \<in> set (fifo d) then fifo d else fifo_push (fifo d) h) \<and>
    direct_dups d' = direct_dups d + (if h \<in> set (fifo d) \<and> direct_packet p then 1 else 0) \<and>
    flood_dups d' = flood_dups d + (if h \<in> set (fifo d) \<and> \<not> direct_packet p then 1 else 0)"
proof (cases "h \<in> set (hashes d)")
  case True
  with assms show ?thesis
    by (auto simp: has_seen_def Let_def direct_packet_def ring_ok_def split: sum.split)
next
  case False
  with assms show ?thesis by (cases rule: has_seen_cases [where p = p and sha = sha]) auto
qed

lemma seen_run_refines:
  assumes "ring_ok d" "fifo_run (fifo d) (map (packet_hash sha) ps) = (bs, q)"
  shows "\<exists>d'. seen_run sha d ps = Some (bs, d') \<and> fifo d' = q \<and> ring_ok d' \<and> length (hashes d') = length (hashes d) \<and>
    direct_dups d' = direct_dups d + of_nat (dups True ps bs) \<and> flood_dups d' = flood_dups d + of_nat (dups False ps bs)"
  using assms
proof (induction ps arbitrary: d bs)
  case (Cons p ps)
  let ?h = "packet_hash sha p"
  from has_seen_ring [OF Cons.prems(1) refl, of sha p] obtain d1 where
    hs: "has_seen sha d p = Some (?h \<in> set (fifo d), d1)" and d1: "ring_ok d1" "length (hashes d1) = length (hashes d)"
    "fifo d1 = (if ?h \<in> set (fifo d) then fifo d else fifo_push (fifo d) ?h)"
    and c: "direct_dups d1 = direct_dups d + (if ?h \<in> set (fifo d) \<and> direct_packet p then 1 else 0)"
    "flood_dups d1 = flood_dups d + (if ?h \<in> set (fifo d) \<and> \<not> direct_packet p then 1 else 0)" by blast
  from Cons.prems(2) obtain cs where bs: "bs = (?h \<in> set (fifo d)) # cs" and
    run: "fifo_run (fifo d1) (map (packet_hash sha) ps) = (cs, q)" by (auto simp: d1(3) Let_def split: prod.splits)
  from Cons.IH [OF d1(1) run] hs d1(2) c show ?case by (auto simp: bs)
qed simp

lemma seen_run_append:
  "seen_run sha d (ps @ qs) = do {
     (bs, d) \<leftarrow> seen_run sha d ps;
     (cs, d) \<leftarrow> seen_run sha d qs;
     Some (bs @ cs, d)
   }"
proof (induction ps arbitrary: d)
  case Nil
  show ?case by (cases "seen_run sha d qs") auto
next
  case (Cons p ps)
  show ?case
    by (cases "has_seen sha d p") (auto simp: Cons.IH case_prod_beta bind_eq_Some_conv split: bind_splits)
qed

lemma length_new_hashes: "length (new_hashes sha ps bs) \<le> length ps"
  by (induction sha ps bs rule: new_hashes.induct) auto

lemma PacketDedup_new_ok: "0 < N \<Longrightarrow> ring_ok (PacketDedup_new N)"
  by (simp add: ring_ok_def PacketDedup_new_def nonzero_def)

lemma has_seen_iff:
  assumes "ring_ok d"
  shows "(\<exists>d'. has_seen sha d p = Some (b, d')) \<longleftrightarrow> b = (packet_hash sha p \<in> set (fifo d))"
  using assms by (cases rule: has_seen_cases [where p = p and sha = sha]) auto

lemma has_seen_keeps:
  assumes "ring_ok d" "has_seen sha d p = Some (b, d')"
  shows "ring_ok d' \<and> length (hashes d') = length (hashes d) \<and> set (fifo d') \<subseteq> insert (packet_hash sha p) (set (fifo d))"
  using assms(1)
proof (cases rule: has_seen_cases [where p = p and sha = sha])
  case (2 d2)
  have "set (tl (fifo d)) \<subseteq> set (fifo d)" by (cases "fifo d") auto
  with 2 assms(2) show ?thesis by (auto simp: fifo_push_def)
qed (use assms(2) in auto)

lemma clear_first_split:
  "h \<in> set hs \<Longrightarrow> \<exists>us vs. hs = us @ h # vs \<and> h \<notin> set us \<and> clear_first h hs = us @ ZERO_HASH # vs"
proof (induction hs)
  case (Cons a hs)
  show ?case
  proof (cases "a = h")
    case True
    then show ?thesis by (intro exI [of _ "[]"] exI [of _ hs]) auto
  next
    case False
    with Cons obtain us vs where "hs = us @ h # vs" "h \<notin> set us" "clear_first h hs = us @ ZERO_HASH # vs"
      by auto
    with False show ?thesis by (intro exI [of _ "a # us"] exI [of _ vs]) auto
  qed
qed simp

lemma clear_first_absent: "h \<notin> set hs \<Longrightarrow> clear_first h hs = hs"
  by (induction hs) auto

lemma length_clear_first [simp]: "length (clear_first h hs) = length hs"
  by (induction hs) auto

lemma clear_first_nonzero:
  assumes "distinct (nonzero hs)" "h \<noteq> ZERO_HASH"
  shows "nonzero (clear_first h hs) = removeAll h (nonzero hs)"
proof (cases "h \<in> set hs")
  case True
  then obtain us vs where "hs = us @ h # vs" "h \<notin> set us" "clear_first h hs = us @ ZERO_HASH # vs"
    using clear_first_split by blast
  with assms show ?thesis by (auto simp: nonzero_def removeAll_id)
next
  case False
  then show ?thesis by (simp add: clear_first_absent nonzero_def removeAll_id)
qed


section \<open>Properties\<close>

text \<open>C28: Refinement to a FIFO of hashes: from a table that satisfies its invariant, a run of \<open>has_seen\<close> over any packets never panics and is a run of the FIFO
  \<open>fifo_run\<close> over their hashes. The verdicts are its verdicts, so a packet is reported as a duplicate exactly when its hash is among those remembered at that
  moment; the hashes remembered in the end, from the oldest to the newest, are its hashes; the invariant and the capacity are kept; and the two counters have grown by the
  direct and the other packets reported as duplicates, modulo \<open>2 ^ 32\<close>.\<close>

theorem dedup_refines_fifo:
  assumes "ring_ok d" "fifo_run (fifo d) (map (packet_hash sha256) ps) = (bs, q)"
  shows "\<exists>d'. seen_run sha256 d ps = Some (bs, d') \<and> fifo d' = q \<and> ring_ok d' \<and> length (hashes d') = length (hashes d) \<and>
    direct_dups d' = direct_dups d + of_nat (dups True ps bs) \<and> flood_dups d' = flood_dups d + of_nat (dups False ps bs)"
  using seen_run_refines [OF assms] .

text \<open>A toy digest for the witnesses: 32 bytes, never zero.\<close>

definition toy_sha :: "u8 list \<Rightarrow> u8 list" where
  "toy_sha xs = take 32 (1 # xs @ replicate 32 0)"

lemma toy_hash_nonzero [simp]: "packet_hash toy_sha p \<noteq> ZERO_HASH"
proof
  assume "packet_hash toy_sha p = ZERO_HASH"
  then have "hd (packet_hash toy_sha p) = hd ZERO_HASH" by simp
  then show False
    by (simp add: packet_hash_def toy_sha_def ZERO_HASH_def MAX_HASH_SIZE_def Let_def hd_replicate)
qed

theorem dedup_refines_fifo_witness:
  "\<exists>d'. seen_run toy_sha (PacketDedup_new 4) [sample_packet, sample_packet] = Some ([False, True], d') \<and>
    fifo d' = [ZERO_HASH, ZERO_HASH, ZERO_HASH, packet_hash toy_sha sample_packet]"
proof -
  have "fifo (PacketDedup_new 4) = [ZERO_HASH, ZERO_HASH, ZERO_HASH, ZERO_HASH]"
    by (simp add: PacketDedup_new_def fifo_def numeral_eq_Suc)
  then have "fifo_run (fifo (PacketDedup_new 4)) (map (packet_hash toy_sha) [sample_packet, sample_packet]) =
      ([False, True], [ZERO_HASH, ZERO_HASH, ZERO_HASH, packet_hash toy_sha sample_packet])"
    by (simp add: fifo_push_def)
  from dedup_refines_fifo [OF PacketDedup_new_ok this] show ?thesis by auto
qed

lemma seen_remembered:
  assumes "ring_ok d" "has_seen sha256 d p = Some (False, d1)" "length ps < length (hashes d)"
    "seen_run sha256 d1 ps = Some (bs, d2)"
  shows "\<exists>d3. has_seen sha256 d2 p = Some (True, d3)"
proof -
  let ?h = "packet_hash sha256 p"
  have q1: "fifo d1 = fifo_push (fifo d) ?h" and ok1: "ring_ok d1"
    and l1: "length (hashes d1) = length (hashes d)"
    using assms(2) by (auto intro: has_seen_cases [OF assms(1), of sha256 p])
  obtain ns where ns: "ns = new_hashes sha256 ps bs" and q2: "fifo d2 = foldl fifo_push (fifo d1) ns"
    and ok2: "ring_ok d2"
    using seen_run_fifo [OF ok1, of sha256 ps] assms(4) by auto
  have "length ns < length (fifo d1)"
    using length_new_hashes [of sha256 ps bs] assms(3) l1 by (simp add: ns)
  then have "fifo d2 = drop (length ns) (tl (fifo d)) @ [?h] @ ns"
    by (simp add: q2 fifo_pushes q1 fifo_push_def)
  then have "?h \<in> set (fifo d2)" by simp
  then show ?thesis using has_seen_iff [OF ok2, of sha256 p True] by simp
qed

text \<open>No early forgetting: a packet reported as new is reported as a duplicate after any run of fewer than \<open>N\<close>
  other calls, whatever their packets.\<close>

theorem dedup_remembers:
  assumes "ring_ok d" "has_seen sha256 d p = Some (False, d1)" "length ps < length (hashes d)"
    "seen_run sha256 d1 ps = Some (bs, d2)"
  shows "\<exists>d3. has_seen sha256 d2 p = Some (True, d3)"
  using seen_remembered [OF assms] .

theorem dedup_remembers_witness:
  "\<exists>d1 bs d2 d3. has_seen toy_sha (PacketDedup_new 4) sample_packet = Some (False, d1) \<and>
     seen_run toy_sha d1 [Packet_new, Packet_new\<lparr>payload := [7]\<rparr>] = Some (bs, d2) \<and>
     has_seen toy_sha d2 sample_packet = Some (True, d3)"
proof -
  have ok: "ring_ok (PacketDedup_new 4)" by (rule PacketDedup_new_ok) simp
  have "packet_hash toy_sha sample_packet \<notin> set (fifo (PacketDedup_new 4))"
    by (simp add: PacketDedup_new_def)
  then obtain d1 where d1: "has_seen toy_sha (PacketDedup_new 4) sample_packet = Some (False, d1)"
    using has_seen_iff [OF ok, of toy_sha sample_packet False] by auto
  then have "ring_ok d1" by (auto intro: has_seen_cases [OF ok, of toy_sha sample_packet])
  then obtain bs d2 where d2: "seen_run toy_sha d1 [Packet_new, Packet_new\<lparr>payload := [7]\<rparr>] = Some (bs, d2)"
    using seen_run_fifo by blast
  from dedup_remembers [OF ok d1 _ d2] d1 d2 show ?thesis by (simp add: PacketDedup_new_def)
qed

text \<open>C29: The first packet: on an empty table a packet is reported as new exactly when its hash is not the zero hash
  that marks a free slot, and for every \<open>N > 0\<close> it does not panic.\<close>

theorem dedup_first_packet:
  assumes "0 < N"
  shows "\<exists>d'. has_seen sha256 (PacketDedup_new N) p = Some (packet_hash sha256 p = ZERO_HASH, d')"
  using has_seen_iff [OF PacketDedup_new_ok [OF assms], of sha256 p "packet_hash sha256 p = ZERO_HASH"] assms
  by (simp add: PacketDedup_new_def)

theorem dedup_first_packet_witness:
  "\<exists>d'. has_seen (\<lambda>_. replicate 32 0) (PacketDedup_new 1) Packet_new = Some (True, d')"
  using dedup_first_packet [of 1 "\<lambda>_. replicate 32 0" Packet_new]
  by (simp add: packet_hash_def ZERO_HASH_def MAX_HASH_SIZE_def)

text \<open>\<open>clear_entry\<close> removes what it should and nothing else: afterwards the packet is new again (its hash being
  nonzero), every other nonzero hash is still remembered, and the invariant holds.\<close>

theorem clear_entry_forgets:
  assumes "ring_ok d" "packet_hash sha256 p \<noteq> ZERO_HASH"
  shows "ring_ok (clear_entry sha256 d p) \<and>
    (\<exists>d'. has_seen sha256 (clear_entry sha256 d p) p = Some (False, d')) \<and>
    set (nonzero (hashes (clear_entry sha256 d p))) = set (nonzero (hashes d)) - {packet_hash sha256 p}"
proof -
  let ?h = "packet_hash sha256 p" and ?d = "clear_entry sha256 d p"
  have hs: "nonzero (hashes ?d) = removeAll ?h (nonzero (hashes d))"
    using assms by (simp add: clear_entry_def ring_ok_def clear_first_nonzero)
  then have ok: "ring_ok ?d"
    using assms(1) by (simp add: ring_ok_def clear_entry_def distinct_removeAll)
  have "?h \<notin> set (nonzero (hashes ?d))" by (simp add: hs)
  then have "?h \<notin> set (fifo ?d)" using assms(2) by (simp add: nonzero_def)
  then show ?thesis using ok hs has_seen_iff [OF ok, of sha256 p False] by auto
qed

theorem clear_entry_forgets_witness:
  "ring_ok (clear_entry toy_sha (PacketDedup_new 4) sample_packet)"
  using clear_entry_forgets [OF PacketDedup_new_ok, of 4 toy_sha sample_packet] by simp

text \<open>What makes two packets duplicates: the payload type and the payload, and for TRACE packets the path length
  byte. Header version, route, transport codes, path and SNR do not matter.\<close>

theorem packet_hash_ignores_route:
  assumes "drop_bit 2 (header p) AND 0x0F = drop_bit 2 (header r) AND 0x0F" "payload p = payload r"
    "drop_bit 2 (header p) AND 0x0F = PayloadType_as_u8 Trace \<Longrightarrow> path_len p = path_len r"
  shows "packet_hash sha256 p = packet_hash sha256 r"
  using assms by (simp add: packet_hash_def Let_def)

theorem packet_hash_ignores_route_witness:
  "packet_hash toy_sha (Packet_new\<lparr>header := 0x15, path_len := 2, path := [1, 2]\<rparr>) =
   packet_hash toy_sha (Packet_new\<lparr>header := 0x16, path_len := 3, path := [3, 4, 5]\<rparr>)"
  by (rule packet_hash_ignores_route) simp_all

end
