(* ===== verification/Crypto.thy ===== *)
theory Crypto
  imports Constants
begin

text \<open>
  \<open>crates/meshcore-core/src/crypto.rs\<close>: AES-128 in ECB mode with zero padding, the truncated
  HMAC, encrypt-then-MAC and the Ed25519-to-X25519 key exchange. The primitives (crates \<open>aes\<close>,
  \<open>hmac\<close>, \<open>sha2\<close>, \<open>curve25519_dalek\<close>, \<open>x25519_dalek\<close>) are third-party code, hence a parameter; the block loops,
  the padding, the buffer layout and every panic are the code's.
\<close>

section \<open>The primitives\<close>

record crypto =
  aes128_encrypt_block :: "u8 list \<Rightarrow> u8 list \<Rightarrow> u8 list"
  aes128_decrypt_block :: "u8 list \<Rightarrow> u8 list \<Rightarrow> u8 list"
  hmac_sha256 :: "u8 list \<Rightarrow> u8 list \<Rightarrow> u8 list"
  sha256 :: "u8 list \<Rightarrow> u8 list"
  sha512 :: "u8 list \<Rightarrow> u8 list"
  edwards_decompress_to_montgomery :: "u8 list \<Rightarrow> u8 list option"
  x25519_diffie_hellman :: "u8 list \<Rightarrow> u8 list \<Rightarrow> u8 list"

text \<open>
  What the code relies on, all of it documented behaviour of the crates: AES-128 is a permutation of
  16-byte blocks with \<open>decrypt_block\<close> as its inverse, and the digests have their fixed sizes.
\<close>

definition crypto_ok :: "crypto \<Rightarrow> bool" where
  "crypto_ok c \<longleftrightarrow>
     (\<forall>k b. length k = 16 \<and> length b = 16 \<longrightarrow>
        length (aes128_encrypt_block c k b) = 16 \<and> length (aes128_decrypt_block c k b) = 16 \<and>
        aes128_decrypt_block c k (aes128_encrypt_block c k b) = b) \<and>
     (\<forall>k m. length (hmac_sha256 c k m) = 32) \<and>
     (\<forall>m. length (sha256 c m) = 32) \<and> (\<forall>m. length (sha512 c m) = 64)"

section \<open>AES-128 ECB\<close>

definition div_ceil :: "nat \<Rightarrow> nat \<Rightarrow> nat" where
  "div_ceil a b = (if a mod b = 0 then a div b else a div b + 1)"

text \<open>The \<open>for i in 0..num_blocks\<close> loops: \<open>n\<close> iterations are left, the next index is \<open>i\<close>.\<close>

fun aes_encrypt_loop :: "crypto \<Rightarrow> u8 list \<Rightarrow> u8 list \<Rightarrow> nat \<Rightarrow> nat \<Rightarrow> u8 list \<Rightarrow> u8 list option" where
  "aes_encrypt_loop c key src 0 i dest = Some dest"
| "aes_encrypt_loop c key src (Suc n) i dest = do {
     let src_start = i * CIPHER_BLOCK_SIZE;
     let copy_len = min CIPHER_BLOCK_SIZE (length src - src_start);
     s \<leftarrow> slice src src_start (src_start + copy_len);
     let block = s @ replicate (CIPHER_BLOCK_SIZE - copy_len) 0;
     let block = aes128_encrypt_block c key block;
     let dest_start = i * CIPHER_BLOCK_SIZE;
     dest \<leftarrow> copy_at dest dest_start (dest_start + CIPHER_BLOCK_SIZE) block;
     aes_encrypt_loop c key src n (i + 1) dest
   }"

definition aes_encrypt :: "crypto \<Rightarrow> u8 list \<Rightarrow> u8 list \<Rightarrow> u8 list \<Rightarrow> (nat \<times> u8 list) option" where
  "aes_encrypt c shared_secret dest src = do {
     key \<leftarrow> slice shared_secret 0 CIPHER_KEY_SIZE;
     let num_blocks = div_ceil (length src) CIPHER_BLOCK_SIZE;
     let out_len = num_blocks * CIPHER_BLOCK_SIZE;
     if length dest \<ge> out_len then do {
       dest \<leftarrow> aes_encrypt_loop c key src num_blocks 0 dest;
       Some (out_len, dest)
     } else None
   }"

fun aes_decrypt_loop :: "crypto \<Rightarrow> u8 list \<Rightarrow> u8 list \<Rightarrow> nat \<Rightarrow> nat \<Rightarrow> u8 list \<Rightarrow> u8 list option" where
  "aes_decrypt_loop c key src 0 i dest = Some dest"
| "aes_decrypt_loop c key src (Suc n) i dest = do {
     let start = i * CIPHER_BLOCK_SIZE;
     block \<leftarrow> slice src start (start + CIPHER_BLOCK_SIZE);
     let block = aes128_decrypt_block c key block;
     dest \<leftarrow> copy_at dest start (start + CIPHER_BLOCK_SIZE) block;
     aes_decrypt_loop c key src n (i + 1) dest
   }"

definition aes_decrypt :: "crypto \<Rightarrow> u8 list \<Rightarrow> u8 list \<Rightarrow> u8 list \<Rightarrow> (nat \<times> u8 list) option" where
  "aes_decrypt c shared_secret dest src = do {
     key \<leftarrow> slice shared_secret 0 CIPHER_KEY_SIZE;
     let num_blocks = length src div CIPHER_BLOCK_SIZE;
     let out_len = num_blocks * CIPHER_BLOCK_SIZE;
     if length dest \<ge> out_len then do {
       dest \<leftarrow> aes_decrypt_loop c key src num_blocks 0 dest;
       Some (out_len, dest)
     } else None
   }"

section \<open>MAC, encrypt-then-MAC, MAC-then-decrypt\<close>

definition compute_mac :: "crypto \<Rightarrow> u8 list \<Rightarrow> u8 list \<Rightarrow> u8 list" where
  "compute_mac c shared_secret data = take CIPHER_MAC_SIZE (hmac_sha256 c shared_secret data)"

definition encrypt_then_mac :: "crypto \<Rightarrow> u8 list \<Rightarrow> u8 list \<Rightarrow> u8 list \<Rightarrow> (nat \<times> u8 list) option" where
  "encrypt_then_mac c shared_secret dest src = do {
     tail \<leftarrow> slice dest CIPHER_MAC_SIZE (length dest);
     (encrypted_len, tail) \<leftarrow> aes_encrypt c shared_secret tail src;
     let dest = take CIPHER_MAC_SIZE dest @ tail;
     data \<leftarrow> slice dest CIPHER_MAC_SIZE (CIPHER_MAC_SIZE + encrypted_len);
     let mac = compute_mac c shared_secret data;
     dest \<leftarrow> copy_at dest 0 CIPHER_MAC_SIZE mac;
     Some (CIPHER_MAC_SIZE + encrypted_len, dest)
   }"

text \<open>The result is \<open>Option<usize>\<close> with the buffer; the outer option is the panic.\<close>

definition mac_then_decrypt :: "crypto \<Rightarrow> u8 list \<Rightarrow> u8 list \<Rightarrow> u8 list \<Rightarrow> (nat option \<times> u8 list) option" where
  "mac_then_decrypt c shared_secret dest src =
     (if length src < CIPHER_MAC_SIZE then Some (None, dest)
      else do {
        m0 \<leftarrow> idx src 0;
        m1 \<leftarrow> idx src 1;
        ciphertext \<leftarrow> slice src CIPHER_MAC_SIZE (length src);
        let computed_mac = compute_mac c shared_secret ciphertext;
        if [m0, m1] \<noteq> computed_mac then Some (None, dest)
        else do {
          (decrypted_len, dest) \<leftarrow> aes_decrypt c shared_secret dest ciphertext;
          Some (Some decrypted_len, dest)
        }
      })"

section \<open>Key exchange\<close>

definition ecdh_shared_secret :: "crypto \<Rightarrow> u8 list \<Rightarrow> u8 list \<Rightarrow> u8 list option" where
  "ecdh_shared_secret c local_seed remote_public = do {
     let hash = sha512 c local_seed;
     s \<leftarrow> slice hash 0 32;
     b0 \<leftarrow> idx s 0;
     s \<leftarrow> put s 0 (b0 AND 248);
     b31 \<leftarrow> idx s 31;
     s \<leftarrow> put s 31 (b31 AND 127);
     b31 \<leftarrow> idx s 31;
     s \<leftarrow> put s 31 (b31 OR 64);
     case edwards_decompress_to_montgomery c remote_public of
       None \<Rightarrow> Some (replicate PUB_KEY_SIZE 0)
     | Some montgomery \<Rightarrow> Some (x25519_diffie_hellman c s montgomery)
   }"

section \<open>Reference: ECB as a map over blocks\<close>

fun ecb :: "(u8 list \<Rightarrow> u8 list) \<Rightarrow> nat \<Rightarrow> u8 list \<Rightarrow> u8 list" where
  "ecb f 0 bs = []"
| "ecb f (Suc n) bs = f (take 16 bs) @ ecb f n (drop 16 bs)"

definition padded_len :: "nat \<Rightarrow> nat" where
  "padded_len n = 16 * div_ceil n 16"

definition zero_pad :: "u8 list \<Rightarrow> u8 list" where
  "zero_pad bs = bs @ replicate (padded_len (length bs) - length bs) 0"

definition ciphertext :: "crypto \<Rightarrow> u8 list \<Rightarrow> u8 list \<Rightarrow> u8 list" where
  "ciphertext c secret src =
     ecb (aes128_encrypt_block c (take 16 secret)) (div_ceil (length src) 16) (zero_pad src)"

definition sealed :: "crypto \<Rightarrow> u8 list \<Rightarrow> u8 list \<Rightarrow> u8 list" where
  "sealed c secret src = compute_mac c secret (ciphertext c secret src) @ ciphertext c secret src"

lemma div_ceil_bounds:
  assumes "0 < b"
  shows "a \<le> div_ceil a b * b" and "div_ceil a b * b < a + b"
proof -
  have e: "a div b * b + a mod b = a" and l: "a mod b < b" using assms by simp_all
  have "a \<le> div_ceil a b * b \<and> div_ceil a b * b < a + b"
  proof (cases "a mod b = 0")
    case True
    with e assms show ?thesis by (simp add: div_ceil_def)
  next
    case False
    then have "div_ceil a b * b = a div b * b + b" by (simp add: div_ceil_def)
    with e l False show ?thesis by linarith
  qed
  then show "a \<le> div_ceil a b * b" "div_ceil a b * b < a + b" by simp_all
qed

lemma div_ceil_le_iff:
  assumes "0 < b" shows "div_ceil a b \<le> k \<longleftrightarrow> a \<le> k * b"
proof
  assume "div_ceil a b \<le> k"
  then show "a \<le> k * b" using div_ceil_bounds(1) [OF assms, of a] by (meson le_trans mult_le_mono1)
next
  assume "a \<le> k * b"
  then have "div_ceil a b * b < (k + 1) * b" using div_ceil_bounds(2) [OF assms, of a] by simp
  then show "div_ceil a b \<le> k" using assms by (metis Suc_eq_plus1 less_Suc_eq_le mult_less_cancel2)
qed

lemma padded_len_ge: "n \<le> padded_len n"
  using div_ceil_bounds(1) [of 16 n] by (simp add: padded_len_def mult.commute)

lemma length_zero_pad [simp]: "length (zero_pad bs) = padded_len (length bs)"
  using padded_len_ge by (simp add: zero_pad_def)

lemma length_ecb:
  assumes "\<And>b. length b = 16 \<Longrightarrow> length (f b) = 16" "16 * n \<le> length bs"
  shows "length (ecb f n bs) = 16 * n"
  using assms(2) by (induction n arbitrary: bs) (simp_all add: assms(1))

lemma ecb_take: "16 * n \<le> m \<Longrightarrow> ecb f n (take m bs) = ecb f n bs"
  by (induction n arbitrary: bs m) (auto simp: min_def drop_take)

lemma ecb_append: "16 * n \<le> length bs \<Longrightarrow> ecb f n (bs @ cs) = ecb f n bs"
  by (induction n arbitrary: bs) auto

lemma ecb_inverse:
  assumes "\<And>b. length b = 16 \<Longrightarrow> length (f b) = 16 \<and> g (f b) = b" "16 * n \<le> length bs"
  shows "ecb g n (ecb f n bs) = take (16 * n) bs"
  using assms(2)
proof (induction n arbitrary: bs)
  case (Suc n)
  then have "length (take 16 bs) = 16" by simp
  with Suc assms(1) [of "take 16 bs"] show ?case by (simp add: take_add)
qed simp

lemma crypto_okD:
  assumes "crypto_ok c"
  shows "length k = 16 \<Longrightarrow> length b = 16 \<Longrightarrow> length (aes128_encrypt_block c k b) = 16"
    and "length k = 16 \<Longrightarrow> length b = 16 \<Longrightarrow> length (aes128_decrypt_block c k b) = 16"
    and "length k = 16 \<Longrightarrow> length b = 16 \<Longrightarrow> aes128_decrypt_block c k (aes128_encrypt_block c k b) = b"
    and "length (hmac_sha256 c k m) = 32" and "length (sha256 c m) = 32" and "length (sha512 c m) = 64"
  using assms by (auto simp: crypto_ok_def)

lemma pad_block:
  assumes "i * 16 < length src"
  shows "take 16 (drop (i * 16) (zero_pad src)) =
    take (min 16 (length src - i * 16)) (drop (i * 16) src) @
    replicate (16 - min 16 (length src - i * 16)) 0"
proof -
  have "(i + 1) * 16 \<le> padded_len (length src)"
    using assms div_ceil_le_iff [of 16 "length src" i] by (simp add: padded_len_def)
  then show ?thesis using assms by (simp add: zero_pad_def min_def) arith
qed

lemma copy_block:
  assumes "length xs = k" "16 \<le> length ys" "length e = 16"
  shows "copy_at (xs @ ys) k (k + 16) e = Some ((xs @ e) @ drop 16 ys)"
  using copy_at_append [of xs ys e] assms by simp

lemma aes_encrypt_loop_eq:
  assumes ok: "crypto_ok c" "length key = 16"
    and "i + n = div_ceil (length src) 16" "length xs = i * 16" "n * 16 \<le> length ys"
  shows "aes_encrypt_loop c key src n i (xs @ ys) =
    Some (xs @ ecb (aes128_encrypt_block c key) n (drop (i * 16) (zero_pad src)) @ drop (n * 16) ys)"
  using assms(3-)
proof (induction n arbitrary: i xs ys)
  case (Suc n)
  let ?m = "min 16 (length src - i * 16)"
  let ?b = "take 16 (drop (i * 16) (zero_pad src))"
  let ?e = "aes128_encrypt_block c key ?b"
  have lt: "i * 16 < length src"
    using Suc.prems(1) div_ceil_le_iff [of 16 "length src" i] by simp
  have "(i + 1) * 16 \<le> padded_len (length src)"
    using Suc.prems(1) by (simp add: padded_len_def)
  then have lb: "length ?b = 16" by simp
  then have le: "length ?e = 16" using ok by (simp add: crypto_okD)
  have sl: "slice src (i * 16) (i * 16 + ?m) = Some (take ?m (drop (i * 16) src))"
    using lt by (simp add: slice_def)
  have cp: "copy_at (xs @ ys) (i * 16) (i * 16 + 16) ?e = Some ((xs @ ?e) @ drop 16 ys)"
    by (rule copy_block [OF Suc.prems(2) _ le]) (use Suc.prems(3) in simp)
  have ih: "aes_encrypt_loop c key src n (i + 1) ((xs @ ?e) @ drop 16 ys) =
    Some ((xs @ ?e) @ ecb (aes128_encrypt_block c key) n (drop ((i + 1) * 16) (zero_pad src)) @ drop (n * 16) (drop 16 ys))"
  proof (rule Suc.IH)
    show "i + 1 + n = div_ceil (length src) 16" using Suc.prems(1) by simp
    show "length (xs @ ?e) = (i + 1) * 16" by (simp only: length_append le Suc.prems(2)) simp
    show "n * 16 \<le> length (drop 16 ys)" using Suc.prems(3) by simp
  qed
  have "aes_encrypt_loop c key src (Suc n) i (xs @ ys) =
      aes_encrypt_loop c key src n (i + 1) ((xs @ ?e) @ drop 16 ys)"
    by (simp only: aes_encrypt_loop.simps CIPHER_BLOCK_SIZE_def Let_def sl bind.bind_lunit pad_block [OF lt, symmetric] cp)
  then show ?case unfolding ih
    by (simp only: ecb.simps drop_drop append_assoc mult_Suc add_mult_distrib mult_1 add.commute [of 16])
qed simp

lemma aes_decrypt_loop_eq:
  assumes ok: "crypto_ok c" "length key = 16"
    and "(i + n) * 16 \<le> length src" "length xs = i * 16" "n * 16 \<le> length ys"
  shows "aes_decrypt_loop c key src n i (xs @ ys) =
    Some (xs @ ecb (aes128_decrypt_block c key) n (drop (i * 16) src) @ drop (n * 16) ys)"
  using assms(3-)
proof (induction n arbitrary: i xs ys)
  case (Suc n)
  let ?b = "take 16 (drop (i * 16) src)"
  let ?e = "aes128_decrypt_block c key ?b"
  have "length ?b = 16" using Suc.prems(1) by simp
  then have le: "length ?e = 16" using ok by (simp add: crypto_okD)
  have sl: "slice src (i * 16) (i * 16 + 16) = Some ?b"
    using Suc.prems(1) by (simp add: slice_def)
  have cp: "copy_at (xs @ ys) (i * 16) (i * 16 + 16) ?e = Some ((xs @ ?e) @ drop 16 ys)"
    by (rule copy_block [OF Suc.prems(2) _ le]) (use Suc.prems(3) in simp)
  have ih: "aes_decrypt_loop c key src n (i + 1) ((xs @ ?e) @ drop 16 ys) =
    Some ((xs @ ?e) @ ecb (aes128_decrypt_block c key) n (drop ((i + 1) * 16) src) @ drop (n * 16) (drop 16 ys))"
  proof (rule Suc.IH)
    show "(i + 1 + n) * 16 \<le> length src" using Suc.prems(1) by simp
    show "length (xs @ ?e) = (i + 1) * 16" by (simp only: length_append le Suc.prems(2)) simp
    show "n * 16 \<le> length (drop 16 ys)" using Suc.prems(3) by simp
  qed
  have "aes_decrypt_loop c key src (Suc n) i (xs @ ys) =
      aes_decrypt_loop c key src n (i + 1) ((xs @ ?e) @ drop 16 ys)"
    by (simp only: aes_decrypt_loop.simps CIPHER_BLOCK_SIZE_def Let_def sl bind.bind_lunit cp)
  then show ?case unfolding ih
    by (simp only: ecb.simps drop_drop append_assoc mult_Suc add_mult_distrib mult_1 add.commute [of 16])
qed simp

lemma aes_encrypt_eq:
  assumes "crypto_ok c" "16 \<le> length secret"
  shows "aes_encrypt c secret dest src =
    (if padded_len (length src) \<le> length dest
     then Some (padded_len (length src), ciphertext c secret src @ drop (padded_len (length src)) dest)
     else None)"
  using assms aes_encrypt_loop_eq [OF assms(1), of "take 16 secret" 0 "div_ceil (length src) 16" src "[]" dest]
  by (simp add: aes_encrypt_def slice_def size_constants padded_len_def ciphertext_def mult.commute Let_def)

lemma aes_decrypt_eq:
  assumes "crypto_ok c" "16 \<le> length secret"
  shows "aes_decrypt c secret dest src =
    (if length src div 16 * 16 \<le> length dest
     then Some (length src div 16 * 16,
       ecb (aes128_decrypt_block c (take 16 secret)) (length src div 16) src @ drop (length src div 16 * 16) dest)
     else None)"
  using assms aes_decrypt_loop_eq [OF assms(1), of "take 16 secret" 0 "length src div 16" src "[]" dest]
  by (simp add: aes_decrypt_def slice_def size_constants Let_def)

lemma length_ciphertext:
  assumes "crypto_ok c" "16 \<le> length secret"
  shows "length (ciphertext c secret src) = padded_len (length src)"
  unfolding ciphertext_def padded_len_def
  by (subst length_ecb) (use assms padded_len_ge [of "length src"] in \<open>auto simp: crypto_okD length_zero_pad padded_len_def\<close>)

lemma length_compute_mac:
  "crypto_ok c \<Longrightarrow> length (compute_mac c secret m) = 2"
  by (simp add: compute_mac_def crypto_okD size_constants)

lemma encrypt_then_mac_eq:
  assumes "crypto_ok c" "16 \<le> length secret"
  shows "encrypt_then_mac c secret dest src =
    (if 2 + padded_len (length src) \<le> length dest
     then Some (2 + padded_len (length src), sealed c secret src @ drop (2 + padded_len (length src)) dest)
     else None)"
proof (cases dest rule: remdups_adj.cases)
  case (3 a b rest)
  then show ?thesis
    using aes_encrypt_eq [OF assms, of rest src] length_compute_mac [OF assms(1)] length_ciphertext [OF assms, of src]
    by (auto simp: encrypt_then_mac_def slice_def size_constants copy_at_def sealed_def Let_def)
qed (auto simp: encrypt_then_mac_def slice_def size_constants)

lemma mac_then_decrypt_eq:
  assumes "crypto_ok c" "16 \<le> length secret"
  shows "mac_then_decrypt c secret dest src =
    (let n = (length src - 2) div 16 in
     if length src < 2 \<or> take 2 src \<noteq> compute_mac c secret (drop 2 src) then Some (None, dest)
     else if n * 16 \<le> length dest
     then Some (Some (n * 16),
       ecb (aes128_decrypt_block c (take 16 secret)) n (drop 2 src) @ drop (n * 16) dest)
     else None)"
proof (cases src rule: remdups_adj.cases)
  case (3 a b rest)
  then show ?thesis using aes_decrypt_eq [OF assms, of dest rest]
    by (auto simp: mac_then_decrypt_def slice_def size_constants Let_def)
qed (auto simp: mac_then_decrypt_def size_constants Let_def)

lemma decrypt_ciphertext:
  assumes "crypto_ok c" "16 \<le> length secret"
  shows "ecb (aes128_decrypt_block c (take 16 secret)) (div_ceil (length src) 16) (ciphertext c secret src) = zero_pad src"
proof -
  have "ecb (aes128_decrypt_block c (take 16 secret)) (div_ceil (length src) 16) (ciphertext c secret src) =
      take (16 * div_ceil (length src) 16) (zero_pad src)"
    unfolding ciphertext_def
    by (rule ecb_inverse) (use assms in \<open>auto simp: crypto_okD padded_len_def\<close>)
  also have "\<dots> = zero_pad src" by (simp add: padded_len_def)
  finally show ?thesis .
qed

text \<open>The clamping of RFC 7748, as the Ed25519 key expansion applies it.\<close>

definition clamp :: "u8 list \<Rightarrow> u8 list" where
  "clamp s = (s[0 := s ! 0 AND 248])[31 := s ! 31 AND 127 OR 64]"

lemma ecdh_eq:
  assumes "crypto_ok c"
  shows "ecdh_shared_secret c seed pub = Some (case edwards_decompress_to_montgomery c pub of
    None \<Rightarrow> replicate 32 0
  | Some m \<Rightarrow> x25519_diffie_hellman c (clamp (take 32 (sha512 c seed))) m)"
proof -
  have l: "length (sha512 c seed) = 64" by (rule crypto_okD(6) [OF assms])
  then have "sha512 c seed \<noteq> []" by auto
  with l show ?thesis
  by (simp add: ecdh_shared_secret_def slice_def put_def idx_def size_constants clamp_def Let_def split: option.split)
qed

section \<open>A concrete instance, for the witnesses\<close>

definition toy_crypto :: crypto where
  "toy_crypto = \<lparr>
     aes128_encrypt_block = (\<lambda>k b. map2 (XOR) b k),
     aes128_decrypt_block = (\<lambda>k b. map2 (XOR) b k),
     hmac_sha256 = (\<lambda>k m. take 32 (rev m @ k @ replicate 32 0)),
     sha256 = (\<lambda>m. take 32 (m @ replicate 32 0)),
     sha512 = (\<lambda>m. take 64 (m @ replicate 64 255)),
     edwards_decompress_to_montgomery = (\<lambda>p. if length p = 32 then Some p else None),
     x25519_diffie_hellman = (\<lambda>s m. map2 (+) s m)\<rparr>"

lemma map2_xor_cancel: "length b = length k \<Longrightarrow> map2 (XOR) (map2 (XOR) b k) k = (b :: u8 list)"
  by (induction b k rule: list_induct2) (simp_all add: xor.assoc)

lemma toy_crypto_ok: "crypto_ok toy_crypto"
  by (simp add: crypto_ok_def toy_crypto_def map2_xor_cancel min_def)

section \<open>Properties\<close>

text \<open>
  encrypt-then-MAC on every branch: it panics exactly when the buffer has no room for the
  2-byte MAC and the padded ciphertext, and otherwise writes MAC and ciphertext at the front of
  the buffer, leaves the rest untouched and returns their length.
\<close>
theorem encrypt_then_mac_spec:
  assumes "crypto_ok c" "16 \<le> length secret"
  shows "encrypt_then_mac c secret dest src =
    (if 2 + padded_len (length src) \<le> length dest
     then Some (2 + padded_len (length src),
       compute_mac c secret (ciphertext c secret src) @ ciphertext c secret src @
       drop (2 + padded_len (length src)) dest)
     else None)"
  using encrypt_then_mac_eq [OF assms] by (simp add: sealed_def)

lemma encrypt_then_mac_spec_witness:
  "encrypt_then_mac toy_crypto (replicate 32 1) (replicate 20 9) [7, 8] =
    Some (18, compute_mac toy_crypto (replicate 32 1) (ciphertext toy_crypto (replicate 32 1) [7, 8]) @
      ciphertext toy_crypto (replicate 32 1) [7, 8] @ [9, 9]) \<and>
   encrypt_then_mac toy_crypto (replicate 32 1) (replicate 17 9) [7, 8] = None"
  using encrypt_then_mac_spec [OF toy_crypto_ok, of "replicate 32 1"]
  by (simp add: padded_len_def div_ceil_def numeral_2_eq_2)

text \<open>
  C26: What encrypt-then-MAC sealed under a secret, MAC-then-decrypt opens under the same secret: it returns
  the padded length and the plaintext followed by the zero padding, at the front of the buffer.
\<close>
theorem mac_then_decrypt_opens_sealed:
  assumes "crypto_ok c" "16 \<le> length secret"
    and "encrypt_then_mac c secret dest src = Some (n, dest')"
    and "n - 2 \<le> length out"
  shows "mac_then_decrypt c secret out (take n dest') = Some (Some (n - 2), zero_pad src @ drop (n - 2) out)"
proof -
  have n: "n = 2 + padded_len (length src)"
    and d: "dest' = sealed c secret src @ drop n dest"
    using assms(3) unfolding encrypt_then_mac_eq [OF assms(1,2)] by (auto split: if_splits)
  have ls: "length (sealed c secret src) = n"
    using assms(1,2) by (simp add: sealed_def length_compute_mac length_ciphertext n)
  then have t: "take n dest' = sealed c secret src" by (simp add: d)
  have k: "padded_len (length src) div 16 = div_ceil (length src) 16" by (simp add: padded_len_def)
  show ?thesis
    using assms(4) decrypt_ciphertext [OF assms(1,2), of src]
    unfolding t mac_then_decrypt_eq [OF assms(1,2)] ls
    by (simp add: sealed_def length_compute_mac [OF assms(1)] n k Let_def) (simp add: padded_len_def mult.commute)
qed

lemma mac_then_decrypt_opens_sealed_witness:
  "\<exists>n dest'. encrypt_then_mac toy_crypto (replicate 32 1) (replicate 18 9) [7, 8] = Some (n, dest') \<and>
    mac_then_decrypt toy_crypto (replicate 32 1) (replicate 16 5) (take n dest') =
      Some (Some 16, [7, 8] @ replicate 14 0)"
proof -
  have e: "encrypt_then_mac toy_crypto (replicate 32 1) (replicate 18 9) [7, 8] =
      Some (18, sealed toy_crypto (replicate 32 1) [7, 8])"
    using encrypt_then_mac_eq [OF toy_crypto_ok, of "replicate 32 1" "replicate 18 9" "[7, 8]"]
    by (simp add: padded_len_def div_ceil_def)
  show ?thesis
    using e mac_then_decrypt_opens_sealed [OF toy_crypto_ok _ e, of "replicate 16 5"]
    by (simp add: zero_pad_def padded_len_def div_ceil_def)
qed

text \<open>
  C27: MAC-then-decrypt never touches the output buffer and returns nothing unless the first two bytes
  are the MAC of the rest; in particular no altered MAC is accepted.
\<close>
theorem mac_then_decrypt_authenticates:
  assumes "crypto_ok c" "16 \<le> length secret"
    and "length src < 2 \<or> take 2 src \<noteq> compute_mac c secret (drop 2 src)"
  shows "mac_then_decrypt c secret out src = Some (None, out)"
  using assms(3) unfolding mac_then_decrypt_eq [OF assms(1,2)] by simp

lemma mac_then_decrypt_authenticates_witness:
  "mac_then_decrypt toy_crypto (replicate 32 1) [5] [1, 2, 3] = Some (None, [5])"
  by (rule mac_then_decrypt_authenticates [OF toy_crypto_ok]) (simp_all add: compute_mac_def toy_crypto_def size_constants)

text \<open>
  The key exchange never panics: an invalid remote point gives the all-zero secret, a valid one the
  Diffie-Hellman of the clamped first half of the SHA-512 of the seed, whose clamped bytes have the
  low three bits and the top bit clear and the second highest bit set.
\<close>
theorem ecdh_clamps:
  assumes "crypto_ok c"
  shows "\<exists>s. ecdh_shared_secret c seed pub = Some (case edwards_decompress_to_montgomery c pub of
      None \<Rightarrow> replicate 32 0 | Some m \<Rightarrow> x25519_diffie_hellman c s m) \<and>
    length s = 32 \<and> s ! 0 AND 7 = 0 \<and> s ! 31 AND 192 = 64 \<and>
    (\<forall>i < 31. 0 < i \<longrightarrow> s ! i = sha512 c seed ! i)"
proof (intro exI conjI)
  let ?s = "clamp (take 32 (sha512 c seed))"
  show "ecdh_shared_secret c seed pub = Some (case edwards_decompress_to_montgomery c pub of
      None \<Rightarrow> replicate 32 0 | Some m \<Rightarrow> x25519_diffie_hellman c ?s m)"
    by (rule ecdh_eq [OF assms])
  have l: "length (sha512 c seed) = 64" by (rule crypto_okD(6) [OF assms])
  show "length ?s = 32" by (simp add: clamp_def l)
  have a: "(x AND 248) AND 7 = 0" for x :: u8 by (simp add: and.assoc)
  show "?s ! 0 AND 7 = 0" using l by (simp add: clamp_def a)
  have b: "(x AND 127 OR 64) AND 192 = 64" for x :: u8
    by (simp add: bit.conj_disj_distrib2 bit.conj_disj_distrib and.assoc)
  show "?s ! 31 AND 192 = 64" using l by (simp add: clamp_def b)
  show "\<forall>i < 31. 0 < i \<longrightarrow> ?s ! i = sha512 c seed ! i" using l by (simp add: clamp_def)
qed

lemma ecdh_clamps_witness:
  "\<exists>s. ecdh_shared_secret toy_crypto (replicate 32 255) [1] = Some (replicate 32 0) \<and> length s = 32 \<and> s ! 0 AND (7 :: u8) = 0"
  using ecdh_clamps [OF toy_crypto_ok, of "replicate 32 255" "[1]"] by (auto simp: toy_crypto_def)

end
