(* ===== verification/Utf8.thy ===== *)
theory Utf8
  imports Prelude
begin

text \<open>
  The part of \<open>core::str\<close> the source relies on. A \<open>&str\<close> is its byte list; \<open>utf8_valid\<close> is the
  check of \<open>core::str::from_utf8\<close> (the well-formed byte sequences of the Unicode standard), with the encoder of
  scalar values as its reference; \<open>str_find\<close> searches a byte pattern (on UTF-8 the same as searching characters).
\<close>

section \<open>Validity\<close>

definition cont :: "u8 \<Rightarrow> bool" where
  "cont b \<longleftrightarrow> 0x80 \<le> b \<and> b \<le> 0xBF"

fun utf8_valid :: "u8 list \<Rightarrow> bool" where
  "utf8_valid [] = True"
| "utf8_valid (a # bs) =
     (if a < 0x80 then utf8_valid bs
      else if 0xC2 \<le> a \<and> a \<le> 0xDF then
        (case bs of b # bs \<Rightarrow> cont b \<and> utf8_valid bs | _ \<Rightarrow> False)
      else if 0xE0 \<le> a \<and> a \<le> 0xEF then
        (case bs of b # c # bs \<Rightarrow>
           (if a = 0xE0 then 0xA0 \<le> b \<and> b \<le> 0xBF else if a = 0xED then 0x80 \<le> b \<and> b \<le> 0x9F else cont b) \<and>
           cont c \<and> utf8_valid bs
         | _ \<Rightarrow> False)
      else if 0xF0 \<le> a \<and> a \<le> 0xF4 then
        (case bs of b # c # d # bs \<Rightarrow>
           (if a = 0xF0 then 0x90 \<le> b \<and> b \<le> 0xBF else if a = 0xF4 then 0x80 \<le> b \<and> b \<le> 0x8F else cont b) \<and>
           cont c \<and> cont d \<and> utf8_valid bs
         | _ \<Rightarrow> False)
      else False)"

declare utf8_valid.simps [simp del]

lemma utf8_valid_Nil [simp]: "utf8_valid []"
  by (simp add: utf8_valid.simps)

lemma utf8_valid_ascii: "list_all (\<lambda>b. b < 0x80) bs \<Longrightarrow> utf8_valid bs"
  by (induction bs) (simp_all add: utf8_valid.simps)

lemma utf8_valid_append: "utf8_valid xs \<Longrightarrow> utf8_valid ys \<Longrightarrow> utf8_valid (xs @ ys)"
proof (induction xs rule: utf8_valid.induct)
  case (2 a bs)
  then show ?case
    unfolding append_Cons utf8_valid.simps(2) [of a]
    by (auto split: if_splits list.splits)
qed simp

section \<open>Searching and trimming\<close>

fun starts_with :: "u8 list \<Rightarrow> u8 list \<Rightarrow> bool" where
  "starts_with s [] = True"
| "starts_with [] (_ # _) = False"
| "starts_with (a # s) (b # p) = (a = b \<and> starts_with s p)"

fun str_find :: "u8 list \<Rightarrow> u8 list \<Rightarrow> nat option" where
  "str_find p [] = (if p = [] then Some 0 else None)"
| "str_find p (a # s) = (if starts_with (a # s) p then Some 0 else map_option Suc (str_find p s))"

lemma starts_with_iff: "starts_with s p \<longleftrightarrow> (\<exists>t. s = p @ t)"
  by (induction s p rule: starts_with.induct) auto

lemma str_find_Some: "str_find p s = Some i \<Longrightarrow> \<exists>t. s = take i s @ p @ t \<and> i + length p \<le> length s"
proof (induction s arbitrary: i)
  case (Cons a s)
  show ?case
  proof (cases "starts_with (a # s) p")
    case True
    then obtain t where t: "a # s = p @ t" by (auto simp: starts_with_iff)
    then have "length p \<le> length (a # s)" by simp
    moreover have "i = 0" using True Cons.prems by simp
    ultimately show ?thesis using t by auto
  next
    case False
    with Cons.prems obtain j where "str_find p s = Some j" "i = Suc j" by auto
    with Cons.IH [of j] show ?thesis by auto
  qed
qed (simp split: if_splits)

lemma str_find_first:
  assumes "str_find p s = Some i" "j < i"
  shows "\<not> starts_with (drop j s) p"
  using assms
proof (induction s arbitrary: i j)
  case (Cons a s)
  then show ?case by (cases j) (auto split: if_splits)
qed (simp split: if_splits)

text \<open>
  \<open>trim_start\<close>: drop leading characters of the Unicode property White_Space. \<open>space_len s\<close> is
  the number of bytes of the white space character \<open>s\<close> starts with, 0 where it starts with another one.
\<close>

definition space_len :: "u8 list \<Rightarrow> nat" where
  "space_len s =
     (if s = [] then 0
      else if 9 \<le> hd s \<and> hd s \<le> 13 \<or> hd s = 32 then 1
      else if take 2 s \<in> {[0xC2, 0x85], [0xC2, 0xA0]} then 2
      else if take 3 s \<in> {[0xE1, 0x9A, 0x80], [0xE2, 0x80, 0xA8], [0xE2, 0x80, 0xA9], [0xE2, 0x80, 0xAF],
                [0xE2, 0x81, 0x9F], [0xE3, 0x80, 0x80]} then 3
      else if 3 \<le> length s \<and> take 2 s = [0xE2, 0x80] \<and> 0x80 \<le> s ! 2 \<and> s ! 2 \<le> 0x8A then 3
      else 0)"

function trim_start :: "u8 list \<Rightarrow> u8 list" where
  "trim_start s = (if space_len s = 0 then s else trim_start (drop (space_len s) s))"
  by pat_completeness auto
termination
  by (relation "measure length") (auto simp: space_len_def split: if_splits)

declare trim_start.simps [simp del]

lemma trim_start_no_space: "space_len s = 0 \<Longrightarrow> trim_start s = s"
  by (simp add: trim_start.simps)

lemma trim_start_suffix: "\<exists>k. trim_start s = drop k s \<and> space_len (drop k s) = 0"
proof (induction s rule: trim_start.induct)
  case (1 s)
  show ?case
  proof (cases "space_len s = 0")
    case True
    then show ?thesis by (intro exI [of _ 0]) (simp add: trim_start.simps)
  next
    case False
    from 1 [OF this] show ?thesis
      using False by (auto simp: trim_start.simps [of s])
  qed
qed

end
