(* ===== verification/Grp_Txt.thy ===== *)
theory Grp_Txt
  imports Packet Crypto Utf8
begin

text \<open>
  \<open>crates/meshcore-core/src/grp_txt.rs\<close>: the group text payload, an encrypt-then-MAC sealed
  \<open>[timestamp, tx_type, message]\<close> behind a channel hash byte. Functions return \<^const>\<open>None\<close> for a panic and
  the code's own \<open>Option\<close> inside.
\<close>

section \<open>Code\<close>

definition MIN_GRP_TXT_PAYLOAD :: nat where "MIN_GRP_TXT_PAYLOAD = 1 + CIPHER_MAC_SIZE + 16"
definition PLAINTEXT_HEADER :: nat where "PLAINTEXT_HEADER = 5"

record DecodedGrpTxt =
  timestamp :: u32
  tx_type :: u8
  message :: "u8 list"

fun rposition :: "('a \<Rightarrow> bool) \<Rightarrow> 'a list \<Rightarrow> nat option" where
  "rposition P [] = None"
| "rposition P (x # xs) =
     (case rposition P xs of Some i \<Rightarrow> Some (i + 1) | None \<Rightarrow> if P x then Some 0 else None)"

text \<open>The result with the scratch buffer, which \<open>mac_then_decrypt\<close> may have written.\<close>

definition decode_grp_txt ::
    "crypto \<Rightarrow> u8 list \<Rightarrow> u8 list \<Rightarrow> u8 list \<Rightarrow> (DecodedGrpTxt option \<times> u8 list) option" where
  "decode_grp_txt c secret pl scratch =
     (if length pl < MIN_GRP_TXT_PAYLOAD then Some (None, scratch)
      else do {
        mac_and_cipher \<leftarrow> slice pl 1 (length pl);
        (r, scratch) \<leftarrow> mac_then_decrypt c secret scratch mac_and_cipher;
        case r of
          None \<Rightarrow> Some (None, scratch)
        | Some decrypted_len \<Rightarrow>
            (if decrypted_len < PLAINTEXT_HEADER then Some (None, scratch)
             else do {
               s0 \<leftarrow> idx scratch 0;
               s1 \<leftarrow> idx scratch 1;
               s2 \<leftarrow> idx scratch 2;
               s3 \<leftarrow> idx scratch 3;
               let ts = u32_from_le_bytes s0 s1 s2 s3;
               ty \<leftarrow> idx scratch 4;
               msg_bytes \<leftarrow> slice scratch PLAINTEXT_HEADER decrypted_len;
               let msg_len = (case rposition (\<lambda>b. b \<noteq> 0) msg_bytes of None \<Rightarrow> 0 | Some i \<Rightarrow> i + 1);
               msg \<leftarrow> slice msg_bytes 0 msg_len;
               if utf8_valid msg
               then Some (Some \<lparr>timestamp = ts, tx_type = ty, message = msg\<rparr>, scratch)
               else Some (None, scratch)
             })
      })"

definition matches_channel :: "u8 list \<Rightarrow> u8 \<Rightarrow> bool" where
  "matches_channel pl channel_hash \<longleftrightarrow> (case pl of [] \<Rightarrow> None | b # _ \<Rightarrow> Some b) = Some channel_hash"

definition encode_grp_txt ::
    "u8 heapless \<Rightarrow> crypto \<Rightarrow> u8 list \<Rightarrow> u8 \<Rightarrow> u32 \<Rightarrow> u8 list \<Rightarrow> Packet option option" where
  "encode_grp_txt hv c secret channel_hash ts msg =
     (let plaintext_len = PLAINTEXT_HEADER + length msg in
      if plaintext_len > MAX_PACKET_PAYLOAD then Some None
      else do {
        let plaintext = replicate MAX_PACKET_PAYLOAD 0;
        plaintext \<leftarrow> copy_at plaintext 0 4 (u32_to_le_bytes ts);
        plaintext \<leftarrow> put plaintext 4 0x00;
        plaintext \<leftarrow> copy_at plaintext 5 (5 + length msg) msg;
        let encrypted = replicate MAX_PACKET_PAYLOAD 0;
        src \<leftarrow> slice plaintext 0 plaintext_len;
        (enc_len, encrypted) \<leftarrow> encrypt_then_mac c secret encrypted src;
        let payload_len = 1 + enc_len;
        if payload_len > MAX_PACKET_PAYLOAD then Some None
        else do {
          let header_byte = PacketHeader_into_u8
            \<lparr>hdr_route_type = Flood, hdr_payload_type = GrpTxt, hdr_version = V1\<rparr>;
          let pkt = Packet_new\<lparr>header := header_byte\<rparr>;
          let pkt = set_path_hash_size_and_count pkt 1 0;
          case hv_push hv MAX_PACKET_PAYLOAD (payload pkt) channel_hash of
            Inl _ \<Rightarrow> Some None
          | Inr pl \<Rightarrow> do {
              data \<leftarrow> slice encrypted 0 enc_len;
              case hv_extend_from_slice hv MAX_PACKET_PAYLOAD pl data of
                Inl _ \<Rightarrow> Some None
              | Inr pl \<Rightarrow> Some (Some (pkt\<lparr>payload := pl\<rparr>))
            }
        }
      })"

section \<open>Characterisation\<close>

definition grp_plaintext :: "u32 \<Rightarrow> u8 list \<Rightarrow> u8 list" where
  "grp_plaintext ts msg = u32_to_le_bytes ts @ 0 # msg"

definition grp_packet :: "crypto \<Rightarrow> u8 list \<Rightarrow> u8 \<Rightarrow> u32 \<Rightarrow> u8 list \<Rightarrow> Packet" where
  "grp_packet c secret h ts msg =
     Packet_new\<lparr>header := 0x15, payload := h # sealed c secret (grp_plaintext ts msg)\<rparr>"

lemma grp_header: "PacketHeader_into_u8 \<lparr>hdr_route_type = Flood, hdr_payload_type = GrpTxt, hdr_version = V1\<rparr> = 0x15"
  by (simp add: PacketHeader_into_u8_def PH_TYPE_SHIFT_def PH_VER_SHIFT_def)

lemma grp_path_len: "set_path_hash_size_and_count p 1 0 = p\<lparr>path_len := 0\<rparr>"
  by (simp add: set_path_hash_size_and_count_def PATH_HASH_COUNT_MASK_def PATH_HASH_SIZE_SHIFT_def saturating_sub_def Let_def)

lemma padded_len_le_iff: "padded_len n \<le> 16 * k + 15 \<longleftrightarrow> n \<le> 16 * k"
  using div_ceil_le_iff [of 16 n k] by (auto simp: padded_len_def mult.commute)

lemma length_sealed:
  assumes "crypto_ok c" "16 \<le> length secret"
  shows "length (sealed c secret src) = 2 + padded_len (length src)"
  using assms by (simp add: sealed_def length_compute_mac length_ciphertext)

lemma encode_plaintext_buffer:
  assumes "5 + length msg \<le> 184"
  shows "copy_at (replicate 184 0) 0 4 (u32_to_le_bytes ts) = Some (u32_to_le_bytes ts @ replicate 180 0)"
    and "put (u32_to_le_bytes ts @ replicate 180 0) 4 0 = Some (u32_to_le_bytes ts @ 0 # replicate 179 0)"
    and "copy_at (u32_to_le_bytes ts @ 0 # replicate 179 0) 5 (5 + length msg) msg =
      Some (grp_plaintext ts msg @ replicate (179 - length msg) 0)"
    and "slice (grp_plaintext ts msg @ replicate (179 - length msg) 0) 0 (5 + length msg) = Some (grp_plaintext ts msg)"
proof -
  have r: "replicate 180 (0 :: u8) = 0 # replicate 179 0"
    using replicate_Suc [of 179 "0 :: u8"] by simp
  show "copy_at (replicate 184 0) 0 4 (u32_to_le_bytes ts) = Some (u32_to_le_bytes ts @ replicate 180 0)"
    by (simp add: copy_at_def)
  show "put (u32_to_le_bytes ts @ replicate 180 0) 4 0 = Some (u32_to_le_bytes ts @ 0 # replicate 179 0)"
    by (simp add: put_def list_update_append r)
  show "copy_at (u32_to_le_bytes ts @ 0 # replicate 179 0) 5 (5 + length msg) msg =
      Some (grp_plaintext ts msg @ replicate (179 - length msg) 0)"
    using assms copy_at_append [of "u32_to_le_bytes ts @ [0]" "replicate 179 0" msg]
    by (simp add: grp_plaintext_def)
  show "slice (grp_plaintext ts msg @ replicate (179 - length msg) 0) 0 (5 + length msg) = Some (grp_plaintext ts msg)"
    by (simp add: slice_def grp_plaintext_def)
qed

lemma encode_grp_txt_eq:
  assumes hv: "heapless_ok hv" and c: "crypto_ok c" and s: "length secret = 32"
  shows "encode_grp_txt hv c secret h ts msg =
    (if length msg \<le> 171 then Some (Some (grp_packet c secret h ts msg))
     else if length msg < 180 then None else Some None)"
proof (cases "length msg < 180")
  case True
  let ?pt = "grp_plaintext ts msg"
  have lp: "length ?pt = 5 + length msg" by (simp add: grp_plaintext_def)
  have pl: "2 + padded_len (5 + length msg) \<le> 184 \<longleftrightarrow> length msg \<le> 171"
    using padded_len_le_iff [of "5 + length msg" 11] unfolding padded_len_def by (auto; arith)
  have e: "encrypt_then_mac c secret (replicate 184 0) ?pt =
    (if length msg \<le> 171
     then Some (2 + padded_len (5 + length msg), sealed c secret ?pt @ replicate (182 - padded_len (5 + length msg)) 0)
     else None)"
    using encrypt_then_mac_eq [OF c, of secret "replicate 184 0" ?pt] s
      padded_len_le_iff [of "5 + length msg" 11] lp
      pl lp by auto
  show ?thesis
  proof (cases "length msg \<le> 171")
    case False
    with True show ?thesis
      using encode_plaintext_buffer [of msg ts] e
      by (simp add: encode_grp_txt_def size_constants PLAINTEXT_HEADER_def Let_def del: replicate_Suc)
  next
    case m: True
    have b: "padded_len (5 + length msg) \<le> 176"
      using padded_len_le_iff [of "5 + length msg" 11] m by (simp add: padded_len_def)
    have ls: "length (sealed c secret ?pt) = 2 + padded_len (5 + length msg)"
      using length_sealed [OF c, of secret ?pt] s lp by simp
    then have "slice (sealed c secret ?pt @ replicate (182 - padded_len (5 + length msg)) 0) 0
        (2 + padded_len (5 + length msg)) = Some (sealed c secret ?pt)"
      by (simp add: slice_def)
    then show ?thesis
      using encode_plaintext_buffer [of msg ts] e True m b hv ls
      by (simp add: encode_grp_txt_def size_constants PLAINTEXT_HEADER_def Let_def grp_header grp_path_len
          grp_packet_def Packet_new_def del: replicate_Suc)
  qed
next
  case False
  then show ?thesis by (simp add: encode_grp_txt_def size_constants PLAINTEXT_HEADER_def Let_def)
qed

lemma rposition_None: "rposition P xs = None \<longleftrightarrow> (\<forall>x \<in> set xs. \<not> P x)"
  by (induction xs) (auto split: option.splits)

lemma rposition_append: "(\<forall>y \<in> set ys. \<not> P y) \<Longrightarrow> rposition P (xs @ ys) = rposition P xs"
  by (induction xs) (auto simp: rposition_None split: option.split)

lemma rposition_last: "xs \<noteq> [] \<Longrightarrow> P (last xs) \<Longrightarrow> rposition P xs = Some (length xs - 1)"
proof (induction xs)
  case (Cons x xs)
  then show ?case by (cases "xs = []") (auto split: option.split)
qed simp

lemma rposition_Some: "rposition P xs = Some i \<Longrightarrow> i < length xs \<and> P (xs ! i) \<and> (\<forall>j. i < j \<and> j < length xs \<longrightarrow> \<not> P (xs ! j))"
proof (induction xs arbitrary: i)
  case (Cons x xs)
  show ?case
  proof (cases "rposition P xs")
    case None
    with Cons.prems show ?thesis by (auto simp: rposition_None nth_Cons split: if_splits nat.split)
  next
    case (Some k)
    with Cons.prems Cons.IH [OF Some] show ?thesis by (auto simp: nth_Cons split: nat.splits)
  qed
qed simp

text \<open>The decoder as one function of the payload: the buffer does not appear.\<close>

definition strip_nul :: "u8 list \<Rightarrow> u8 list" where
  "strip_nul xs = rev (dropWhile ((=) 0) (rev xs))"

definition open_grp_txt :: "crypto \<Rightarrow> u8 list \<Rightarrow> u8 list \<Rightarrow> DecodedGrpTxt option" where
  "open_grp_txt c secret pl =
     (if length pl < 19 \<or> take 2 (drop 1 pl) \<noteq> compute_mac c secret (drop 3 pl) then None
      else
        let pt = ecb (aes128_decrypt_block c (take 16 secret)) ((length pl - 3) div 16) (drop 3 pl);
            msg = strip_nul (drop 5 pt)
        in if utf8_valid msg
           then Some \<lparr>timestamp = u32_from_le_bytes (pt ! 0) (pt ! 1) (pt ! 2) (pt ! 3),
                      tx_type = pt ! 4, message = msg\<rparr>
           else None)"

lemma strip_nul_split: "\<exists>k. xs = strip_nul xs @ replicate k 0"
proof -
  have "rev xs = takeWhile ((=) 0) (rev xs) @ dropWhile ((=) 0) (rev xs)" by simp
  then have "xs = strip_nul xs @ rev (takeWhile ((=) 0) (rev xs))"
    unfolding strip_nul_def by (metis rev_append rev_rev_ident)
  moreover have "rev (takeWhile ((=) 0) (rev xs)) = replicate (length (takeWhile ((=) 0) (rev xs))) 0"
    by (rule replicate_eqI) (auto dest: set_takeWhileD)
  ultimately show ?thesis by metis
qed

lemma strip_nul_last: "strip_nul xs \<noteq> [] \<Longrightarrow> last (strip_nul xs) \<noteq> 0"
  unfolding strip_nul_def by (metis (mono_tags, lifting) hd_dropWhile last_rev rev_is_Nil_conv)

lemma strip_nul_append:
  assumes "xs = [] \<or> last xs \<noteq> 0"
  shows "strip_nul (xs @ replicate k 0) = xs"
proof -
  have "dropWhile ((=) 0) (replicate k 0 @ rev xs) = dropWhile ((=) 0) (rev xs)"
    by (induction k) auto
  also have "\<dots> = rev xs" using assms by (cases xs rule: rev_cases) auto
  finally show ?thesis by (simp add: strip_nul_def)
qed

lemma slice_rposition:
  "slice xs 0 (case rposition (\<lambda>b. b \<noteq> 0) xs of None \<Rightarrow> 0 | Some i \<Rightarrow> i + 1) = Some (strip_nul xs)"
proof -
  obtain k where k: "xs = strip_nul xs @ replicate k 0" using strip_nul_split by blast
  have r: "rposition (\<lambda>b. b \<noteq> 0) xs = rposition (\<lambda>b. b \<noteq> 0) (strip_nul xs)"
    by (subst k, rule rposition_append) simp
  have len: "length (strip_nul xs) \<le> length xs" and t: "take (length (strip_nul xs)) xs = strip_nul xs"
    using k by (metis le_add1 length_append) (metis append_eq_conv_conj k)
  show ?thesis
  proof (cases "strip_nul xs = []")
    case True
    then show ?thesis by (simp add: r slice_def)
  next
    case False
    then have "rposition (\<lambda>b. b \<noteq> 0) (strip_nul xs) = Some (length (strip_nul xs) - 1)"
      using strip_nul_last by (intro rposition_last) auto
    then show ?thesis using False len t by (simp add: r slice_def)
  qed
qed

lemma decode_grp_txt_eq:
  assumes c: "crypto_ok c" and s: "length secret = 32" and room: "length pl \<le> length scratch"
  shows "\<exists>scratch'. decode_grp_txt c secret pl scratch = Some (open_grp_txt c secret pl, scratch')"
proof (cases "length pl < 19")
  case True
  then show ?thesis by (simp add: decode_grp_txt_def open_grp_txt_def MIN_GRP_TXT_PAYLOAD_def size_constants)
next
  case long: False
  let ?n = "(length pl - 3) div 16"
  let ?pt = "ecb (aes128_decrypt_block c (take 16 secret)) ?n (drop 3 pl)"
  let ?buf = "?pt @ drop (16 * ?n) scratch"
  have n: "1 \<le> ?n" "16 * ?n \<le> length pl - 3" using long by auto
  then have lpt: "length ?pt = 16 * ?n"
    using c s by (intro length_ecb) (auto simp: crypto_okD)
  have sl: "slice pl 1 (length pl) = Some (drop 1 pl)" using long by (simp add: slice_def)
  have m: "mac_then_decrypt c secret scratch (drop 1 pl) =
    (if take 2 (drop 1 pl) \<noteq> compute_mac c secret (drop 3 pl) then Some (None, scratch)
     else Some (Some (16 * ?n), ?buf))"
  proof -
    have e: "length (drop 1 pl) - 2 = length pl - 3" "drop 2 (drop 1 pl) = drop 3 pl" "\<not> length (drop 1 pl) < 2"
      "?n * 16 \<le> length scratch"
      using long n(2) room by (simp_all add: numeral_3_eq_3)
    show ?thesis
      using mac_then_decrypt_eq [OF c, of secret scratch "drop 1 pl"] s e
      unfolding Let_def e by (simp add: mult.commute)
  qed
  have ix: "idx ?buf i = Some (?pt ! i)" if "i < 5" for i
    using that n lpt by (simp add: idx_def nth_append)
  have sm: "slice ?buf 5 (16 * ?n) = Some (drop 5 ?pt)"
    using n lpt by (simp add: slice_def)
  show ?thesis
  proof (cases "take 2 (drop 1 pl) \<noteq> compute_mac c secret (drop 3 pl)")
    case True
    with m long show ?thesis
      by (simp add: decode_grp_txt_def open_grp_txt_def MIN_GRP_TXT_PAYLOAD_def size_constants sl del: One_nat_def)
  next
    case False
    then have "decode_grp_txt c secret pl scratch = Some (open_grp_txt c secret pl, ?buf)"
      using m long n
      by (simp add: decode_grp_txt_def open_grp_txt_def MIN_GRP_TXT_PAYLOAD_def PLAINTEXT_HEADER_def size_constants
          sl ix sm slice_rposition Let_def del: One_nat_def)
    then show ?thesis by blast
  qed
qed

lemma open_grp_packet:
  assumes c: "crypto_ok c" and s: "length secret = 32"
    and msg: "utf8_valid msg" "msg = [] \<or> last msg \<noteq> 0"
  shows "open_grp_txt c secret (payload (grp_packet c secret h ts msg)) =
    Some \<lparr>timestamp = ts, tx_type = 0, message = msg\<rparr>"
proof -
  let ?src = "grp_plaintext ts msg"
  have s': "16 \<le> length secret" using s by simp
  have l: "length (ciphertext c secret ?src) = padded_len (length ?src)" by (rule length_ciphertext [OF c s'])
  have lm: "length (compute_mac c secret x) = 2" for x by (rule length_compute_mac [OF c])
  have ge: "16 \<le> padded_len (length ?src)"
    using padded_len_le_iff [of "length ?src" 0] by (simp add: grp_plaintext_def padded_len_def)
  have k: "padded_len (length ?src) div 16 = div_ceil (length ?src) 16" by (simp add: padded_len_def)
  have z: "zero_pad ?src = ?src @ replicate (padded_len (length ?src) - length ?src) 0" by (simp add: zero_pad_def)
  have d: "drop 5 (zero_pad ?src) = msg @ replicate (padded_len (length ?src) - length ?src) 0"
    unfolding z by (simp add: grp_plaintext_def)
  have i: "zero_pad ?src ! 0 = ucast ts" "zero_pad ?src ! 1 = ucast (drop_bit 8 ts)"
    "zero_pad ?src ! 2 = ucast (drop_bit 16 ts)" "zero_pad ?src ! 3 = ucast (drop_bit 24 ts)"
    "zero_pad ?src ! 4 = 0"
    unfolding z by (simp_all add: grp_plaintext_def u32_to_le_bytes_def)
  have d1: "drop 1 (x # xs) = xs" for x :: u8 and xs by simp
  show ?thesis
    using l lm ge decrypt_ciphertext [OF c s', of ?src] strip_nul_append [OF msg(2)] msg(1)
    by (simp add: open_grp_txt_def grp_packet_def sealed_def k d i u32_from_to_le Let_def d1 del: One_nat_def)
qed

lemma wf_grp_packet:
  assumes "crypto_ok c" "length secret = 32" "length msg \<le> 171"
  shows "wf_packet (grp_packet c secret h ts msg)"
proof -
  have "padded_len (5 + length msg) \<le> 176"
    using padded_len_le_iff [of "5 + length msg" 11] assms(3) by (simp add: padded_len_def)
  moreover have "length (sealed c secret (grp_plaintext ts msg)) = 2 + padded_len (5 + length msg)"
    using length_sealed [OF assms(1)] assms(2) by (simp add: grp_plaintext_def)
  ultimately show ?thesis
    by (simp add: wf_packet_def grp_packet_def Packet_new_def is_valid_path_len_def path_byte_len_def path_hash_count_def
        path_hash_size_def PATH_HASH_COUNT_MASK_def PATH_HASH_SIZE_SHIFT_def size_constants
        has_transport_codes_def route_type_def RouteType_try_from_def PH_ROUTE_MASK_def)
qed

lemma open_grp_txt_SomeD:
  assumes "open_grp_txt c secret pl = Some d"
  shows "19 \<le> length pl" and "take 2 (drop 1 pl) = compute_mac c secret (drop 3 pl)"
    and "utf8_valid (message d)" and "message d = [] \<or> last (message d) \<noteq> 0"
proof -
  let ?m = "strip_nul (drop 5 (ecb (aes128_decrypt_block c (take 16 secret)) ((length pl - 3) div 16) (drop 3 pl)))"
  have "message d = ?m" "utf8_valid ?m"
    using assms by (auto simp: open_grp_txt_def Let_def split: if_splits)
  then show "utf8_valid (message d)" "message d = [] \<or> last (message d) \<noteq> 0"
    using strip_nul_last by auto
  show "19 \<le> length pl" "take 2 (drop 1 pl) = compute_mac c secret (drop 3 pl)"
    using assms by (auto simp: open_grp_txt_def Let_def split: if_splits)
qed

section \<open>Properties\<close>

text \<open>
  C24: Encoding a group text on every branch: up to 171 bytes of message it returns the flood packet of the sealed
  plaintext, from 180 bytes on it returns \<open>None\<close>, and for 172 to 179 bytes it panics in the
  encryption (the length check in front of it admits a plaintext whose padding does not fit).
\<close>
theorem encode_grp_txt_spec:
  assumes "heapless_ok hv" "crypto_ok c" "length secret = 32"
  shows "encode_grp_txt hv c secret h ts msg =
    (if length msg \<le> 171
     then Some (Some (Packet_new\<lparr>header := 0x15,
       payload := h # sealed c secret (u32_to_le_bytes ts @ 0 # msg)\<rparr>))
     else if length msg < 180 then None else Some None)"
  using encode_grp_txt_eq [OF assms] by (simp add: grp_packet_def grp_plaintext_def)

lemma encode_grp_txt_spec_witness:
  "encode_grp_txt list_heapless toy_crypto (replicate 32 1) 7 42 (replicate 172 65) = None \<and>
   encode_grp_txt list_heapless toy_crypto (replicate 32 1) 7 42 (replicate 180 65) = Some None"
  using encode_grp_txt_spec [OF list_heapless_ok toy_crypto_ok, of "replicate 32 1"] by simp

text \<open>
  C23: A group text survives the whole way: encoded, written to a transmit buffer, parsed as a
  packet at the receiver and decoded under the same secret, it gives back timestamp, type 0 and message, for
  every UTF-8 message of at most 171 bytes that does not end in a NUL byte.
\<close>
theorem grp_txt_wire_round_trip:
  assumes "heapless_ok hv" "crypto_ok c" "length secret = 32"
    and "length msg \<le> 171" "utf8_valid msg" "msg = [] \<or> last msg \<noteq> 0"
    and "length dest = MAX_TRANS_UNIT" "MAX_PACKET_PAYLOAD \<le> length scratch"
  shows "\<exists>p n dest' q scratch'.
    encode_grp_txt hv c secret h ts msg = Some (Some p) \<and>
    write_to p dest = Some (n, dest') \<and>
    read_from hv Packet_new (take n dest') = Some (True, q) \<and>
    matches_channel (payload q) h \<and>
    decode_grp_txt c secret (payload q) scratch =
      Some (Some \<lparr>timestamp = ts, tx_type = 0, message = msg\<rparr>, scratch')"
proof -
  let ?p = "grp_packet c secret h ts msg"
  have wf: "wf_packet ?p" by (rule wf_grp_packet [OF assms(2-4)])
  then have w: "write_to ?p dest = Some (wire_len ?p, wire_bytes ?p @ drop (wire_len ?p) dest)"
    using wf_wire_len_le [OF wf] assms(7) by (simp add: write_to_eq MAX_TRANS_UNIT_def wf_path_complete)
  have t: "take (wire_len ?p) (wire_bytes ?p @ drop (wire_len ?p) dest) = wire_bytes ?p"
    using length_wire_bytes [OF wf_path_complete [OF wf]] by simp
  have r: "read_from hv Packet_new (wire_bytes ?p) = Some (True, ?p\<lparr>snr := snr Packet_new\<rparr>)"
    by (rule read_from_complete [OF assms(1) wf])
  have l: "length (payload ?p) \<le> length scratch"
    using wf assms(8) by (simp add: wf_packet_def)
  obtain scratch' where "decode_grp_txt c secret (payload ?p) scratch =
      Some (open_grp_txt c secret (payload ?p), scratch')"
    using decode_grp_txt_eq [OF assms(2,3) l] by blast
  moreover have "matches_channel (payload ?p) h" by (simp add: matches_channel_def grp_packet_def)
  moreover have "encode_grp_txt hv c secret h ts msg = Some (Some ?p)"
    using encode_grp_txt_eq [OF assms(1-3)] assms(4) by simp
  ultimately show ?thesis
    unfolding open_grp_packet [OF assms(2,3,5,6)] using w r
    by - (rule exI [of _ ?p], rule exI [of _ "wire_len ?p"], rule exI [of _ "wire_bytes ?p @ drop (wire_len ?p) dest"],
        rule exI [of _ "?p\<lparr>snr := snr Packet_new\<rparr>"], rule exI [of _ scratch'], simp add: t del: take_append)
qed

lemma grp_txt_wire_round_trip_witness:
  "\<exists>p n dest' q scratch'.
    encode_grp_txt list_heapless toy_crypto (replicate 32 1) 7 42 [98, 111, 116] = Some (Some p) \<and>
    write_to p (replicate 255 0) = Some (n, dest') \<and>
    read_from list_heapless Packet_new (take n dest') = Some (True, q) \<and>
    matches_channel (payload q) 7 \<and>
    decode_grp_txt toy_crypto (replicate 32 1) (payload q) (replicate 256 0) =
      Some (Some \<lparr>timestamp = 42, tx_type = 0, message = [98, 111, 116]\<rparr>, scratch')"
  by (rule grp_txt_wire_round_trip [OF list_heapless_ok toy_crypto_ok])
    (simp_all add: utf8_valid_ascii MAX_TRANS_UNIT_def MAX_PACKET_PAYLOAD_def)

text \<open>
  C25: Decoding never panics when the scratch buffer is at least as long as the payload, whatever bytes
  arrive; what it returns, a message or nothing, does not depend on the contents of the buffer, and a returned
  message is valid UTF-8, does not end in NUL, and came with the right MAC.
\<close>
theorem decode_grp_txt_total:
  assumes "crypto_ok c" "length secret = 32" "length pl \<le> length scratch"
  shows "\<exists>r scratch'. decode_grp_txt c secret pl scratch = Some (r, scratch') \<and> r = open_grp_txt c secret pl \<and>
    (case r of None \<Rightarrow> True
     | Some d \<Rightarrow> 19 \<le> length pl \<and> take 2 (drop 1 pl) = compute_mac c secret (drop 3 pl) \<and>
        utf8_valid (message d) \<and> (message d = [] \<or> last (message d) \<noteq> 0))"
proof -
  obtain scratch' where "decode_grp_txt c secret pl scratch = Some (open_grp_txt c secret pl, scratch')"
    using decode_grp_txt_eq [OF assms] by blast
  then show ?thesis
    using open_grp_txt_SomeD [of c secret pl] by (auto split: option.split)
qed

lemma decode_grp_txt_total_witness:
  "\<exists>scratch'. decode_grp_txt toy_crypto (replicate 32 1) (replicate 19 3 @ [4]) (replicate 184 0) = Some (None, scratch')"
proof -
  have "open_grp_txt toy_crypto (replicate 32 1) (replicate 19 3 @ [4]) = None" by code_simp
  with decode_grp_txt_total [OF toy_crypto_ok, of "replicate 32 1" "replicate 19 3 @ [4]" "replicate 184 0"]
  show ?thesis by auto
qed

end
