(* ===== verification/F32.thy ===== *)
theory F32
  imports Prelude
begin

text \<open>
  Rust's \<open>f32\<close>: IEEE 754 binary32 with round-to-nearest, ties to even. A finite value is
  \<open>F32_Fin s m e\<close> for \<open>(-1)^s * m * 2^e\<close> with \<open>m < 2^24\<close> and \<open>-149 \<le> e \<le> 104\<close>; zero is signed. Every
  operation computes the exact rational result on integers and rounds once. Casts to integers
  truncate and saturate, and map NaN to 0, as Rust's \<open>as\<close> does.
\<close>

section \<open>Values\<close>

datatype f32 = F32_NaN | F32_Inf bool | F32_Fin bool int int

function ibitlen :: "int \<Rightarrow> int" where
  "ibitlen n = (if n \<le> 0 then 0 else 1 + ibitlen (n div 2))"
  by pat_completeness auto
termination
  by (relation "measure nat") auto

declare ibitlen.simps [simp del]

text \<open>\<open>f32_scale a b e\<close> is the fraction \<open>a / b\<close> divided by \<open>2^e\<close>.\<close>

definition f32_scale :: "int \<Rightarrow> int \<Rightarrow> int \<Rightarrow> int \<times> int" where
  "f32_scale a b e = (if 0 \<le> e then (a, b * 2 ^ nat e) else (a * 2 ^ nat (- e), b))"

text \<open>\<open>f32_round s a b\<close> rounds \<open>(-1)^s * a / b\<close> for \<open>0 \<le> a\<close>, \<open>0 < b\<close>.\<close>

definition f32_exponent :: "int \<Rightarrow> int \<Rightarrow> int" where
  "f32_exponent a b =
     (let e = max (- 149) (ibitlen a - ibitlen b - 24); (n, d) = f32_scale a b e
      in if n div d < 2 ^ 24 then e else e + 1)"

definition f32_round :: "bool \<Rightarrow> int \<Rightarrow> int \<Rightarrow> f32" where
  "f32_round s a b =
     (if a = 0 then F32_Fin s 0 (- 149)
      else
        let e = f32_exponent a b; (n, d) = f32_scale a b e;
            q = n div d; r = n mod d;
            q' = (if d < 2 * r \<or> 2 * r = d \<and> odd q then q + 1 else q);
            (m, e') = (if q' = 2 ^ 24 then (2 ^ 23, e + 1) else (q', e))
        in if 104 < e' then F32_Inf s else F32_Fin s m e')"

definition f32_dyadic :: "bool \<Rightarrow> int \<Rightarrow> int \<Rightarrow> f32" where
  "f32_dyadic s m e =
     (if 0 \<le> e then f32_round s (m * 2 ^ nat e) 1 else f32_round s m (2 ^ nat (- e)))"

text \<open>A decimal literal \<open>n/d\<close>, and the conversion of an integer (\<open>as f32\<close>).\<close>

definition f32_lit :: "int \<Rightarrow> int \<Rightarrow> f32" where
  "f32_lit n d = f32_round (n < 0) \<bar>n\<bar> d"

definition f32_of_int :: "int \<Rightarrow> f32" where
  "f32_of_int n = f32_round (n < 0) \<bar>n\<bar> 1"

definition f32_zero :: f32 where "f32_zero = F32_Fin False 0 (- 149)"
definition f32_max :: f32 where "f32_max = F32_Fin False (2 ^ 24 - 1) 104"

section \<open>Arithmetic\<close>

definition f32_sgn :: "bool \<Rightarrow> int" where
  "f32_sgn s = (if s then - 1 else 1)"

fun f32_neg :: "f32 \<Rightarrow> f32" where
  "f32_neg F32_NaN = F32_NaN"
| "f32_neg (F32_Inf s) = F32_Inf (\<not> s)"
| "f32_neg (F32_Fin s m e) = F32_Fin (\<not> s) m e"

text \<open>The signed mantissa at the common exponent \<open>k \<le> e\<close>.\<close>

definition f32_at :: "bool \<Rightarrow> int \<Rightarrow> int \<Rightarrow> int \<Rightarrow> int" where
  "f32_at s m e k = f32_sgn s * m * 2 ^ nat (e - k)"

fun f32_add :: "f32 \<Rightarrow> f32 \<Rightarrow> f32" where
  "f32_add F32_NaN _ = F32_NaN"
| "f32_add _ F32_NaN = F32_NaN"
| "f32_add (F32_Inf s) (F32_Inf t) = (if s = t then F32_Inf s else F32_NaN)"
| "f32_add (F32_Inf s) (F32_Fin _ _ _) = F32_Inf s"
| "f32_add (F32_Fin _ _ _) (F32_Inf t) = F32_Inf t"
| "f32_add (F32_Fin s m e) (F32_Fin t n f) =
     (let k = min e f; v = f32_at s m e k + f32_at t n f k
      in if v = 0 then F32_Fin (s \<and> t) 0 (- 149) else f32_dyadic (v < 0) \<bar>v\<bar> k)"

definition f32_sub :: "f32 \<Rightarrow> f32 \<Rightarrow> f32" where
  "f32_sub x y = f32_add x (f32_neg y)"

fun f32_mul :: "f32 \<Rightarrow> f32 \<Rightarrow> f32" where
  "f32_mul F32_NaN _ = F32_NaN"
| "f32_mul _ F32_NaN = F32_NaN"
| "f32_mul (F32_Inf s) (F32_Inf t) = F32_Inf (s \<noteq> t)"
| "f32_mul (F32_Inf s) (F32_Fin t n _) = (if n = 0 then F32_NaN else F32_Inf (s \<noteq> t))"
| "f32_mul (F32_Fin s m _) (F32_Inf t) = (if m = 0 then F32_NaN else F32_Inf (s \<noteq> t))"
| "f32_mul (F32_Fin s m e) (F32_Fin t n f) = f32_dyadic (s \<noteq> t) (m * n) (e + f)"

fun f32_div :: "f32 \<Rightarrow> f32 \<Rightarrow> f32" where
  "f32_div F32_NaN _ = F32_NaN"
| "f32_div _ F32_NaN = F32_NaN"
| "f32_div (F32_Inf _) (F32_Inf _) = F32_NaN"
| "f32_div (F32_Inf s) (F32_Fin t _ _) = F32_Inf (s \<noteq> t)"
| "f32_div (F32_Fin s _ _) (F32_Inf t) = F32_Fin (s \<noteq> t) 0 (- 149)"
| "f32_div (F32_Fin s m e) (F32_Fin t n f) =
     (if n = 0 then (if m = 0 then F32_NaN else F32_Inf (s \<noteq> t))
      else let (a, b) = f32_scale m n (f - e) in f32_round (s \<noteq> t) a b)"

section \<open>Comparison and casts\<close>

fun f32_lt :: "f32 \<Rightarrow> f32 \<Rightarrow> bool" where
  "f32_lt F32_NaN _ = False"
| "f32_lt _ F32_NaN = False"
| "f32_lt (F32_Inf s) (F32_Inf t) = (s \<and> \<not> t)"
| "f32_lt (F32_Inf s) (F32_Fin _ _ _) = s"
| "f32_lt (F32_Fin _ _ _) (F32_Inf t) = (\<not> t)"
| "f32_lt (F32_Fin s m e) (F32_Fin t n f) = (f32_at s m e (min e f) < f32_at t n f (min e f))"

fun f32_eq :: "f32 \<Rightarrow> f32 \<Rightarrow> bool" where
  "f32_eq F32_NaN _ = False"
| "f32_eq _ F32_NaN = False"
| "f32_eq (F32_Inf s) (F32_Inf t) = (s = t)"
| "f32_eq (F32_Fin s m e) (F32_Fin t n f) = (f32_at s m e (min e f) = f32_at t n f (min e f))"
| "f32_eq _ _ = False"

definition f32_le :: "f32 \<Rightarrow> f32 \<Rightarrow> bool" where
  "f32_le x y \<longleftrightarrow> f32_lt x y \<or> f32_eq x y"

definition f32_trunc :: "bool \<Rightarrow> int \<Rightarrow> int \<Rightarrow> int" where
  "f32_trunc s m e = f32_sgn s * (if 0 \<le> e then m * 2 ^ nat e else m div 2 ^ nat (- e))"

fun f32_cast :: "int \<Rightarrow> int \<Rightarrow> f32 \<Rightarrow> int" where
  "f32_cast lo hi F32_NaN = 0"
| "f32_cast lo hi (F32_Inf s) = (if s then lo else hi)"
| "f32_cast lo hi (F32_Fin s m e) = max lo (min hi (f32_trunc s m e))"

definition f32_as_u32 :: "f32 \<Rightarrow> u32" where
  "f32_as_u32 x = word_of_int (f32_cast 0 (2 ^ 32 - 1) x)"

definition f32_as_i32 :: "f32 \<Rightarrow> int" where
  "f32_as_i32 x = f32_cast (- (2 ^ 31)) (2 ^ 31 - 1) x"

section \<open>Exact results\<close>

lemma ibitlen_bounds:
  assumes "0 < n" shows "2 ^ nat (ibitlen n - 1) \<le> n \<and> n < 2 ^ nat (ibitlen n) \<and> 1 \<le> ibitlen n"
  using assms
proof (induction n rule: ibitlen.induct)
  case (1 n)
  show ?case
  proof (cases "n = 1")
    case True
    then show ?thesis by (simp add: ibitlen.simps)
  next
    case False
    with 1 have ih: "2 ^ nat (ibitlen (n div 2) - 1) \<le> n div 2 \<and> n div 2 < 2 ^ nat (ibitlen (n div 2)) \<and> 1 \<le> ibitlen (n div 2)"
      by simp
    have l: "ibitlen n = 1 + ibitlen (n div 2)" using 1 by (simp add: ibitlen.simps [of n])
    obtain k where k: "ibitlen (n div 2) = int k + 1" using ih by (metis zle_iff_zadd add.commute)
    have "nat (int k + 1) = Suc k" "nat (int k + 2) = Suc (Suc k)" by simp_all
    with ih l k show ?thesis by (auto simp: nat_add_distrib)
  qed
qed

lemma ibitlen_eqI:
  assumes "2 ^ k \<le> n" "n < 2 ^ Suc k"
  shows "ibitlen n = int k + 1"
proof -
  have "(0::int) < 2 ^ k" by simp
  with assms have n: "0 < n" by linarith
  from ibitlen_bounds [OF n] obtain j where j: "ibitlen n = int j + 1" by (metis zle_iff_zadd add.commute)
  with ibitlen_bounds [OF n] have b: "2 ^ j \<le> n" "n < 2 ^ Suc j" by (simp_all add: nat_add_distrib)
  have "j < Suc k" using b(1) assms(2) by (metis le_less_trans power_less_imp_less_exp one_less_numeral_iff semiring_norm(76))
  moreover have "k < Suc j" using b(2) assms(1) by (metis le_less_trans power_less_imp_less_exp one_less_numeral_iff semiring_norm(76))
  ultimately show ?thesis using j by simp
qed

lemma scale_exact:
  assumes "e \<le> int k - int j" "f32_scale (m * 2 ^ k) (2 ^ j) e = (n, d)"
  shows "n div d = m * 2 ^ nat (int k - int j - e) \<and> n mod d = 0 \<and> 0 < d"
proof -
  obtain c where c: "0 < d" "n = m * 2 ^ c * d" "c = nat (int k - int j - e)"
  proof (cases "0 \<le> e")
    case True
    then have "n = m * 2 ^ k" "d = 2 ^ j * 2 ^ nat e" using assms(2) by (simp_all add: f32_scale_def)
    moreover have "k = nat (int k - int j - e) + (j + nat e)" using True assms(1) by simp
    ultimately show ?thesis by (intro that) (simp_all add: power_add [symmetric] mult.assoc)
  next
    case False
    then have "n = m * 2 ^ k * 2 ^ nat (- e)" "d = 2 ^ j" using assms(2) by (simp_all add: f32_scale_def)
    moreover have "k + nat (- e) = nat (int k - int j - e) + j" using False assms(1) by simp
    ultimately show ?thesis by (intro that) (simp_all add: power_add [symmetric] mult.assoc)
  qed
  then show ?thesis by simp
qed

lemma f32_round_exact:
  assumes m: "2 ^ 23 \<le> m" "m < 2 ^ 24" and e: "- 149 \<le> int k - int j" "int k - int j \<le> 104"
  shows "f32_round s (m * 2 ^ k) (2 ^ j) = F32_Fin s m (int k - int j)"
proof -
  let ?a = "m * 2 ^ k" and ?e = "int k - int j"
  have "2 ^ 23 * 2 ^ k \<le> ?a" "?a < 2 ^ 24 * 2 ^ k" using m by simp_all
  then have "ibitlen ?a = int (23 + k) + 1" by (intro ibitlen_eqI) (simp_all add: power_add)
  moreover have "ibitlen (2 ^ j) = int j + 1" by (intro ibitlen_eqI) simp_all
  ultimately have l: "ibitlen ?a - ibitlen (2 ^ j) - 24 = ?e - 1" by simp
  have ex: "f32_exponent ?a (2 ^ j) = ?e"
  proof (cases "?e = - 149")
    case True
    obtain n d where nd: "f32_scale ?a (2 ^ j) ?e = (n, d)" by fastforce
    from scale_exact [OF _ nd] m(2) have "n div d < 2 ^ 24" by simp
    with True l nd show ?thesis by (simp add: f32_exponent_def Let_def)
  next
    case False
    then have mx: "max (- 149) (?e - 1) = ?e - 1" using e by simp
    obtain n d where nd: "f32_scale ?a (2 ^ j) (?e - 1) = (n, d)" by fastforce
    from scale_exact [OF _ nd] m(1) have "\<not> n div d < 2 ^ 24" by simp
    with nd show ?thesis unfolding f32_exponent_def l mx Let_def nd by simp
  qed
  obtain n d where nd: "f32_scale ?a (2 ^ j) ?e = (n, d)" by fastforce
  from scale_exact [OF _ nd] have "n div d = m" "n mod d = 0" "0 < d" by simp_all
  moreover have "m \<noteq> 0" "m \<noteq> 2 ^ 24" using m by auto
  ultimately show ?thesis using e(2) unfolding f32_round_def ex Let_def nd by simp
qed

lemma scale_up_exact:
  assumes "a * 2 ^ c = m" "e \<le> - int c - int j" "f32_scale a (2 ^ j) e = (n, d)"
  shows "n div d = m * 2 ^ nat (- int c - int j - e) \<and> n mod d = 0 \<and> 0 < d"
proof -
  have "n = a * 2 ^ nat (- e)" "d = 2 ^ j" using assms(2,3) by (auto simp: f32_scale_def split: if_splits)
  moreover have "nat (- e) = c + nat (- int c - int j - e) + j" using assms(2) by simp
  ultimately have "n = m * 2 ^ nat (- int c - int j - e) * d" "0 < d"
    using assms(1) by (simp_all add: power_add mult.assoc [symmetric])
  then show ?thesis by simp
qed

lemma f32_round_exact_up:
  assumes m: "2 ^ 23 \<le> m" "m < 2 ^ 24" and a: "a * 2 ^ c = m" "0 < a" and e: "c + j \<le> 149"
  shows "f32_round s a (2 ^ j) = F32_Fin s m (- int c - int j)"
proof -
  let ?e = "- int c - int j"
  obtain b where b: "ibitlen a = int b + 1" "2 ^ b \<le> a" "a < 2 ^ Suc b"
    using ibitlen_bounds [OF a(2)] by (metis zle_iff_zadd add.commute add_diff_cancel_left' nat_int nat_int_add of_nat_1 plus_1_eq_Suc)
  have "2 ^ (b + c) \<le> m" "m < 2 ^ Suc (b + c)" using b(2,3) a(1) by (auto simp: power_add)
  then have "b + c = 23" using m ibitlen_eqI [of 23 m] ibitlen_eqI [of "b + c" m] by simp
  then have l: "ibitlen a - ibitlen (2 ^ j) - 24 = ?e - 1"
    using b(1) ibitlen_eqI [of j "2 ^ j"] by simp
  have ex: "f32_exponent a (2 ^ j) = ?e"
  proof (cases "?e = - 149")
    case True
    obtain n d where nd: "f32_scale a (2 ^ j) ?e = (n, d)" by fastforce
    from scale_up_exact [OF a(1) _ nd] m(2) have "n div d < 2 ^ 24" by simp
    with True l nd show ?thesis by (simp add: f32_exponent_def Let_def)
  next
    case False
    then have mx: "max (- 149) (?e - 1) = ?e - 1" using e by simp
    obtain n d where nd: "f32_scale a (2 ^ j) (?e - 1) = (n, d)" by fastforce
    from scale_up_exact [OF a(1) _ nd] m(1) have "\<not> n div d < 2 ^ 24" by simp
    with nd show ?thesis unfolding f32_exponent_def l mx Let_def nd by simp
  qed
  obtain n d where nd: "f32_scale a (2 ^ j) ?e = (n, d)" by fastforce
  from scale_up_exact [OF a(1) _ nd] have "n div d = m" "n mod d = 0" "0 < d" by simp_all
  moreover have "a \<noteq> 0" "m \<noteq> 2 ^ 24" using a m by auto
  ultimately show ?thesis unfolding f32_round_def ex Let_def nd by simp
qed

lemma f32_of_int_small:
  assumes "0 < n" "n < 2 ^ 24"
  obtains c where "c \<le> 23" "2 ^ 23 \<le> n * 2 ^ c" "n * 2 ^ c < 2 ^ 24" "f32_of_int n = F32_Fin False (n * 2 ^ c) (- int c)"
proof -
  obtain b where b: "2 ^ b \<le> n" "n < 2 ^ Suc b"
    using ibitlen_bounds [OF assms(1)] by (metis zle_iff_zadd add.commute add_diff_cancel_left' nat_int nat_int_add of_nat_1 plus_1_eq_Suc)
  have "b < 24" using b(1) assms(2) by (metis le_less_trans power_less_imp_less_exp one_less_numeral_iff semiring_norm(76))
  define c where "c = 23 - b"
  have bc: "b + c = 23" using \<open>b < 24\<close> by (simp add: c_def)
  have "2 ^ (b + c) \<le> n * 2 ^ c" "n * 2 ^ c < 2 ^ Suc (b + c)" using b by (simp_all add: power_add)
  then have r: "2 ^ 23 \<le> n * 2 ^ c" "n * 2 ^ c < 2 ^ 24" using bc by simp_all
  moreover have "c \<le> 23" by (simp add: c_def)
  moreover have "f32_of_int n = F32_Fin False (n * 2 ^ c) (- int c)"
    using f32_round_exact_up [OF r refl assms(1), of 0 False] assms(1) bc by (simp add: f32_of_int_def)
  ultimately show ?thesis using that by blast
qed

text \<open>The default duty cycle is one half: such a product of a small integer is exact and truncates to the half.\<close>

definition f32_half :: f32 where "f32_half = F32_Fin False (2 ^ 23) (- 24)"

lemma f32_half_of_int:
  assumes "0 \<le> n" "n < 2 ^ 24"
  shows "f32_as_u32 (f32_mul (f32_of_int n) f32_half) = word_of_int (n div 2)"
proof (cases "n = 0")
  case True
  then show ?thesis
    by (simp add: f32_as_u32_def f32_half_def f32_of_int_def f32_round_def f32_dyadic_def f32_trunc_def)
next
  case False
  with assms obtain c where c: "c \<le> 23" "2 ^ 23 \<le> n * 2 ^ c" "n * 2 ^ c < 2 ^ 24"
    and f: "f32_of_int n = F32_Fin False (n * 2 ^ c) (- int c)"
    using f32_of_int_small [of n] by auto
  have x: "nat (24 + int c) = c + 24" "nat (int c + 1) = c + 1" by simp_all
  have "f32_mul (f32_of_int n) f32_half = F32_Fin False (n * 2 ^ c) (- 1 - int c)"
    using f32_round_exact [OF c(2,3), of 23 "c + 24" False] c(1)
    by (simp add: f f32_half_def f32_dyadic_def x)
  moreover have "n * 2 ^ c div 2 ^ (c + 1) = n div 2"
    by (simp add: mult.commute [of n])
  moreover have "n div 2 \<le> 2 ^ 32 - 1" "0 \<le> n div 2" using assms by simp_all
  ultimately show ?thesis by (simp add: f32_as_u32_def f32_trunc_def f32_sgn_def x del: power_Suc)
qed

end
