(* ===== verification/Time.thy ===== *)
theory Time
  imports Prelude
begin

text \<open>
  The interface of \<open>embassy_time\<close>, a third-party crate, as a record parameter. An \<open>Instant\<close> and a
  \<open>Duration\<close> are 64-bit tick counts, ordered as numbers (the crate derives the ordering); the conversions depend on
  the tick rate the board is built with. Addition and subtraction of instants panic on overflow
  (\<^const>\<open>None\<close>). Readings of \<open>Instant::now()\<close> are inputs of the definitions that take them.
\<close>

type_synonym instant = u64
type_synonym duration = u64

record time_api =
  dur_from_millis :: "u64 \<Rightarrow> duration"
  dur_as_millis :: "duration \<Rightarrow> u64"
  dur_as_secs :: "duration \<Rightarrow> u64"
  inst_from_millis :: "u64 \<Rightarrow> instant"
  inst_add :: "instant \<Rightarrow> duration \<Rightarrow> instant option"
  inst_sub :: "instant \<Rightarrow> instant \<Rightarrow> duration option"
  inst_max :: instant

text \<open>
  The documented behaviour: checked arithmetic on the tick counts, \<open>MAX\<close> is the largest count, zero
  converts to zero, \<open>as_millis\<close> is monotone, and a duration made from milliseconds (a 32-bit number
  of them, as everywhere in the source) is at least that long and grows with them.
\<close>

definition time_ok :: "time_api \<Rightarrow> bool" where
  "time_ok tm \<longleftrightarrow>
     (\<forall>a d. inst_add tm a d = (if unat a + unat d < 2 ^ 64 then Some (a + d) else None)) \<and>
     (\<forall>a b. inst_sub tm a b = (if b \<le> a then Some (a - b) else None)) \<and>
     inst_max tm = - 1 \<and>
     inst_from_millis tm 0 = 0 \<and> dur_as_millis tm 0 = 0 \<and> dur_from_millis tm 0 = 0 \<and>
     (\<forall>d e. d \<le> e \<longrightarrow> dur_as_millis tm d \<le> dur_as_millis tm e) \<and>
     (\<forall>m n :: u32. m \<le> n \<longrightarrow> dur_from_millis tm (ucast m) \<le> dur_from_millis tm (ucast n)) \<and>
     (\<forall>m :: u32. ucast m \<le> dur_as_millis tm (dur_from_millis tm (ucast m)))"

lemma time_okD:
  assumes "time_ok tm"
  shows "inst_add tm a d = (if unat a + unat d < 2 ^ 64 then Some (a + d) else None)"
    and "inst_sub tm a b = (if b \<le> a then Some (a - b) else None)"
    and "inst_max tm = - 1" and "inst_from_millis tm 0 = 0" and "dur_as_millis tm 0 = 0"
    and "d \<le> e \<Longrightarrow> dur_as_millis tm d \<le> dur_as_millis tm e"
    and "m \<le> n \<Longrightarrow> dur_from_millis tm (ucast (m :: u32)) \<le> dur_from_millis tm (ucast n)"
    and "ucast (m :: u32) \<le> dur_as_millis tm (dur_from_millis tm (ucast m))"
    and "dur_from_millis tm 0 = 0"
  using assms by (auto simp: time_ok_def)

text \<open>A concrete instance, at which the witnesses evaluate: one tick per millisecond.\<close>

definition ms_time :: time_api where
  "ms_time = \<lparr>dur_from_millis = (\<lambda>m. m), dur_as_millis = (\<lambda>d. d), dur_as_secs = (\<lambda>d. d div 1000),
     inst_from_millis = (\<lambda>m. m),
     inst_add = (\<lambda>a d. if unat a + unat d < 2 ^ 64 then Some (a + d) else None),
     inst_sub = (\<lambda>a b. if b \<le> a then Some (a - b) else None), inst_max = - 1\<rparr>"

lemma ucast_le_iff: "(ucast (m :: u32) :: u64) \<le> ucast n \<longleftrightarrow> m \<le> n"
  by (simp add: word_le_nat_alt unsigned_ucast_eq take_bit_nat_eq_self unsigned_less [THEN less_le_trans])

lemma ms_time_ok [simp, intro]: "time_ok ms_time"
  by (simp add: time_ok_def ms_time_def ucast_le_iff)

lemma ms_time_simps [simp]:
  "dur_from_millis ms_time m = m" "dur_as_millis ms_time m = m" "dur_as_secs ms_time m = m div 1000"
  "inst_from_millis ms_time m = m" "inst_max ms_time = - 1"
  "inst_add ms_time a d = (if unat a + unat d < 2 ^ 64 then Some (a + d) else None)"
  "inst_sub ms_time a b = (if b \<le> a then Some (a - b) else None)"
  by (simp_all add: ms_time_def)

text \<open>\<open>Iterator::min\<close> over instants, which both queues use for the next wake-up.\<close>

definition min_instant :: "instant list \<Rightarrow> instant option" where
  "min_instant ts = (case ts of [] \<Rightarrow> None | t # us \<Rightarrow> Some (fold min us t))"

lemma min_instant_None_iff [simp]: "min_instant ts = None \<longleftrightarrow> ts = []"
  by (simp add: min_instant_def split: list.split)

lemma min_instant_Nil [simp]: "min_instant [] = None"
  by simp

lemma fold_min_le: "fold min us t \<le> (t :: 'a::linorder) \<and> (\<forall>u \<in> set us. fold min us t \<le> u) \<and>
    fold min us t \<in> insert t (set us)"
proof (induction us arbitrary: t)
  case (Cons u us)
  from Cons [of "min u t"] show ?case by (auto simp: min_def split: if_splits)
qed simp

lemma min_instant_Some: "min_instant ts = Some t \<Longrightarrow> t \<in> set ts \<and> (\<forall>u \<in> set ts. t \<le> u)"
  using fold_min_le by (auto simp: min_instant_def split: list.splits)

lemma min_instant_iff: "min_instant ts = Some t \<longleftrightarrow> t \<in> set ts \<and> (\<forall>u \<in> set ts. t \<le> u)"
proof
  assume t: "t \<in> set ts \<and> (\<forall>u \<in> set ts. t \<le> u)"
  then obtain s where s: "min_instant ts = Some s"
    by (metis min_instant_None_iff not_Some_eq list.set(1) empty_iff)
  with t min_instant_Some [OF s] show "min_instant ts = Some t" by (auto intro: order.antisym)
qed (rule min_instant_Some)

end
