(* ===== verification/Radio.thy ===== *)
theory Radio
  imports Constants F32 Time Interfaces
begin

text \<open>
  \<open>crates/meshcore-radio/src/radio.rs\<close> and \<open>rtc.rs\<close>: the types and the interface of a radio, as a record of state-passing
  operations for the code that is generic over \<open>R: Radio\<close>, and the software wall clock. The provided method of
  \<open>rng.rs\<close> is \<open>Interfaces.next_u32\<close>. Awaited operations are atomic steps that return when they complete.
\<close>

section \<open>Radio types\<close>

record RecvResult =
  rr_len :: nat
  rr_rssi :: f32
  rr_snr :: f32

datatype RadioError = SendFailed | RecvFailed | BufferTooSmall | InvalidState | ConfigError

record RadioConfig =
  frequency_mhz :: f32
  bandwidth_khz :: f32
  spreading_factor :: u8
  coding_rate :: u8
  tx_power :: i8
  preamble_symbols :: u16

definition RadioConfig_default :: RadioConfig where
  "RadioConfig_default = \<lparr>
     frequency_mhz = f32_lit 869618 1000,
     bandwidth_khz = f32_lit 625 10,
     spreading_factor = 8,
     coding_rate = 5,
     tx_power = 22,
     preamble_symbols = 16\<rparr>"

text \<open>The trait \<open>Radio\<close>. \<open>rd_recv\<close> also returns the caller's buffer and may panic.\<close>

record 'r radio =
  rd_configure :: "RadioConfig \<Rightarrow> 'r \<Rightarrow> (RadioError + unit) \<times> 'r"
  rd_send :: "u8 list \<Rightarrow> 'r \<Rightarrow> (RadioError + unit) \<times> 'r"
  rd_recv :: "u8 list \<Rightarrow> 'r \<Rightarrow> ((RadioError + RecvResult) \<times> u8 list \<times> 'r) option"
  rd_channel_active :: "'r \<Rightarrow> (RadioError + bool) \<times> 'r"
  rd_estimate_airtime_ms :: "'r \<Rightarrow> nat \<Rightarrow> u32"
  rd_sleep :: "'r \<Rightarrow> (RadioError + unit) \<times> 'r"
  rd_standby :: "'r \<Rightarrow> (RadioError + unit) \<times> 'r"

text \<open>
  The contract of a driver that the dispatcher relies on: receiving never panics on a buffer of \<open>MAX_TRANS_UNIT\<close> bytes, keeps its
  length and reports a length within it, and the operations the dispatcher calls keep the driver's invariant.
\<close>

locale radio_driver =
  fixes rd :: "'r radio"
    and inv :: "'r \<Rightarrow> bool"
  assumes recv_ok: "inv r \<Longrightarrow> length buf = MAX_TRANS_UNIT \<Longrightarrow>
      \<exists>res buf' r'. rd_recv rd buf r = Some (res, buf', r') \<and> length buf' = MAX_TRANS_UNIT \<and> inv r' \<and>
        (\<forall>rr. res = Inr rr \<longrightarrow> rr_len rr \<le> MAX_TRANS_UNIT)"
    and send_inv: "inv r \<Longrightarrow> inv (snd (rd_send rd data r))"
    and channel_active_inv: "inv r \<Longrightarrow> inv (snd (rd_channel_active rd r))"

section \<open>The software clock\<close>

record VolatileRtcClock =
  base_epoch :: u32
  base_instant :: instant
  last_unique :: u32

definition VolatileRtcClock_new :: "instant \<Rightarrow> u32 \<Rightarrow> VolatileRtcClock" where
  "VolatileRtcClock_new now initial_epoch =
     \<lparr>base_epoch = initial_epoch, base_instant = now, last_unique = 0\<rparr>"

text \<open>\<open>self.base_instant.elapsed()\<close> panics when the clock went backwards.\<close>

definition rtc_get_time :: "time_api \<Rightarrow> instant \<Rightarrow> VolatileRtcClock \<Rightarrow> u32 option" where
  "rtc_get_time tm now c = do {
     elapsed \<leftarrow> inst_sub tm now (base_instant c);
     let elapsed_secs = dur_as_secs tm elapsed;
     Some (saturating_add (base_epoch c) (ucast elapsed_secs))
   }"

definition rtc_set_time :: "instant \<Rightarrow> u32 \<Rightarrow> VolatileRtcClock \<Rightarrow> VolatileRtcClock" where
  "rtc_set_time now epoch_secs c = c\<lparr>base_epoch := epoch_secs, base_instant := now\<rparr>"

definition rtc_get_time_unique :: "time_api \<Rightarrow> instant \<Rightarrow> VolatileRtcClock \<Rightarrow> (u32 \<times> VolatileRtcClock) option" where
  "rtc_get_time_unique tm now c = do {
     t \<leftarrow> rtc_get_time tm now c;
     let unique = (if t > last_unique c then t else last_unique c + 1);
     Some (unique, c\<lparr>last_unique := unique\<rparr>)
   }"

text \<open>The other operation on the clock between two unique readings: \<open>set_time\<close> at an instant.\<close>

definition rtc_touch :: "instant \<times> u32 \<Rightarrow> VolatileRtcClock \<Rightarrow> VolatileRtcClock" where
  "rtc_touch = (\<lambda>(now, epoch) c. rtc_set_time now epoch c)"

interpretation rtc: unique_clock "rtc_get_time_unique tm" rtc_touch last_unique
  for tm
  by unfold_locales
    (auto simp: rtc_get_time_unique_def rtc_touch_def rtc_set_time_def bind_eq_Some_conv Let_def word_less_succ split: if_splits)

section \<open>Properties\<close>

text \<open>
  C36: Successive unique readings of the software clock are strictly increasing, so no two are equal, whatever the time
  does in between (several readings in a second, the clock set back or forward), as long as the largest 32-bit
  value has not been handed out before the last of them.
\<close>
theorem rtc_unique_increasing:
  assumes "clock_run (rtc_get_time_unique tm) rtc_touch evs c = Some (vs, c')"
    and "- 1 \<notin> set (butlast (last_unique c # vs))"
  shows "sorted_wrt (<) (last_unique c # vs) \<and> distinct vs"
  using rtc.run_increasing [OF assms] rtc.run_distinct [OF assms] by blast

lemma rtc_unique_increasing_witness:
  "clock_run (rtc_get_time_unique ms_time) rtc_touch [Inl 5000, Inl 5500, Inr (5600, 3), Inl 6000]
     (VolatileRtcClock_new 0 100) = Some ([105, 106, 107], \<lparr>base_epoch = 3, base_instant = 5600, last_unique = 107\<rparr>) \<and>
   distinct [105, 106, 107 :: u32]"
proof -
  have r: "clock_run (rtc_get_time_unique ms_time) rtc_touch [Inl 5000, Inl 5500, Inr (5600, 3), Inl 6000]
     (VolatileRtcClock_new 0 100) = Some ([105, 106, 107], \<lparr>base_epoch = 3, base_instant = 5600, last_unique = 107\<rparr>)"
    by (simp add: rtc_get_time_unique_def rtc_get_time_def rtc_touch_def rtc_set_time_def VolatileRtcClock_new_def saturating_add_def Let_def)
  from rtc_unique_increasing [OF r] r show ?thesis by simp
qed

text \<open>At the end of the 32-bit epoch the promise fails: the value wraps to zero and the largest value comes again.\<close>

lemma rtc_unique_repeats_at_the_end:
  "\<exists>c'. clock_run (rtc_get_time_unique ms_time) rtc_touch [Inl 0, Inl 0, Inl 0] (VolatileRtcClock_new 0 (- 1)) =
    Some ([- 1, 0, - 1], c')"
proof -
  have "(0 :: u32) < - 1" by (simp add: word_less_nat_alt unsigned_minus_1_eq_mask mask_eq_exp_minus_1)
  then show ?thesis
    by (simp add: rtc_get_time_unique_def rtc_get_time_def VolatileRtcClock_new_def Let_def)
qed

end
