(* ===== verification/Sx1262.thy ===== *)
theory Sx1262
  imports Radio
begin

text \<open>
  \<open>crates/meshcore-radio/src/sx1262.rs\<close>: the driver over \<open>lora_phy\<close>, a third-party crate whose \<open>LoRa\<close> object is a record
  parameter of state-passing operations; its errors are all discarded by the driver, so they are \<open>unit\<close>.
\<close>

section \<open>The parameter lora-phy\<close>

datatype Bandwidth = BW_7KHz | BW_10KHz | BW_15KHz | BW_20KHz | BW_31KHz | BW_41KHz | BW_62KHz | BW_125KHz | BW_250KHz | BW_500KHz

datatype SpreadingFactor = SF_5 | SF_6 | SF_7 | SF_8 | SF_9 | SF_10 | SF_11 | SF_12

datatype CodingRate = CR_4_5 | CR_4_6 | CR_4_7 | CR_4_8

datatype RxMode = Continuous

record ('l, 'm, 'p) lora =
  create_modulation_params :: "SpreadingFactor \<Rightarrow> Bandwidth \<Rightarrow> CodingRate \<Rightarrow> u32 \<Rightarrow> 'l \<Rightarrow> (unit + 'm) \<times> 'l"
  create_tx_packet_params :: "u16 \<Rightarrow> bool \<Rightarrow> bool \<Rightarrow> bool \<Rightarrow> 'm \<Rightarrow> 'l \<Rightarrow> (unit + 'p) \<times> 'l"
  create_rx_packet_params :: "u16 \<Rightarrow> bool \<Rightarrow> u8 \<Rightarrow> bool \<Rightarrow> bool \<Rightarrow> 'm \<Rightarrow> 'l \<Rightarrow> (unit + 'p) \<times> 'l"
  prepare_for_tx :: "'m \<Rightarrow> 'p \<Rightarrow> int \<Rightarrow> u8 list \<Rightarrow> 'l \<Rightarrow> (unit + unit) \<times> 'p \<times> 'l"
  lora_tx :: "'l \<Rightarrow> (unit + unit) \<times> 'l"
  prepare_for_rx :: "RxMode \<Rightarrow> 'm \<Rightarrow> 'p \<Rightarrow> 'l \<Rightarrow> (unit + unit) \<times> 'l"
  lora_rx :: "'p \<Rightarrow> u8 list \<Rightarrow> 'l \<Rightarrow> (unit + u8 \<times> 16 word \<times> 16 word) \<times> u8 list \<times> 'l"
  prepare_for_cad :: "'m \<Rightarrow> 'l \<Rightarrow> (unit + unit) \<times> 'l"
  lora_cad :: "'m \<Rightarrow> 'l \<Rightarrow> (unit + bool) \<times> 'l"
  lora_sleep :: "bool \<Rightarrow> 'l \<Rightarrow> (unit + unit) \<times> 'l"
  enter_standby :: "'l \<Rightarrow> (unit + unit) \<times> 'l"

section \<open>Conversions\<close>

definition to_bandwidth :: "f32 \<Rightarrow> Bandwidth" where
  "to_bandwidth bw_khz =
     (if f32_le bw_khz (f32_lit 79 10) then BW_7KHz
      else if f32_le bw_khz (f32_lit 105 10) then BW_10KHz
      else if f32_le bw_khz (f32_lit 157 10) then BW_15KHz
      else if f32_le bw_khz (f32_lit 209 10) then BW_20KHz
      else if f32_le bw_khz (f32_lit 313 10) then BW_31KHz
      else if f32_le bw_khz (f32_lit 417 10) then BW_41KHz
      else if f32_le bw_khz (f32_lit 626 10) then BW_62KHz
      else if f32_le bw_khz (f32_lit 1251 10) then BW_125KHz
      else if f32_le bw_khz (f32_lit 2501 10) then BW_250KHz
      else BW_500KHz)"

definition to_spreading_factor :: "u8 \<Rightarrow> SpreadingFactor" where
  "to_spreading_factor sf =
     (if sf = 5 then SF_5 else if sf = 6 then SF_6 else if sf = 7 then SF_7 else if sf = 9 then SF_9
      else if sf = 10 then SF_10 else if sf = 11 then SF_11 else if sf = 12 then SF_12 else SF_8)"

definition to_coding_rate :: "u8 \<Rightarrow> CodingRate" where
  "to_coding_rate cr = (if cr = 6 then CR_4_6 else if cr = 7 then CR_4_7 else if cr = 8 then CR_4_8 else CR_4_5)"

section \<open>The driver\<close>

record ('l, 'm, 'p) Sx1262Radio =
  sx_lora :: 'l
  sx_config :: RadioConfig
  sx_modulation :: "'m option"
  sx_tx_pkt_params :: "'p option"
  sx_rx_pkt_params :: "'p option"

definition Sx1262Radio_new :: "'l \<Rightarrow> ('l, 'm, 'p) Sx1262Radio" where
  "Sx1262Radio_new l = \<lparr>sx_lora = l, sx_config = RadioConfig_default, sx_modulation = None,
     sx_tx_pkt_params = None, sx_rx_pkt_params = None\<rparr>"

definition sx_configure ::
    "('l, 'm, 'p) lora \<Rightarrow> RadioConfig \<Rightarrow> ('l, 'm, 'p) Sx1262Radio \<Rightarrow> (RadioError + unit) \<times> ('l, 'm, 'p) Sx1262Radio" where
  "sx_configure lr config r =
     (let r = r\<lparr>sx_config := config\<rparr>;
          freq_hz = f32_as_u32 (f32_mul (frequency_mhz config) (f32_lit 1000000 1));
          sf = to_spreading_factor (spreading_factor config);
          bw = to_bandwidth (bandwidth_khz config);
          cr = to_coding_rate (coding_rate config)
      in case create_modulation_params lr sf bw cr freq_hz (sx_lora r) of
           (Inl _, l) \<Rightarrow> (Inl ConfigError, r\<lparr>sx_lora := l\<rparr>)
         | (Inr modulation, l) \<Rightarrow>
             let preamble = preamble_symbols config
             in case create_tx_packet_params lr preamble False True False modulation l of
                  (Inl _, l) \<Rightarrow> (Inl ConfigError, r\<lparr>sx_lora := l\<rparr>)
                | (Inr tx_pkt_params, l) \<Rightarrow>
                    (case create_rx_packet_params lr preamble False (of_nat MAX_TRANS_UNIT) True False modulation l of
                       (Inl _, l) \<Rightarrow> (Inl ConfigError, r\<lparr>sx_lora := l\<rparr>)
                     | (Inr rx_pkt_params, l) \<Rightarrow>
                         (Inr (), r\<lparr>sx_lora := l, sx_modulation := Some modulation,
                            sx_tx_pkt_params := Some tx_pkt_params, sx_rx_pkt_params := Some rx_pkt_params\<rparr>)))"

definition sx_send ::
    "('l, 'm, 'p) lora \<Rightarrow> u8 list \<Rightarrow> ('l, 'm, 'p) Sx1262Radio \<Rightarrow> (RadioError + unit) \<times> ('l, 'm, 'p) Sx1262Radio" where
  "sx_send lr data r =
     (case sx_modulation r of
        None \<Rightarrow> (Inl InvalidState, r)
      | Some modulation \<Rightarrow>
          (case sx_tx_pkt_params r of
             None \<Rightarrow> (Inl InvalidState, r)
           | Some tx_params \<Rightarrow>
               (case prepare_for_tx lr modulation tx_params (sint (tx_power (sx_config r))) data (sx_lora r) of
                  (Inl _, tx_params, l) \<Rightarrow> (Inl SendFailed, r\<lparr>sx_tx_pkt_params := Some tx_params, sx_lora := l\<rparr>)
                | (Inr _, tx_params, l) \<Rightarrow>
                    (case lora_tx lr l of
                       (Inl _, l) \<Rightarrow> (Inl SendFailed, r\<lparr>sx_tx_pkt_params := Some tx_params, sx_lora := l\<rparr>)
                     | (Inr _, l) \<Rightarrow> (Inr (), r\<lparr>sx_tx_pkt_params := Some tx_params, sx_lora := l\<rparr>)))))"

definition sx_recv ::
    "('l, 'm, 'p) lora \<Rightarrow> u8 list \<Rightarrow> ('l, 'm, 'p) Sx1262Radio \<Rightarrow>
      ((RadioError + RecvResult) \<times> u8 list \<times> ('l, 'm, 'p) Sx1262Radio) option" where
  "sx_recv lr buf r =
     Some (case sx_modulation r of
        None \<Rightarrow> (Inl InvalidState, buf, r)
      | Some modulation \<Rightarrow>
          (case sx_rx_pkt_params r of
             None \<Rightarrow> (Inl InvalidState, buf, r)
           | Some rx_params \<Rightarrow>
               (case prepare_for_rx lr Continuous modulation rx_params (sx_lora r) of
                  (Inl _, l) \<Rightarrow> (Inl RecvFailed, buf, r\<lparr>sx_lora := l\<rparr>)
                | (Inr _, l) \<Rightarrow>
                    (case lora_rx lr rx_params buf l of
                       (Inl _, buf, l) \<Rightarrow> (Inl RecvFailed, buf, r\<lparr>sx_lora := l\<rparr>)
                     | (Inr (len, rssi, s), buf, l) \<Rightarrow>
                         (Inr \<lparr>rr_len = unat len, rr_rssi = f32_of_int (sint rssi), rr_snr = f32_of_int (sint s)\<rparr>,
                          buf, r\<lparr>sx_lora := l\<rparr>)))))"

definition sx_channel_active ::
    "('l, 'm, 'p) lora \<Rightarrow> ('l, 'm, 'p) Sx1262Radio \<Rightarrow> (RadioError + bool) \<times> ('l, 'm, 'p) Sx1262Radio" where
  "sx_channel_active lr r =
     (case sx_modulation r of
        None \<Rightarrow> (Inl InvalidState, r)
      | Some modulation \<Rightarrow>
          (case prepare_for_cad lr modulation (sx_lora r) of
             (Inl _, l) \<Rightarrow> (Inl RecvFailed, r\<lparr>sx_lora := l\<rparr>)
           | (Inr _, l) \<Rightarrow>
               (case lora_cad lr modulation l of
                  (Inl _, l) \<Rightarrow> (Inl RecvFailed, r\<lparr>sx_lora := l\<rparr>)
                | (Inr active, l) \<Rightarrow> (Inr active, r\<lparr>sx_lora := l\<rparr>))))"

definition sx_sleep :: "('l, 'm, 'p) lora \<Rightarrow> ('l, 'm, 'p) Sx1262Radio \<Rightarrow> (RadioError + unit) \<times> ('l, 'm, 'p) Sx1262Radio" where
  "sx_sleep lr r =
     (case lora_sleep lr True (sx_lora r) of
        (Inl _, l) \<Rightarrow> (Inl InvalidState, r\<lparr>sx_lora := l\<rparr>)
      | (Inr _, l) \<Rightarrow> (Inr (), r\<lparr>sx_lora := l\<rparr>))"

definition sx_standby :: "('l, 'm, 'p) lora \<Rightarrow> ('l, 'm, 'p) Sx1262Radio \<Rightarrow> (RadioError + unit) \<times> ('l, 'm, 'p) Sx1262Radio" where
  "sx_standby lr r =
     (case enter_standby lr (sx_lora r) of
        (Inl _, l) \<Rightarrow> (Inl InvalidState, r\<lparr>sx_lora := l\<rparr>)
      | (Inr _, l) \<Rightarrow> (Inr (), r\<lparr>sx_lora := l\<rparr>))"

section \<open>Airtime\<close>

definition div_ceil_u32 :: "u32 \<Rightarrow> u32 \<Rightarrow> u32" where
  "div_ceil_u32 a b = (if a mod b = 0 then a div b else a div b + 1)"

text \<open>
  All arithmetic is on 32-bit words and wraps, as in a release build; the shift amount of \<open>1u32 << sf\<close> is taken modulo 32 there.
\<close>

definition sx_estimate_airtime_ms :: "('l, 'm, 'p) Sx1262Radio \<Rightarrow> nat \<Rightarrow> u32" where
  "sx_estimate_airtime_ms r len =
     (let sf = ucast (spreading_factor (sx_config r)) :: u32;
          bw_hz = f32_as_u32 (f32_mul (bandwidth_khz (sx_config r)) (f32_lit 1000 1))
      in if bw_hz = 0 then 0
         else
           let symbol_duration_us = push_bit (unat sf mod 32) 1 * 1000000 div bw_hz;
               preamble_symbols = 8 + 4;
               payload_symbols =
                 (let payload_bits = of_nat len * 8;
                      sf_bits = sf * 4;
                      cr = ucast (coding_rate (sx_config r))
                  in if sf_bits = 0 then 0
                     else
                       let numerator = saturating_sub payload_bits sf_bits + 28 + 16;
                           symbols = div_ceil_u32 numerator sf_bits
                       in 8 + symbols * cr);
               total_symbols = preamble_symbols + payload_symbols
           in (total_symbols * symbol_duration_us + 500) div 1000)"

definition sx1262_radio :: "('l, 'm, 'p) lora \<Rightarrow> ('l, 'm, 'p) Sx1262Radio radio" where
  "sx1262_radio lr = \<lparr>rd_configure = sx_configure lr, rd_send = sx_send lr, rd_recv = sx_recv lr,
     rd_channel_active = sx_channel_active lr, rd_estimate_airtime_ms = sx_estimate_airtime_ms,
     rd_sleep = sx_sleep lr, rd_standby = sx_standby lr\<rparr>"

section \<open>The contract of a driver\<close>

text \<open>The buffer handed to \<open>LoRa::rx\<close> is a mutable slice, so it keeps its length.\<close>

definition lora_ok :: "('l, 'm, 'p) lora \<Rightarrow> bool" where
  "lora_ok lr \<longleftrightarrow> (\<forall>p buf l. length (fst (snd (lora_rx lr p buf l))) = length buf)"

lemma unat_u8_le: "unat (w :: u8) \<le> MAX_TRANS_UNIT"
  using unsigned_less [of w, where ?'a = nat] by (simp add: MAX_TRANS_UNIT_def)

lemma sx_recv_ok:
  assumes "lora_ok lr" "length buf = MAX_TRANS_UNIT"
  shows "\<exists>res buf' r'. sx_recv lr buf r = Some (res, buf', r') \<and> length buf' = MAX_TRANS_UNIT \<and>
    (\<forall>rr. res = Inr rr \<longrightarrow> rr_len rr \<le> MAX_TRANS_UNIT)"
proof -
  have l: "lora_rx lr p buf l = (res, buf', l') \<Longrightarrow> length buf' = MAX_TRANS_UNIT" for p l res buf' l'
    using assms unfolding lora_ok_def by (metis fst_conv snd_conv)
  show ?thesis
    by (auto simp: sx_recv_def assms(2) unat_u8_le dest: l split: option.split prod.split sum.split)
qed

interpretation sx: radio_driver "sx1262_radio lr" "\<lambda>_. lora_ok lr" for lr
  by unfold_locales (use sx_recv_ok in \<open>auto simp: sx1262_radio_def\<close>)

section \<open>Airtime without wrap-around\<close>

definition symbol_us :: "nat \<Rightarrow> nat \<Rightarrow> nat" where
  "symbol_us sf bw_hz = 2 ^ sf * 1000000 div bw_hz"

definition airtime_ms :: "nat \<Rightarrow> nat \<Rightarrow> nat \<Rightarrow> nat \<Rightarrow> nat" where
  "airtime_ms sf bw_hz cr len =
     ((12 + (8 + (8 * len - 4 * sf + 44 + (4 * sf - 1)) div (4 * sf) * cr)) * symbol_us sf bw_hz + 500) div 1000"

lemma div_ceil_nat:
  assumes "0 < b" shows "(a + (b - 1)) div b = (if a mod b = 0 then a div b else a div b + 1 :: nat)"
proof -
  have b: "(b - 1) div b = 0" "(b - 1) mod b = b - 1" using assms by simp_all
  have "(a + (b - 1)) div b = a div b + (a mod b + (b - 1)) div b"
    using div_add1_eq [of a "b - 1" b] b by simp
  moreover have "(a mod b + (b - 1)) div b = (if a mod b = 0 then 0 else 1)"
  proof (cases "a mod b = 0")
    case False
    have "a mod b < b" using assms by simp
    with False assms have "(a mod b + (b - 1)) div b = Suc ((a mod b - 1) div b)" "(a mod b - 1) div b = 0"
      by (auto simp: le_div_geq)
    with False show ?thesis by simp
  qed (use b in simp)
  ultimately show ?thesis by simp
qed

lemma unat_div_ceil_u32:
  assumes "b \<noteq> 0" "unat a + unat b < 2 ^ 32"
  shows "unat (div_ceil_u32 a b) = (unat a + (unat b - 1)) div unat b"
proof -
  have b: "0 < unat b" using assms(1) by (simp add: unat_gt_0)
  have z: "a mod b = 0 \<longleftrightarrow> unat a mod unat b = 0" by (simp add: unat_mod [symmetric] unat_eq_zero)
  have "unat a div unat b \<le> unat a" by simp
  then have "unat a div unat b + 1 < 2 ^ 32" using assms(2) b by linarith
  then have "unat (a div b + 1) = unat a div unat b + 1" by (simp add: unat_word_ariths unat_div)
  then show ?thesis
    unfolding div_ceil_nat [OF b] by (simp add: div_ceil_u32_def z unat_div)
qed

definition bw_hz_of :: "RadioConfig \<Rightarrow> nat" where
  "bw_hz_of config = unat (f32_as_u32 (f32_mul (bandwidth_khz config) (f32_lit 1000 1)))"

definition airtime_config :: "RadioConfig \<Rightarrow> bool" where
  "airtime_config config \<longleftrightarrow> 5 \<le> unat (spreading_factor config) \<and> unat (spreading_factor config) \<le> 12 \<and>
     unat (coding_rate config) \<le> 8 \<and> 7000 \<le> bw_hz_of config"

lemma unat_ucast_u8 [simp]: "unat (ucast (w :: u8) :: u32) = unat w"
  using unsigned_less [of w, where ?'a = nat] by (simp add: unsigned_ucast_eq take_bit_nat_eq_self)

lemma unat_mult_small: "unat a * unat b < 2 ^ 32 \<Longrightarrow> unat (a * b :: u32) = unat a * unat b"
  by (simp add: unat_word_ariths)

lemma unat_add_small: "unat a + unat b < 2 ^ 32 \<Longrightarrow> unat (a + b :: u32) = unat a + unat b"
  by (simp add: unat_word_ariths)

lemma symbol_us_word:
  assumes "unat sf \<le> 12"
  shows "unat (push_bit (unat sf mod 32) 1 * 1000000 div bw :: u32) = symbol_us (unat sf) (unat bw)"
proof -
  have m: "unat sf mod 32 = unat sf" using assms by simp
  have "(2 :: nat) ^ unat sf \<le> 2 ^ 12" using assms by (intro power_increasing) simp_all
  moreover from this have "unat (push_bit (unat sf) 1 :: u32) = 2 ^ unat sf"
  proof -
    have "push_bit (unat sf) 1 = (of_nat (2 ^ unat sf) :: u32)" by simp
    then have "unat (push_bit (unat sf) 1 :: u32) = take_bit 32 (2 ^ unat sf)" by (simp only: unsigned_of_nat) simp
    also have "\<dots> = 2 ^ unat sf" using \<open>(2 :: nat) ^ unat sf \<le> 2 ^ 12\<close> by (intro take_bit_nat_eq_self) simp
    finally show ?thesis .
  qed
  ultimately have "unat (push_bit (unat sf) 1 * 1000000 :: u32) = 2 ^ unat sf * 1000000"
    by (subst unat_mult_small) simp_all
  then show ?thesis unfolding m by (simp add: unat_div symbol_us_def)
qed

lemma symbol_us_le: "sf \<le> 12 \<Longrightarrow> 7000 \<le> bw \<Longrightarrow> symbol_us sf bw \<le> 585142"
proof -
  assume a: "sf \<le> 12" "7000 \<le> bw"
  have "(2 :: nat) ^ sf \<le> 2 ^ 12" using a by (intro power_increasing) simp_all
  then have "2 ^ sf * 1000000 div bw \<le> 4096000000 div bw" by (intro div_le_mono) simp
  also have "\<dots> \<le> 4096000000 div 7000" using a by (intro div_le_mono2) simp_all
  finally show ?thesis by (simp add: symbol_us_def)
qed

lemma payload_symbols_word:
  assumes "5 \<le> unat sf" "unat sf \<le> 12" "len \<le> 255"
  shows "unat (div_ceil_u32 (saturating_sub (of_nat len * 8) (sf * 4) + 28 + 16) (sf * 4) :: u32) =
    (8 * len - 4 * unat sf + 44 + (4 * unat sf - 1)) div (4 * unat sf) \<and>
    (8 * len - 4 * unat sf + 44 + (4 * unat sf - 1)) div (4 * unat sf) \<le> 106"
proof -
  have s: "unat (sf * 4) = 4 * unat sf" using assms by (subst unat_mult_small) simp_all
  have l: "unat (of_nat len * 8 :: u32) = 8 * len"
    using assms by (subst unat_mult_small) (simp_all add: unsigned_of_nat take_bit_nat_eq_self)
  let ?n = "saturating_sub (of_nat len * 8) (sf * 4) + 28 + 16"
  have n: "unat ?n = 8 * len - 4 * unat sf + 44"
    using assms by (simp add: add.assoc unat_saturating_sub s l unat_add_small)
  have nz: "sf * 4 \<noteq> 0" using s assms by (metis mult_is_0 not_numeral_le_zero unat_0 zero_neq_numeral)
  have "8 * len - 4 * unat sf + 44 + 4 * unat sf < 2 ^ 32" using assms by simp
  with unat_div_ceil_u32 [OF nz, of ?n]
  have "unat (div_ceil_u32 ?n (sf * 4)) = (8 * len - 4 * unat sf + 44 + (4 * unat sf - 1)) div (4 * unat sf)"
    unfolding n s by blast
  moreover have "(8 * len - 4 * unat sf + 44 + (4 * unat sf - 1)) div (4 * unat sf) \<le> 2131 div (4 * unat sf)"
    using assms by (intro div_le_mono) arith
  moreover have "2131 div (4 * unat sf) \<le> 2131 div 20" using assms by (intro div_le_mono2) simp_all
  ultimately show ?thesis by simp
qed

lemma airtime_total:
  assumes "t \<le> 868" "u \<le> 585142"
  shows "t * u + 500 < (2 :: nat) ^ 32"
proof -
  have "t * u \<le> 868 * 585142" using assms by (intro mult_le_mono)
  then show ?thesis by simp
qed

lemma div1000: "unat (x :: u32) = n \<Longrightarrow> unat (x div 1000) = n div 1000"
  by (simp add: unat_div)

lemma sx_airtime_word:
  assumes "airtime_config (sx_config r)" "len \<le> 255"
  shows "unat (sx_estimate_airtime_ms r len) =
    airtime_ms (unat (spreading_factor (sx_config r))) (bw_hz_of (sx_config r)) (unat (coding_rate (sx_config r))) len"
proof -
  let ?sf = "ucast (spreading_factor (sx_config r)) :: u32" and ?cr = "ucast (coding_rate (sx_config r)) :: u32"
  let ?bw = "f32_as_u32 (f32_mul (bandwidth_khz (sx_config r)) (f32_lit 1000 1))"
  let ?sy = "div_ceil_u32 (saturating_sub (of_nat len * 8) (?sf * 4) + 28 + 16) (?sf * 4)"
  let ?us = "push_bit (unat ?sf mod 32) 1 * 1000000 div ?bw"
  from assms(1) have a: "5 \<le> unat ?sf" "unat ?sf \<le> 12" "unat ?cr \<le> 8" "7000 \<le> unat ?bw"
    by (simp_all add: airtime_config_def bw_hz_of_def)
  have bw: "?bw \<noteq> 0" using a(4) by (metis not_numeral_le_zero unat_0)
  have "unat (?sf * 4) = 4 * unat ?sf" using a by (subst unat_mult_small) simp_all
  then have sf: "?sf * 4 \<noteq> 0" using a by (metis mult_is_0 not_numeral_le_zero unat_0 zero_neq_numeral)
  have us: "unat ?us = symbol_us (unat ?sf) (unat ?bw)" "unat ?us \<le> 585142"
    using symbol_us_word [OF a(2)] symbol_us_le [OF a(2,4)] by simp_all
  have sy: "unat ?sy = (8 * len - 4 * unat ?sf + 44 + (4 * unat ?sf - 1)) div (4 * unat ?sf)" "unat ?sy \<le> 106"
    using payload_symbols_word [OF a(1,2) assms(2)] by simp_all
  have "unat ?sy * unat ?cr \<le> 106 * 8" using sy(2) a(3) by (intro mult_le_mono)
  then have m: "unat (?sy * ?cr) = unat ?sy * unat ?cr" "unat ?sy * unat ?cr \<le> 848"
    by (simp_all add: unat_mult_small)
  then have t: "unat (8 + 4 + (8 + ?sy * ?cr)) = 12 + (8 + unat ?sy * unat ?cr)"
    by (simp add: unat_add_small add.assoc)
  have lt: "(12 + (8 + unat ?sy * unat ?cr)) * unat ?us + 500 < 2 ^ 32"
    by (rule airtime_total) (use m(2) us(2) in simp_all)
  then have "unat ((8 + 4 + (8 + ?sy * ?cr)) * ?us) = (12 + (8 + unat ?sy * unat ?cr)) * unat ?us"
    using t by (subst unat_mult_small) simp_all
  then have "unat ((8 + 4 + (8 + ?sy * ?cr)) * ?us + 500) = (12 + (8 + unat ?sy * unat ?cr)) * unat ?us + 500"
    using lt by (subst unat_add_small) simp_all
  from div1000 [OF this] have "unat (((8 + 4 + (8 + ?sy * ?cr)) * ?us + 500) div 1000) =
      airtime_ms (unat ?sf) (unat ?bw) (unat ?cr) len"
    unfolding airtime_ms_def us(1) sy(1) .
  then show ?thesis
    using bw sf by (simp add: sx_estimate_airtime_ms_def Let_def bw_hz_of_def)
qed

section \<open>Properties\<close>

definition sample_sx :: "(unit, unit, unit) Sx1262Radio" where
  "sample_sx = Sx1262Radio_new ()"

lemma sample_sx_bw: "bw_hz_of (sx_config sample_sx) = 62500"
proof -
  have "f32_as_u32 (f32_mul (f32_lit 625 10) (f32_lit 1000 1)) = 62500" by code_simp
  then show ?thesis by (simp add: bw_hz_of_def sample_sx_def Sx1262Radio_new_def RadioConfig_default_def)
qed

text \<open>
  C37: For every LoRa setting (spreading factor 5 to 12, coding rate up to 4/8, at least 7 kHz of bandwidth) and every packet of at most 255 bytes
  the airtime estimate is the exact value of its formula over the natural numbers: no shift, product or sum of the 32-bit arithmetic wraps; and a
  longer packet never gets a smaller estimate.
\<close>
theorem sx_airtime_exact_and_monotone:
  assumes "airtime_config (sx_config r)" "m \<le> n" "n \<le> 255"
  shows "unat (sx_estimate_airtime_ms r n) =
      airtime_ms (unat (spreading_factor (sx_config r))) (bw_hz_of (sx_config r)) (unat (coding_rate (sx_config r))) n \<and>
    sx_estimate_airtime_ms r m \<le> sx_estimate_airtime_ms r n"
proof -
  let ?a = "airtime_ms (unat (spreading_factor (sx_config r))) (bw_hz_of (sx_config r)) (unat (coding_rate (sx_config r)))"
  have "?a m \<le> ?a n"
    unfolding airtime_ms_def using assms(2)
    by (intro div_le_mono add_le_mono mult_le_mono order.refl diff_le_mono) simp_all
  moreover have "m \<le> 255" using assms by simp
  ultimately show ?thesis
    using sx_airtime_word [OF assms(1)] assms(3) by (simp add: word_le_nat_alt)
qed

lemma sx_airtime_exact_and_monotone_witness:
  "unat (sx_estimate_airtime_ms sample_sx 100) = 614 \<and> sx_estimate_airtime_ms sample_sx 50 \<le> sx_estimate_airtime_ms sample_sx 100"
proof -
  have c: "airtime_config (sx_config sample_sx)"
    by (simp add: airtime_config_def sample_sx_bw) (simp add: sample_sx_def Sx1262Radio_new_def RadioConfig_default_def)
  show ?thesis
    using sx_airtime_exact_and_monotone [OF c, of 50 100]
    by (simp add: sample_sx_bw) (simp add: sample_sx_def Sx1262Radio_new_def RadioConfig_default_def airtime_ms_def symbol_us_def)
qed

text \<open>A transceiver that works but for the receive parameters, which it refuses.\<close>

definition toy_lora :: "(unit, unit, unit) lora" where
  "toy_lora = \<lparr>
     create_modulation_params = (\<lambda>_ _ _ _ l. (Inr (), l)),
     create_tx_packet_params = (\<lambda>_ _ _ _ _ l. (Inr (), l)),
     create_rx_packet_params = (\<lambda>_ _ _ _ _ _ l. (Inl (), l)),
     prepare_for_tx = (\<lambda>_ p _ _ l. (Inr (), p, l)),
     lora_tx = (\<lambda>l. (Inr (), l)),
     prepare_for_rx = (\<lambda>_ _ _ l. (Inr (), l)),
     lora_rx = (\<lambda>_ buf l. (Inr (3, - 80, 5), buf, l)),
     prepare_for_cad = (\<lambda>_ l. (Inr (), l)),
     lora_cad = (\<lambda>_ l. (Inr False, l)),
     lora_sleep = (\<lambda>_ l. (Inr (), l)),
     enter_standby = (\<lambda>l. (Inr (), l))\<rparr>"

lemma toy_lora_ok: "lora_ok toy_lora"
  by (simp add: lora_ok_def toy_lora_def)

end
