(* ===== verification/Sx1262_States.thy ===== *)
theory Sx1262_States
  imports Sx1262
begin

text \<open>
  What the driver of \<open>crates/meshcore-radio/src/sx1262.rs\<close> makes the transceiver do, over any sequence of its operations: which of them work before, between and after
  configurations that succeed or fail, and with which settings.
\<close>

section \<open>The transceiver with a log\<close>

text \<open>The calls of \<open>lora_phy\<close> with their arguments, and what it reports.\<close>

datatype ('m, 'p) lora_call =
    MakeModulation SpreadingFactor Bandwidth CodingRate u32
  | MakeTxParams u16 bool bool bool 'm
  | MakeRxParams u16 bool u8 bool bool 'm
  | PrepareTx 'm 'p int "u8 list"
  | StartTx
  | PrepareRx RxMode 'm 'p
  | StartRx 'p
  | Reported u8 "16 word" "16 word" "u8 list"
  | PrepareCad 'm
  | StartCad 'm
  | Sensed bool
  | GoSleep bool
  | GoStandby

type_synonym ('m, 'p) lora_log = "(('m, 'p) lora_call \<times> bool) list"

text \<open>Any transceiver, with a log of its calls and their success.\<close>

definition noted :: "('m, 'p) lora_call \<Rightarrow> ('m, 'p) lora_log \<Rightarrow> (unit + 'a) \<times> 'l \<Rightarrow> (unit + 'a) \<times> 'l \<times> ('m, 'p) lora_log" where
  "noted c log x = (fst x, snd x, log @ [(c, \<not> isl (fst x))])"

definition logged :: "('l, 'm, 'p) lora \<Rightarrow> ('l \<times> ('m, 'p) lora_log, 'm, 'p) lora" where
  "logged lr = \<lparr>
     create_modulation_params = (\<lambda>sf bw cr f (l, log). noted (MakeModulation sf bw cr f) log (create_modulation_params lr sf bw cr f l)),
     create_tx_packet_params = (\<lambda>n a b c m (l, log). noted (MakeTxParams n a b c m) log (create_tx_packet_params lr n a b c m l)),
     create_rx_packet_params = (\<lambda>n a k b c m (l, log). noted (MakeRxParams n a k b c m) log (create_rx_packet_params lr n a k b c m l)),
     prepare_for_tx = (\<lambda>m p pow data (l, log). case prepare_for_tx lr m p pow data l of
       (res, p', l') \<Rightarrow> (res, p', l', log @ [(PrepareTx m p pow data, \<not> isl res)])),
     lora_tx = (\<lambda>(l, log). noted StartTx log (lora_tx lr l)),
     prepare_for_rx = (\<lambda>mode m p (l, log). noted (PrepareRx mode m p) log (prepare_for_rx lr mode m p l)),
     lora_rx = (\<lambda>p buf (l, log). case lora_rx lr p buf l of
       (Inl e, buf', l') \<Rightarrow> (Inl e, buf', l', log @ [(StartRx p, False)])
     | (Inr (len, rssi, s), buf', l') \<Rightarrow> (Inr (len, rssi, s), buf', l', log @ [(StartRx p, True), (Reported len rssi s buf', True)])),
     prepare_for_cad = (\<lambda>m (l, log). noted (PrepareCad m) log (prepare_for_cad lr m l)),
     lora_cad = (\<lambda>m (l, log). case lora_cad lr m l of
       (Inl e, l') \<Rightarrow> (Inl e, l', log @ [(StartCad m, False)])
     | (Inr a, l') \<Rightarrow> (Inr a, l', log @ [(StartCad m, True), (Sensed a, True)])),
     lora_sleep = (\<lambda>warm (l, log). noted (GoSleep warm) log (lora_sleep lr warm l)),
     enter_standby = (\<lambda>(l, log). noted GoStandby log (enter_standby lr l))\<rparr>"

text \<open>A log of calls that are made in order until one of them fails, or all of them have succeeded.\<close>

fun attempt :: "('m, 'p) lora_call list \<Rightarrow> ('m, 'p) lora_log \<Rightarrow> bool \<Rightarrow> bool" where
  "attempt [] log ok = (log = [] \<and> ok)"
| "attempt (c # cs) [] ok = False"
| "attempt (c # cs) ((d, True) # log) ok = (d = c \<and> attempt cs log ok)"
| "attempt (c # cs) ((d, False) # log) ok = (d = c \<and> log = [] \<and> \<not> ok)"

text \<open>
  The parameters are functions of the settings: that is documented for the modulation and the receive parameters; preparing a transmission sets the length in the
  transmit parameters and nothing else (\<open>form\<close> is everything else in them).
\<close>

record ('m, 'p, 'k) lora_params =
  modulation_of :: "SpreadingFactor \<Rightarrow> Bandwidth \<Rightarrow> CodingRate \<Rightarrow> u32 \<Rightarrow> 'm"
  form :: "'p \<Rightarrow> 'k"
  tx_form :: "u16 \<Rightarrow> bool \<Rightarrow> bool \<Rightarrow> bool \<Rightarrow> 'm \<Rightarrow> 'k"
  rx_params_of :: "u16 \<Rightarrow> bool \<Rightarrow> u8 \<Rightarrow> bool \<Rightarrow> bool \<Rightarrow> 'm \<Rightarrow> 'p"

definition params_ok :: "('l, 'm, 'p) lora \<Rightarrow> ('m, 'p, 'k) lora_params \<Rightarrow> bool" where
  "params_ok lr ps \<longleftrightarrow>
     (\<forall>sf bw cr f l m. fst (create_modulation_params lr sf bw cr f l) = Inr m \<longrightarrow> m = modulation_of ps sf bw cr f) \<and>
     (\<forall>n a b c m l p. fst (create_tx_packet_params lr n a b c m l) = Inr p \<longrightarrow> form ps p = tx_form ps n a b c m) \<and>
     (\<forall>n a k b c m l p. fst (create_rx_packet_params lr n a k b c m l) = Inr p \<longrightarrow> p = rx_params_of ps n a k b c m) \<and>
     (\<forall>m p pow data l. form ps (fst (snd (prepare_for_tx lr m p pow data l))) = form ps p)"

lemma params_okD:
  assumes "params_ok lr ps"
  shows "create_modulation_params lr sf bw cr f l = (Inr m, l') \<Longrightarrow> m = modulation_of ps sf bw cr f"
    and "create_tx_packet_params lr n a b c m l = (Inr p, l') \<Longrightarrow> form ps p = tx_form ps n a b c m"
    and "create_rx_packet_params lr n a k b c m l = (Inr p, l') \<Longrightarrow> p = rx_params_of ps n a k b c m"
    and "prepare_for_tx lr m p pow data l = (res, p', l') \<Longrightarrow> form ps p' = form ps p"
  using assms unfolding params_ok_def by (metis fst_conv snd_conv)+

lemma params_ok_modulation:
  "params_ok lr ps \<Longrightarrow> fst (create_modulation_params lr sf bw cr f l) = Inr m \<Longrightarrow> m = modulation_of ps sf bw cr f"
  by (simp add: params_ok_def)

text \<open>The parameters of a configuration.\<close>

definition the_modulation :: "('m, 'p, 'k) lora_params \<Rightarrow> RadioConfig \<Rightarrow> 'm" where
  "the_modulation ps c = modulation_of ps (to_spreading_factor (spreading_factor c)) (to_bandwidth (bandwidth_khz c))
     (to_coding_rate (coding_rate c)) (f32_as_u32 (f32_mul (frequency_mhz c) (f32_lit 1000000 1)))"

definition the_tx_form :: "('m, 'p, 'k) lora_params \<Rightarrow> RadioConfig \<Rightarrow> 'k" where
  "the_tx_form ps c = tx_form ps (preamble_symbols c) False True False (the_modulation ps c)"

definition the_rx_params :: "('m, 'p, 'k) lora_params \<Rightarrow> RadioConfig \<Rightarrow> 'p" where
  "the_rx_params ps c = rx_params_of ps (preamble_symbols c) False 255 True False (the_modulation ps c)"

section \<open>Sequences of operations\<close>

datatype sx_op = Configure RadioConfig | Send "u8 list" | Recv "u8 list" | Sense | Sleep | Standby

text \<open>An operation, and whether it succeeded.\<close>

fun sx_do :: "('l, 'm, 'p) lora \<Rightarrow> sx_op \<Rightarrow> ('l, 'm, 'p) Sx1262Radio \<Rightarrow> bool \<times> ('l, 'm, 'p) Sx1262Radio" where
  "sx_do lr (Configure c) r = map_prod (\<lambda>x. \<not> isl x) id (sx_configure lr c r)"
| "sx_do lr (Send data) r = map_prod (\<lambda>x. \<not> isl x) id (sx_send lr data r)"
| "sx_do lr (Recv buf) r = (case sx_recv lr buf r of None \<Rightarrow> (False, r) | Some (res, buf, r) \<Rightarrow> (\<not> isl res, r))"
| "sx_do lr Sense r = map_prod (\<lambda>x. \<not> isl x) id (sx_channel_active lr r)"
| "sx_do lr Sleep r = map_prod (\<lambda>x. \<not> isl x) id (sx_sleep lr r)"
| "sx_do lr Standby r = map_prod (\<lambda>x. \<not> isl x) id (sx_standby lr r)"

fun sx_run :: "('l, 'm, 'p) lora \<Rightarrow> sx_op list \<Rightarrow> ('l, 'm, 'p) Sx1262Radio \<Rightarrow> bool list \<times> ('l, 'm, 'p) Sx1262Radio" where
  "sx_run lr [] r = ([], r)"
| "sx_run lr (x # xs) r = (let (ok, r) = sx_do lr x r; (oks, r) = sx_run lr xs r in (ok # oks, r))"

text \<open>The settings that were last asked for, and those of the last configuration that succeeded.\<close>

fun requested :: "RadioConfig \<Rightarrow> sx_op list \<Rightarrow> RadioConfig" where
  "requested c [] = c"
| "requested c (x # xs) = requested (case x of Configure d \<Rightarrow> d | _ \<Rightarrow> c) xs"

fun configured :: "RadioConfig option \<Rightarrow> (sx_op \<times> bool) list \<Rightarrow> RadioConfig option" where
  "configured c [] = c"
| "configured c ((x, ok) # xs) = configured (case x of Configure d \<Rightarrow> if ok then Some d else c | _ \<Rightarrow> c) xs"

text \<open>The parameters the driver stores are those of the last configuration that succeeded.\<close>

definition holds_params :: "('m, 'p, 'k) lora_params \<Rightarrow> RadioConfig option \<Rightarrow> ('l, 'm, 'p) Sx1262Radio \<Rightarrow> bool" where
  "holds_params ps c r \<longleftrightarrow>
     sx_modulation r = map_option (the_modulation ps) c \<and>
     map_option (form ps) (sx_tx_pkt_params r) = map_option (the_tx_form ps) c \<and>
     sx_rx_pkt_params r = map_option (the_rx_params ps) c"

lemma logged_params_ok: "params_ok lr ps \<Longrightarrow> params_ok (logged lr) ps"
  by (auto simp: params_ok_def logged_def noted_def split: prod.split) (metis fst_conv snd_conv)

lemma sx_configure_params:
  assumes "params_ok lr ps" "holds_params ps c r" "sx_configure lr d r = (res, r')"
  shows "holds_params ps (if isl res then c else Some d) r' \<and> sx_config r' = d"
  using assms(2,3) params_okD(1-3) [OF assms(1)]
  by (auto simp: sx_configure_def holds_params_def Let_def the_modulation_def the_tx_form_def the_rx_params_def MAX_TRANS_UNIT_def
      split: prod.splits sum.splits)

lemma sx_send_params:
  assumes "params_ok lr ps" "holds_params ps c r" "sx_send lr data r = (res, r')"
  shows "holds_params ps c r' \<and> sx_config r' = sx_config r"
  using assms(2,3) params_okD(4) [OF assms(1)]
  by (auto simp: sx_send_def holds_params_def split: prod.splits sum.splits option.splits)

lemma sx_do_params:
  assumes "params_ok lr ps" "holds_params ps c r" "sx_do lr x r = (ok, r')"
  shows "holds_params ps (configured c [(x, ok)]) r' \<and> sx_config r' = requested (sx_config r) [x]"
proof (cases x)
  case (Configure d)
  with assms(3) obtain res where "sx_configure lr d r = (res, r')" "ok = (\<not> isl res)" by (cases "sx_configure lr d r") auto
  with sx_configure_params [OF assms(1,2) this(1)] Configure show ?thesis by (cases ok) simp_all
next
  case (Send data)
  with assms(3) obtain res where "sx_send lr data r = (res, r')" by (cases "sx_send lr data r") auto
  with sx_send_params [OF assms(1,2)] Send show ?thesis by auto
qed (use assms(2,3) in \<open>auto simp: sx_recv_def sx_channel_active_def sx_sleep_def sx_standby_def holds_params_def
    split: prod.splits sum.splits option.splits\<close>)

lemma configured_Cons: "configured c (x # xs) = configured (configured c [x]) xs"
  by (cases x) simp

lemma sx_run_params:
  assumes "params_ok lr ps" "holds_params ps c r" "sx_run lr xs r = (oks, r')"
  shows "holds_params ps (configured c (zip xs oks)) r' \<and> sx_config r' = requested (sx_config r) xs"
  using assms(2,3)
proof (induction xs arbitrary: c r oks)
  case (Cons x xs)
  obtain ok r1 where x: "sx_do lr x r = (ok, r1)" by fastforce
  with Cons.prems(2) obtain oks1 where "sx_run lr xs r1 = (oks1, r')" "oks = ok # oks1"
    by (auto simp: Let_def split: prod.splits)
  with Cons.IH [of "configured c [(x, ok)]" r1 oks1] sx_do_params [OF assms(1) Cons.prems(1) x] show ?case
    by (simp add: configured_Cons [of c "(x, ok)" "zip xs oks1"] del: configured.simps(2))
qed simp

section \<open>What an operation makes the transceiver do\<close>

abbreviation log_of :: "('l \<times> ('m, 'p) lora_log, 'm, 'p) Sx1262Radio \<Rightarrow> ('m, 'p) lora_log" where
  "log_of r \<equiv> snd (sx_lora r)"

text \<open>Without a configuration: nothing.\<close>

definition refuses :: "('l, 'm, 'p) lora \<Rightarrow> ('l, 'm, 'p) Sx1262Radio \<Rightarrow> bool" where
  "refuses lr r \<longleftrightarrow> (\<forall>data buf. sx_send lr data r = (Inl InvalidState, r) \<and> sx_recv lr buf r = Some (Inl InvalidState, buf, r) \<and>
     sx_channel_active lr r = (Inl InvalidState, r))"

text \<open>
  With the parameters of the configuration \<open>c\<close> and the power \<open>pow\<close>: exactly the calls it takes, with those parameters, the first failure ending the operation; what the
  transceiver reports is what the operation returns.
\<close>

definition sends :: "('l, 'm, 'p) lora \<Rightarrow> ('m, 'p, 'k) lora_params \<Rightarrow> RadioConfig \<Rightarrow> int \<Rightarrow> ('l \<times> ('m, 'p) lora_log, 'm, 'p) Sx1262Radio \<Rightarrow> bool" where
  "sends lr ps c pow r \<longleftrightarrow> (\<forall>data. \<exists>p calls res r'. sx_send (logged lr) data r = (res, r') \<and> log_of r' = log_of r @ calls \<and>
     form ps p = the_tx_form ps c \<and> attempt [PrepareTx (the_modulation ps c) p pow data, StartTx] calls (\<not> isl res) \<and>
     res \<in> {Inr (), Inl SendFailed})"

definition receives :: "('l, 'm, 'p) lora \<Rightarrow> ('m, 'p, 'k) lora_params \<Rightarrow> RadioConfig \<Rightarrow> ('l \<times> ('m, 'p) lora_log, 'm, 'p) Sx1262Radio \<Rightarrow> bool" where
  "receives lr ps c r \<longleftrightarrow> (\<forall>buf. \<exists>len rssi s buf' calls res r'. sx_recv (logged lr) buf r = Some (res, buf', r') \<and> log_of r' = log_of r @ calls \<and>
     attempt [PrepareRx Continuous (the_modulation ps c) (the_rx_params ps c), StartRx (the_rx_params ps c), Reported len rssi s buf'] calls (\<not> isl res) \<and>
     res \<in> {Inr \<lparr>rr_len = unat len, rr_rssi = f32_of_int (sint rssi), rr_snr = f32_of_int (sint s)\<rparr>, Inl RecvFailed})"

definition senses :: "('l, 'm, 'p) lora \<Rightarrow> ('m, 'p, 'k) lora_params \<Rightarrow> RadioConfig \<Rightarrow> ('l \<times> ('m, 'p) lora_log, 'm, 'p) Sx1262Radio \<Rightarrow> bool" where
  "senses lr ps c r \<longleftrightarrow> (\<exists>a calls res r'. sx_channel_active (logged lr) r = (res, r') \<and> log_of r' = log_of r @ calls \<and>
     attempt [PrepareCad (the_modulation ps c), StartCad (the_modulation ps c), Sensed a] calls (\<not> isl res) \<and> res \<in> {Inr a, Inl RecvFailed})"

text \<open>In every state: configuring, sleeping and waking up.\<close>

definition manages :: "('l, 'm, 'p) lora \<Rightarrow> ('m, 'p, 'k) lora_params \<Rightarrow> ('l \<times> ('m, 'p) lora_log, 'm, 'p) Sx1262Radio \<Rightarrow> bool" where
  "manages lr ps r \<longleftrightarrow>
     (\<forall>c. \<exists>calls res r'. sx_configure (logged lr) c r = (res, r') \<and> log_of r' = log_of r @ calls \<and>
       attempt [MakeModulation (to_spreading_factor (spreading_factor c)) (to_bandwidth (bandwidth_khz c)) (to_coding_rate (coding_rate c))
           (f32_as_u32 (f32_mul (frequency_mhz c) (f32_lit 1000000 1))),
         MakeTxParams (preamble_symbols c) False True False (the_modulation ps c),
         MakeRxParams (preamble_symbols c) False 255 True False (the_modulation ps c)] calls (\<not> isl res) \<and> res \<in> {Inr (), Inl ConfigError}) \<and>
     (\<exists>calls res r'. sx_sleep (logged lr) r = (res, r') \<and> log_of r' = log_of r @ calls \<and>
       attempt [GoSleep True] calls (\<not> isl res) \<and> res \<in> {Inr (), Inl InvalidState}) \<and>
     (\<exists>calls res r'. sx_standby (logged lr) r = (res, r') \<and> log_of r' = log_of r @ calls \<and>
       attempt [GoStandby] calls (\<not> isl res) \<and> res \<in> {Inr (), Inl InvalidState})"

lemma sends_configured:
  assumes "holds_params ps (Some c) r"
  shows "sends lr ps c (sint (tx_power (sx_config r))) r"
  using assms
  by (auto simp: sends_def holds_params_def sx_send_def logged_def noted_def split: prod.split sum.split)

lemma receives_configured:
  assumes "holds_params ps (Some c) r"
  shows "receives lr ps c r"
  using assms
  by (auto simp: receives_def holds_params_def sx_recv_def logged_def noted_def split: prod.split sum.split)

lemma senses_configured:
  assumes "holds_params ps (Some c) r"
  shows "senses lr ps c r"
  using assms
  by (auto simp: senses_def holds_params_def sx_channel_active_def logged_def noted_def split: prod.split sum.split)

lemma manages_always:
  assumes "params_ok lr ps"
  shows "manages lr ps r"
  using params_ok_modulation [OF assms]
  by (auto simp: manages_def sx_configure_def sx_sleep_def sx_standby_def logged_def noted_def the_modulation_def MAX_TRANS_UNIT_def Let_def
      split: prod.split sum.split)

section \<open>Properties\<close>

text \<open>
  C38: The driver after any sequence of operations on a new one, whichever of them the transceiver let fail. If no configuration has succeeded, sending, receiving and
  sensing return \<open>InvalidState\<close> and touch nothing. Once one has, each of them makes the transceiver do exactly what it takes, with the parameters of the
  last configuration that succeeded: it returns what the transceiver reports if all of its calls succeed, and ends with the error of the operation at the first that
  does not. Configuring, sleeping and waking up work in every state. The stored settings, with the power that is sent with, are those of the last configuration that was asked
  for, even if it failed.
\<close>
theorem sx_configuration_states:
  assumes "params_ok lr ps" "sx_run (logged lr) ops (Sx1262Radio_new (l, [])) = (oks, r)"
  shows "sx_config r = requested RadioConfig_default ops \<and> manages lr ps r \<and>
    (case configured None (zip ops oks) of
       None \<Rightarrow> refuses (logged lr) r
     | Some c \<Rightarrow> sends lr ps c (sint (tx_power (requested RadioConfig_default ops))) r \<and> receives lr ps c r \<and> senses lr ps c r)"
proof -
  have "holds_params ps None (Sx1262Radio_new (l, []))" by (simp add: holds_params_def Sx1262Radio_new_def)
  from sx_run_params [OF logged_params_ok [OF assms(1)] this assms(2)]
  have h: "holds_params ps (configured None (zip ops oks)) r" and c: "sx_config r = requested RadioConfig_default ops"
    by (simp_all add: Sx1262Radio_new_def)
  show ?thesis
  proof (cases "configured None (zip ops oks)")
    case None
    with h have "refuses (logged lr) r" by (simp add: refuses_def holds_params_def sx_send_def sx_recv_def sx_channel_active_def)
    with None c manages_always [OF assms(1)] show ?thesis by simp
  next
    case (Some d)
    with h show ?thesis
      using c sends_configured [of ps d r lr] receives_configured [of ps d r lr] senses_configured [of ps d r lr] manages_always [OF assms(1)] by simp
  qed
qed

text \<open>
  A transceiver that takes one configuration, the default one, and refuses any other: after a second configuration with another preamble the parameters are still those of
  the first, and the settings are those of the second.
\<close>

definition picky_lora :: "(unit, unit, u16) lora" where
  "picky_lora = \<lparr>
     create_modulation_params = (\<lambda>_ _ _ _ l. (Inr (), l)),
     create_tx_packet_params = (\<lambda>n _ _ _ _ l. (if n = 16 then Inr n else Inl (), l)),
     create_rx_packet_params = (\<lambda>n _ _ _ _ _ l. (Inr n, l)),
     prepare_for_tx = (\<lambda>_ p _ _ l. (Inr (), p, l)),
     lora_tx = (\<lambda>l. (Inr (), l)),
     prepare_for_rx = (\<lambda>_ _ _ l. (Inr (), l)),
     lora_rx = (\<lambda>_ buf l. (Inr (3, - 80, 5), buf, l)),
     prepare_for_cad = (\<lambda>_ l. (Inr (), l)),
     lora_cad = (\<lambda>_ l. (Inr False, l)),
     lora_sleep = (\<lambda>_ l. (Inr (), l)),
     enter_standby = (\<lambda>l. (Inr (), l))\<rparr>"

definition picky_params :: "(unit, u16, u16) lora_params" where
  "picky_params = \<lparr>modulation_of = (\<lambda>_ _ _ _. ()), form = (\<lambda>p. p), tx_form = (\<lambda>n _ _ _ _. n), rx_params_of = (\<lambda>n _ _ _ _ _. n)\<rparr>"

lemma picky_params_ok: "params_ok picky_lora picky_params"
  by (simp add: params_ok_def picky_lora_def picky_params_def)

lemma sx_configuration_states_witness:
  "\<exists>r calls res r'. sx_run (logged picky_lora) [Configure RadioConfig_default, Configure (RadioConfig_default\<lparr>preamble_symbols := 8, tx_power := 5\<rparr>)]
      (Sx1262Radio_new ((), [])) = ([True, False], r) \<and> sx_config r = RadioConfig_default\<lparr>preamble_symbols := 8, tx_power := 5\<rparr> \<and>
    sx_send (logged picky_lora) [1, 2] r = (res, r') \<and> log_of r' = log_of r @ calls \<and>
    attempt [PrepareTx () 16 5 [1, 2], StartTx] calls (\<not> isl res)"
proof -
  let ?d = "RadioConfig_default" and ?e = "RadioConfig_default\<lparr>preamble_symbols := 8, tx_power := 5\<rparr>"
  obtain r where r: "sx_run (logged picky_lora) [Configure ?d, Configure ?e] (Sx1262Radio_new ((), [])) = ([True, False], r)"
    by (simp add: Sx1262Radio_new_def sx_configure_def logged_def noted_def picky_lora_def RadioConfig_default_def Let_def)
  from sx_configuration_states [OF picky_params_ok r] have c: "sx_config r = ?e" and "sends picky_lora picky_params ?d 5 r" by simp_all
  then obtain p calls res r' where x: "sx_send (logged picky_lora) [1, 2] r = (res, r')" "log_of r' = log_of r @ calls"
    "form picky_params p = the_tx_form picky_params ?d" "attempt [PrepareTx (the_modulation picky_params ?d) p 5 [1, 2], StartTx] calls (\<not> isl res)"
    unfolding sends_def by blast
  from x(3) have "p = 16" by (simp add: the_tx_form_def picky_params_def RadioConfig_default_def)
  with r c x(1,2,4) show ?thesis by (intro exI [of _ r] exI [of _ calls] exI [of _ res] exI [of _ r']) simp
qed

end
