(* ===== verification/Mock.thy ===== *)
theory Mock
  imports Radio
begin

text \<open>
  \<open>crates/meshcore-radio/src/mock.rs\<close>: the mock radio, generator and clock the host tests run on. The queues
  are \<open>heapless::Deque\<close>s of capacity 16 of \<open>heapless::Vec\<close>s of capacity \<open>MAX_TRANS_UNIT\<close>; \<open>push_back\<close> and \<open>pop_front\<close> of the third-party
  deque are a parameter.
\<close>

section \<open>The deque\<close>

record 'a deque =
  dq_push_back :: "nat \<Rightarrow> 'a list \<Rightarrow> 'a \<Rightarrow> 'a + 'a list"
  dq_pop_front :: "'a list \<Rightarrow> ('a \<times> 'a list) option"

definition deque_ok :: "'a deque \<Rightarrow> bool" where
  "deque_ok dq \<longleftrightarrow>
     (\<forall>n xs x. dq_push_back dq n xs x = (if length xs < n then Inr (xs @ [x]) else Inl x)) \<and>
     (\<forall>xs. dq_pop_front dq xs = (case xs of [] \<Rightarrow> None | x # ys \<Rightarrow> Some (x, ys)))"

definition list_deque :: "'a deque" where
  "list_deque = \<lparr>dq_push_back = (\<lambda>n xs x. if length xs < n then Inr (xs @ [x]) else Inl x),
     dq_pop_front = (\<lambda>xs. case xs of [] \<Rightarrow> None | x # ys \<Rightarrow> Some (x, ys))\<rparr>"

lemma list_deque_ok [simp, intro]: "deque_ok list_deque"
  by (simp add: deque_ok_def list_deque_def)

lemma deque_okD [simp]:
  assumes "deque_ok dq"
  shows "dq_push_back dq n xs x = (if length xs < n then Inr (xs @ [x]) else Inl x)"
    and "dq_pop_front dq xs = (case xs of [] \<Rightarrow> None | x # ys \<Rightarrow> Some (x, ys))"
  using assms by (auto simp: deque_ok_def)

text \<open>The containers a mock radio is built on.\<close>

record containers =
  ct_bytes :: "u8 heapless"
  ct_sent :: "u8 list deque"
  ct_recv :: "(u8 list \<times> f32 \<times> f32) deque"

definition containers_ok :: "containers \<Rightarrow> bool" where
  "containers_ok ct \<longleftrightarrow> heapless_ok (ct_bytes ct) \<and> deque_ok (ct_sent ct) \<and> deque_ok (ct_recv ct)"

definition list_containers :: containers where
  "list_containers = \<lparr>ct_bytes = list_heapless, ct_sent = list_deque, ct_recv = list_deque\<rparr>"

lemma list_containers_ok [simp, intro]: "containers_ok list_containers"
  by (simp add: containers_ok_def list_containers_def)

section \<open>MockRadio\<close>

record MockRadio =
  mk_sent :: "u8 list list"
  mk_recv_queue :: "(u8 list \<times> f32 \<times> f32) list"
  mk_config :: "RadioConfig option"
  mk_sleeping :: bool

definition MockRadio_new :: MockRadio where
  "MockRadio_new = \<lparr>mk_sent = [], mk_recv_queue = [], mk_config = None, mk_sleeping = False\<rparr>"

definition push_recv :: "containers \<Rightarrow> u8 list \<Rightarrow> f32 \<Rightarrow> f32 \<Rightarrow> MockRadio \<Rightarrow> MockRadio" where
  "push_recv ct data rssi s r =
     (let v = (case hv_extend_from_slice (ct_bytes ct) MAX_TRANS_UNIT [] data of Inl _ \<Rightarrow> [] | Inr v \<Rightarrow> v)
      in case dq_push_back (ct_recv ct) 16 (mk_recv_queue r) (v, rssi, s) of
           Inl _ \<Rightarrow> r
         | Inr q \<Rightarrow> r\<lparr>mk_recv_queue := q\<rparr>)"

definition pop_sent :: "containers \<Rightarrow> MockRadio \<Rightarrow> u8 list option \<times> MockRadio" where
  "pop_sent ct r =
     (case dq_pop_front (ct_sent ct) (mk_sent r) of
        None \<Rightarrow> (None, r)
      | Some (v, q) \<Rightarrow> (Some v, r\<lparr>mk_sent := q\<rparr>))"

definition sent_count :: "MockRadio \<Rightarrow> nat" where
  "sent_count r = length (mk_sent r)"

definition is_configured :: "MockRadio \<Rightarrow> bool" where
  "is_configured r \<longleftrightarrow> mk_config r \<noteq> None"

definition is_sleeping :: "MockRadio \<Rightarrow> bool" where
  "is_sleeping r \<longleftrightarrow> mk_sleeping r"

definition mock_configure :: "RadioConfig \<Rightarrow> MockRadio \<Rightarrow> (RadioError + unit) \<times> MockRadio" where
  "mock_configure config r = (Inr (), r\<lparr>mk_config := Some config, mk_sleeping := False\<rparr>)"

definition mock_send :: "containers \<Rightarrow> u8 list \<Rightarrow> MockRadio \<Rightarrow> (RadioError + unit) \<times> MockRadio" where
  "mock_send ct data r =
     (if mk_sleeping r then (Inl InvalidState, r)
      else case hv_extend_from_slice (ct_bytes ct) MAX_TRANS_UNIT [] data of
        Inl _ \<Rightarrow> (Inl SendFailed, r)
      | Inr v \<Rightarrow>
          (case dq_push_back (ct_sent ct) 16 (mk_sent r) v of
             Inl _ \<Rightarrow> (Inl SendFailed, r)
           | Inr q \<Rightarrow> (Inr (), r\<lparr>mk_sent := q\<rparr>)))"

definition mock_recv ::
    "containers \<Rightarrow> u8 list \<Rightarrow> MockRadio \<Rightarrow> ((RadioError + RecvResult) \<times> u8 list \<times> MockRadio) option" where
  "mock_recv ct buf r =
     (case dq_pop_front (ct_recv ct) (mk_recv_queue r) of
        None \<Rightarrow> Some (Inl RecvFailed, buf, r)
      | Some ((data, rssi, s), q) \<Rightarrow> do {
          let len = length data;
          buf \<leftarrow> copy_at buf 0 len data;
          Some (Inr \<lparr>rr_len = len, rr_rssi = rssi, rr_snr = s\<rparr>, buf, r\<lparr>mk_recv_queue := q\<rparr>)
        })"

definition mock_channel_active :: "MockRadio \<Rightarrow> (RadioError + bool) \<times> MockRadio" where
  "mock_channel_active r = (Inr False, r)"

definition mock_estimate_airtime_ms :: "MockRadio \<Rightarrow> nat \<Rightarrow> u32" where
  "mock_estimate_airtime_ms r len = of_nat len * 2"

definition mock_sleep :: "MockRadio \<Rightarrow> (RadioError + unit) \<times> MockRadio" where
  "mock_sleep r = (Inr (), r\<lparr>mk_sleeping := True\<rparr>)"

definition mock_standby :: "MockRadio \<Rightarrow> (RadioError + unit) \<times> MockRadio" where
  "mock_standby r = (Inr (), r\<lparr>mk_sleeping := False\<rparr>)"

definition mock_radio :: "containers \<Rightarrow> MockRadio radio" where
  "mock_radio ct = \<lparr>rd_configure = mock_configure, rd_send = mock_send ct, rd_recv = mock_recv ct,
     rd_channel_active = mock_channel_active, rd_estimate_airtime_ms = mock_estimate_airtime_ms,
     rd_sleep = mock_sleep, rd_standby = mock_standby\<rparr>"

section \<open>MockRng\<close>

record MockRng =
  seed :: u8

definition MockRng_new :: "u8 \<Rightarrow> MockRng" where
  "MockRng_new s = \<lparr>seed = s\<rparr>"

fun mock_random :: "nat \<Rightarrow> MockRng \<Rightarrow> u8 list \<times> MockRng" where
  "mock_random 0 g = ([], g)"
| "mock_random (Suc n) g =
     (let byte = seed g; (bs, g) = mock_random n (g\<lparr>seed := seed g + 1\<rparr>) in (byte # bs, g))"

section \<open>MockRtcClock\<close>

record MockRtcClock =
  mrtc_time :: u32
  mrtc_last_unique :: u32

definition MockRtcClock_new :: "u32 \<Rightarrow> MockRtcClock" where
  "MockRtcClock_new initial_time = \<lparr>mrtc_time = initial_time, mrtc_last_unique = 0\<rparr>"

definition mrtc_advance :: "u32 \<Rightarrow> MockRtcClock \<Rightarrow> MockRtcClock" where
  "mrtc_advance seconds c = c\<lparr>mrtc_time := mrtc_time c + seconds\<rparr>"

definition mrtc_get_time :: "MockRtcClock \<Rightarrow> u32" where
  "mrtc_get_time c = mrtc_time c"

definition mrtc_set_time :: "u32 \<Rightarrow> MockRtcClock \<Rightarrow> MockRtcClock" where
  "mrtc_set_time epoch_secs c = c\<lparr>mrtc_time := epoch_secs\<rparr>"

definition mrtc_get_time_unique :: "MockRtcClock \<Rightarrow> u32 \<times> MockRtcClock" where
  "mrtc_get_time_unique c =
     (let t = mrtc_get_time c;
          c = (if t \<le> mrtc_last_unique c then c\<lparr>mrtc_last_unique := mrtc_last_unique c + 1\<rparr>
               else c\<lparr>mrtc_last_unique := t\<rparr>)
      in (mrtc_last_unique c, c))"

text \<open>The other operations on the clock: \<open>advance\<close> and \<open>set_time\<close>.\<close>

definition mrtc_touch :: "u32 + u32 \<Rightarrow> MockRtcClock \<Rightarrow> MockRtcClock" where
  "mrtc_touch x c = (case x of Inl seconds \<Rightarrow> mrtc_advance seconds c | Inr t \<Rightarrow> mrtc_set_time t c)"

section \<open>The contracts\<close>

interpretation mock_rng: random_source mock_random
proof
  show "length (fst (mock_random n g)) = n" for n g
    by (induction n arbitrary: g) (simp_all add: Let_def split_beta)
qed

interpretation mock_rtc: unique_clock "\<lambda>(_ :: unit) c. Some (mrtc_get_time_unique c)" mrtc_touch mrtc_last_unique
  by unfold_locales
    (auto simp: mrtc_get_time_unique_def mrtc_touch_def mrtc_advance_def mrtc_set_time_def Let_def word_less_succ
      not_le split: sum.splits if_splits)

definition mock_ok :: "MockRadio \<Rightarrow> bool" where
  "mock_ok r \<longleftrightarrow> length (mk_sent r) \<le> 16 \<and> length (mk_recv_queue r) \<le> 16 \<and>
     (\<forall>v \<in> set (mk_sent r). length v \<le> MAX_TRANS_UNIT) \<and>
     (\<forall>(v, rssi, s) \<in> set (mk_recv_queue r). length v \<le> MAX_TRANS_UNIT)"

lemma mock_ok_new: "mock_ok MockRadio_new"
  by (simp add: mock_ok_def MockRadio_new_def)

lemma mock_ok_push: "containers_ok ct \<Longrightarrow> mock_ok r \<Longrightarrow> mock_ok (push_recv ct data rssi s r)"
  by (auto simp: mock_ok_def push_recv_def containers_ok_def Let_def split: sum.splits if_splits)

lemma mock_ok_send: "containers_ok ct \<Longrightarrow> mock_ok r \<Longrightarrow> mock_ok (snd (mock_send ct data r))"
  by (auto simp: mock_ok_def mock_send_def containers_ok_def split: sum.splits if_splits)

lemma mock_recv_eq:
  assumes "containers_ok ct" "mock_ok r" "length buf = MAX_TRANS_UNIT"
  shows "mock_recv ct buf r =
    (case mk_recv_queue r of
       [] \<Rightarrow> Some (Inl RecvFailed, buf, r)
     | (v, rssi, s) # q \<Rightarrow> Some (Inr \<lparr>rr_len = length v, rr_rssi = rssi, rr_snr = s\<rparr>,
         v @ drop (length v) buf, r\<lparr>mk_recv_queue := q\<rparr>))"
  using assms by (auto simp: mock_recv_def mock_ok_def containers_ok_def copy_at_def Let_def split: list.split)

section \<open>Properties\<close>

text \<open>
  The mock radio is a loss-free first-in first-out channel within its capacity: a packet of at most 255 bytes loaded into a queue with room is received, byte
  for byte and with its signal readings, after those loaded before it, into the front of the buffer; a sent packet of that size is
  popped after those sent before it; nothing panics.
\<close>
theorem mock_radio_is_fifo:
  assumes "containers_ok ct" "mock_ok r" "length buf = MAX_TRANS_UNIT" "length data \<le> MAX_TRANS_UNIT"
    and "length (mk_recv_queue r) < 16" "length (mk_sent r) < 16" "\<not> mk_sleeping r"
  shows "mk_recv_queue (push_recv ct data rssi s r) = mk_recv_queue r @ [(data, rssi, s)] \<and>
    mock_send ct data r = (Inr (), r\<lparr>mk_sent := mk_sent r @ [data]\<rparr>) \<and>
    (\<forall>v q. mk_sent r = v # q \<longrightarrow> pop_sent ct r = (Some v, r\<lparr>mk_sent := q\<rparr>)) \<and>
    (\<forall>v rs sn q. mk_recv_queue r = (v, rs, sn) # q \<longrightarrow>
      mock_recv ct buf r = Some (Inr \<lparr>rr_len = length v, rr_rssi = rs, rr_snr = sn\<rparr>,
        v @ drop (length v) buf, r\<lparr>mk_recv_queue := q\<rparr>)) \<and>
    mock_ok (push_recv ct data rssi s r) \<and> mock_ok (snd (mock_send ct data r))"
proof (intro conjI)
  show "mock_ok (push_recv ct data rssi s r)" "mock_ok (snd (mock_send ct data r))"
    using mock_ok_push mock_ok_send assms(1,2) by blast+
qed (use assms mock_recv_eq [OF assms(1-3)] in \<open>auto simp: push_recv_def mock_send_def pop_sent_def containers_ok_def\<close>)

lemma mock_radio_is_fifo_witness:
  "mock_send list_containers [10, 20, 30] MockRadio_new = (Inr (), MockRadio_new\<lparr>mk_sent := [[10, 20, 30]]\<rparr>)"
  using mock_radio_is_fifo [OF list_containers_ok mock_ok_new, of "replicate 255 0" "[10, 20, 30]"]
  by (simp add: MockRadio_new_def MAX_TRANS_UNIT_def)

lemma mock_ok_ops:
  "mock_ok r \<Longrightarrow> mock_ok (snd (mock_channel_active r))"
  by (simp add: mock_channel_active_def)

lemma mock_recv_ok:
  assumes "containers_ok ct \<and> mock_ok r" "length buf = MAX_TRANS_UNIT"
  shows "\<exists>res buf' r'. mock_recv ct buf r = Some (res, buf', r') \<and> length buf' = MAX_TRANS_UNIT \<and>
    (containers_ok ct \<and> mock_ok r') \<and> (\<forall>rr. res = Inr rr \<longrightarrow> rr_len rr \<le> MAX_TRANS_UNIT)"
  using assms mock_recv_eq [of ct r buf]
  by (auto simp: mock_ok_def split: list.splits)

interpretation mock: radio_driver "mock_radio ct" "\<lambda>r. containers_ok ct \<and> mock_ok r" for ct
proof
  show "containers_ok ct \<and> mock_ok (snd (rd_send (mock_radio ct) data r))" if "containers_ok ct \<and> mock_ok r" for data r
    using that mock_ok_send by (simp add: mock_radio_def)
  show "containers_ok ct \<and> mock_ok (snd (rd_channel_active (mock_radio ct) r))" if "containers_ok ct \<and> mock_ok r" for r
    using that by (simp add: mock_radio_def mock_channel_active_def)
qed (use mock_recv_ok in \<open>simp add: mock_radio_def\<close>)

end
