(* ===== verification/Dispatch_Types.thy ===== *)
theory Dispatch_Types
  imports Packet F32
begin

text \<open>
  \<open>crates/meshcore-dispatch/src/types.rs\<close>: the requests, received packets, configuration and statistics
  the dispatcher's parts share; \<open>snr_f32\<close> of \<open>packet.rs\<close> stands here because it needs \<open>f32\<close>.
\<close>

record TxRequest =
  req_packet :: Packet
  req_priority :: u8
  delay_ms :: u32

record RxPacket =
  rx_packet :: Packet
  rx_rssi :: f32
  rx_snr :: f32

record DispatcherConfig =
  airtime_budget_factor :: f32
  duty_cycle_window_ms :: u32
  min_tx_budget_reserve_ms :: u32
  cad_retry_min_ms :: u32
  cad_retry_max_ms :: u32
  cad_timeout_ms :: u32
  max_rx_delay_ms :: u32
  min_rx_delay_threshold_ms :: u32

definition DispatcherConfig_default :: DispatcherConfig where
  "DispatcherConfig_default = \<lparr>
     airtime_budget_factor = f32_lit 1 1,
     duty_cycle_window_ms = 3600000,
     min_tx_budget_reserve_ms = 100,
     cad_retry_min_ms = 120,
     cad_retry_max_ms = 480,
     cad_timeout_ms = 4000,
     max_rx_delay_ms = 32000,
     min_rx_delay_threshold_ms = 50\<rparr>"

record DispatcherStats =
  total_air_time_ms :: u32
  rx_air_time_ms :: u32
  sent_flood :: u32
  sent_direct :: u32
  recv_flood :: u32
  recv_direct :: u32

definition DispatcherStats_default :: DispatcherStats where
  "DispatcherStats_default = \<lparr>total_air_time_ms = 0, rx_air_time_ms = 0, sent_flood = 0, sent_direct = 0,
     recv_flood = 0, recv_direct = 0\<rparr>"

text \<open>The packet's SNR field is an \<open>i8\<close> in quarter decibels.\<close>

definition snr_f32 :: "Packet \<Rightarrow> f32" where
  "snr_f32 p = f32_div (f32_of_int (sint (snr p))) (f32_lit 4 1)"

end
