(* ===== verification/Tx_Queue.thy ===== *)
theory Tx_Queue
  imports Dispatch_Types Time Interfaces
begin

text \<open>
  \<open>crates/meshcore-dispatch/src/tx_queue.rs\<close>: the transmission queue. Entries are popped in the
  order of \<open>(priority, send_after)\<close> among those whose time has come; the linear scan and
  \<open>swap_remove\<close> are the code's, the contract \<open>ready_queue\<close> is what they implement.
\<close>

section \<open>Code\<close>

record TxEntry =
  te_packet :: Packet
  te_priority :: u8
  send_after :: instant

record TxQueue =
  tx_entries :: "TxEntry list"

text \<open>The tuple \<open>(priority, send_after)\<close> the code compares, ordered lexicographically as Rust does.\<close>

datatype TxKey = TxKey u8 instant

instantiation TxKey :: linorder
begin

fun less_eq_TxKey :: "TxKey \<Rightarrow> TxKey \<Rightarrow> bool" where
  "less_eq_TxKey (TxKey p t) (TxKey q u) \<longleftrightarrow> p < q \<or> p = q \<and> t \<le> u"

fun less_TxKey :: "TxKey \<Rightarrow> TxKey \<Rightarrow> bool" where
  "less_TxKey (TxKey p t) (TxKey q u) \<longleftrightarrow> p < q \<or> p = q \<and> t < u"

instance
proof
  fix x y z :: TxKey
  show "x < y \<longleftrightarrow> x \<le> y \<and> \<not> y \<le> x" by (cases x; cases y) auto
  show "x \<le> x" by (cases x) auto
  show "x \<le> y \<Longrightarrow> y \<le> z \<Longrightarrow> x \<le> z" by (cases x; cases y; cases z) auto
  show "x \<le> y \<Longrightarrow> y \<le> x \<Longrightarrow> x = y" by (cases x; cases y) auto
  show "x \<le> y \<or> y \<le> x" by (cases x; cases y) auto
qed

end

definition tx_key :: "TxEntry \<Rightarrow> TxKey" where
  "tx_key e = TxKey (te_priority e) (send_after e)"

definition TxQueue_new :: TxQueue where
  "TxQueue_new = \<lparr>tx_entries = []\<rparr>"

definition tx_len :: "TxQueue \<Rightarrow> nat" where
  "tx_len q = length (tx_entries q)"

definition tx_is_empty :: "TxQueue \<Rightarrow> bool" where
  "tx_is_empty q \<longleftrightarrow> tx_entries q = []"

definition tx_is_full :: "nat \<Rightarrow> TxQueue \<Rightarrow> bool" where
  "tx_is_full N q \<longleftrightarrow> length (tx_entries q) = N"

definition tx_clear :: "TxEntry heapless \<Rightarrow> TxQueue \<Rightarrow> TxQueue" where
  "tx_clear hv q = q\<lparr>tx_entries := hv_clear hv (tx_entries q)\<rparr>"

text \<open>\<open>now\<close> is the reading of \<open>Instant::now()\<close>; the instant addition may panic.\<close>

definition tx_push ::
    "TxEntry heapless \<Rightarrow> time_api \<Rightarrow> nat \<Rightarrow> instant \<Rightarrow> TxQueue \<Rightarrow> TxRequest \<Rightarrow> ((TxRequest + unit) \<times> TxQueue) option" where
  "tx_push hv tm N now q request =
     (if tx_is_full N q then Some (Inl request, q)
      else do {
        at \<leftarrow> inst_add tm now (dur_from_millis tm (ucast (delay_ms request)));
        let entry = \<lparr>te_packet = req_packet request, te_priority = req_priority request, send_after = at\<rparr>;
        Some (Inr (), case hv_push hv N (tx_entries q) entry of
          Inl _ \<Rightarrow> q
        | Inr es \<Rightarrow> q\<lparr>tx_entries := es\<rparr>)
      })"

definition tx_push_entry :: "TxEntry heapless \<Rightarrow> nat \<Rightarrow> TxQueue \<Rightarrow> TxEntry \<Rightarrow> (TxEntry + unit) \<times> TxQueue" where
  "tx_push_entry hv N q entry =
     (case hv_push hv N (tx_entries q) entry of
        Inl e \<Rightarrow> (Inl e, q)
      | Inr es \<Rightarrow> (Inr (), q\<lparr>tx_entries := es\<rparr>))"

text \<open>The loop of \<open>pop_ready\<close> over the entries from index \<open>i\<close> on, with the best index so far.\<close>

fun tx_scan :: "instant \<Rightarrow> TxEntry list \<Rightarrow> nat \<Rightarrow> TxEntry list \<Rightarrow> nat option \<Rightarrow> nat option option" where
  "tx_scan now es i [] best_idx = Some best_idx"
| "tx_scan now es i (entry # rest) best_idx =
     (if send_after entry > now then tx_scan now es (i + 1) rest best_idx
      else case best_idx of
        None \<Rightarrow> tx_scan now es (i + 1) rest (Some i)
      | Some bi \<Rightarrow> do {
          best \<leftarrow> idx es bi;
          if tx_key entry < tx_key best then tx_scan now es (i + 1) rest (Some i)
          else tx_scan now es (i + 1) rest best_idx
        })"

definition tx_pop_ready :: "TxEntry heapless \<Rightarrow> instant \<Rightarrow> TxQueue \<Rightarrow> (TxEntry option \<times> TxQueue) option" where
  "tx_pop_ready hv now q = do {
     best_idx \<leftarrow> tx_scan now (tx_entries q) 0 (tx_entries q) None;
     case best_idx of
       None \<Rightarrow> Some (None, q)
     | Some i \<Rightarrow> do {
         (e, es) \<leftarrow> hv_swap_remove hv (tx_entries q) i;
         Some (Some e, q\<lparr>tx_entries := es\<rparr>)
       }
   }"

definition tx_next_ready_time :: "TxQueue \<Rightarrow> instant option" where
  "tx_next_ready_time q = min_instant (map send_after (tx_entries q))"

section \<open>The queue meets the contract\<close>

definition tx_ready :: "instant \<Rightarrow> TxEntry \<Rightarrow> bool" where
  "tx_ready now e \<longleftrightarrow> send_after e \<le> now"

text \<open>What the scan knows about the first \<open>k\<close> entries.\<close>

definition tx_best :: "instant \<Rightarrow> TxEntry list \<Rightarrow> nat \<Rightarrow> nat option \<Rightarrow> bool" where
  "tx_best now es k best \<longleftrightarrow>
     (case best of
        None \<Rightarrow> \<forall>e \<in> set (take k es). \<not> tx_ready now e
      | Some b \<Rightarrow> b < k \<and> b < length es \<and> tx_ready now (es ! b) \<and>
          (\<forall>e \<in> set (take k es). tx_ready now e \<longrightarrow> tx_key (es ! b) \<le> tx_key e))"

lemma tx_best_step:
  assumes "i < length es" "tx_best now es i best"
  shows "\<not> tx_ready now (es ! i) \<Longrightarrow> tx_best now es (i + 1) best"
    and "best = None \<Longrightarrow> tx_ready now (es ! i) \<Longrightarrow> tx_best now es (i + 1) (Some i)"
    and "best = Some b \<Longrightarrow> tx_ready now (es ! i) \<Longrightarrow> tx_key (es ! i) < tx_key (es ! b) \<Longrightarrow>
      tx_best now es (i + 1) (Some i)"
    and "best = Some b \<Longrightarrow> \<not> tx_key (es ! i) < tx_key (es ! b) \<Longrightarrow> tx_best now es (i + 1) (Some b)"
  using assms by (auto simp: tx_best_def take_Suc_conv_app_nth split: option.splits)

lemma tx_scan_spec:
  assumes "drop i es = rest" "i \<le> length es" "tx_best now es i best"
  shows "\<exists>best'. tx_scan now es i rest best = Some best' \<and> tx_best now es (length es) best'"
  using assms
proof (induction rest arbitrary: i best)
  case (Cons e rest)
  note i = drop_Cons_D(1) [OF Cons.prems(1)] and e = drop_Cons_D(2) [OF Cons.prems(1)]
    and d = drop_Cons_D(3,4) [OF Cons.prems(1)]
  note step = tx_best_step [OF i Cons.prems(3)] and ih = Cons.IH [OF d]
  show ?case
  proof (cases "tx_ready now e")
    case False
    with step(1) ih show ?thesis by (simp add: e tx_ready_def not_le)
  next
    case True
    then have r: "\<not> send_after e > now" by (simp add: tx_ready_def not_less)
    show ?thesis
    proof (cases best)
      case None
      with step(2) ih True r show ?thesis by (simp add: e)
    next
      case (Some b)
      then have "b < length es" using Cons.prems(3) by (simp add: tx_best_def)
      with Some step(3,4) ih True r show ?thesis by (simp add: e)
    qed
  qed
qed simp

lemma tx_scan_best:
  obtains best where "tx_scan now es 0 es None = Some best" "tx_best now es (length es) best"
  using tx_scan_spec [of 0 es es now None] by (auto simp: tx_best_def)

lemma tx_pop_none:
  assumes "heapless_ok hv" "\<forall>e \<in> set (tx_entries q). \<not> tx_ready now e"
  shows "tx_pop_ready hv now q = Some (None, q)"
proof -
  obtain best where b: "tx_scan now (tx_entries q) 0 (tx_entries q) None = Some best"
    "tx_best now (tx_entries q) (length (tx_entries q)) best" by (rule tx_scan_best)
  with assms have "best = None" by (auto simp: tx_best_def split: option.splits)
  with b show ?thesis by (simp add: tx_pop_ready_def)
qed

lemma tx_pop_some:
  assumes "heapless_ok hv" "e \<in> set (tx_entries q)" "tx_ready now e"
  shows "\<exists>b q'. tx_pop_ready hv now q = Some (Some b, q') \<and> b \<in> set (tx_entries q) \<and> tx_ready now b \<and>
    (\<forall>f \<in> set (tx_entries q). tx_ready now f \<longrightarrow> tx_key b \<le> tx_key f) \<and>
    mset (tx_entries q') = mset (tx_entries q) - {#b#}"
proof -
  obtain best where b: "tx_scan now (tx_entries q) 0 (tx_entries q) None = Some best"
    "tx_best now (tx_entries q) (length (tx_entries q)) best" by (rule tx_scan_best)
  with assms obtain i where "best = Some i" by (auto simp: tx_best_def split: option.splits)
  with b assms(1) show ?thesis
    by (auto simp: tx_pop_ready_def tx_best_def mset_swap_remove)
qed

interpretation tx: ready_queue heapless_ok "\<lambda>q. mset (tx_entries q)" tx_key tx_ready "\<lambda>e. e" tx_pop_ready
  by unfold_locales (use tx_pop_none tx_pop_some in \<open>auto\<close>)

section \<open>Properties\<close>

definition sample_tx_queue :: TxQueue where
  "sample_tx_queue = \<lparr>tx_entries =
     [\<lparr>te_packet = Packet_new, te_priority = 2, send_after = 0\<rparr>,
      \<lparr>te_packet = Packet_new, te_priority = 1, send_after = 300\<rparr>,
      \<lparr>te_packet = Packet_new, te_priority = 1, send_after = 100\<rparr>,
      \<lparr>te_packet = Packet_new, te_priority = 0, send_after = 500\<rparr>]\<rparr>"

text \<open>
  C30: Popping until nothing is ready hands out exactly the entries whose time has come, in the order of
  \<open>(priority, send_after)\<close>, keeps exactly the others, and ends within one pop more than there are entries.
\<close>
theorem tx_queue_drains_in_order:
  assumes "heapless_ok hv"
  shows "\<exists>es q'. drain (tx_len q + 1) (tx_pop_ready hv now) q = Some (es, q') \<and> sorted (map tx_key es) \<and>
    mset es = {#e \<in># mset (tx_entries q). send_after e \<le> now#} \<and>
    mset (tx_entries q') = {#e \<in># mset (tx_entries q). now < send_after e#}"
  using tx.drain_complete [OF assms, of q "tx_len q + 1" now]
  by (simp add: tx_ready_def [abs_def] tx_len_def not_le)

lemma tx_queue_drains_in_order_witness:
  "\<exists>es q'. drain 5 (tx_pop_ready list_heapless 300) sample_tx_queue = Some (es, q') \<and> sorted (map tx_key es) \<and> length es = 3"
proof -
  have n: "tx_len sample_tx_queue + 1 = 5" by (simp add: tx_len_def sample_tx_queue_def)
  obtain es q' where "drain 5 (tx_pop_ready list_heapless 300) sample_tx_queue = Some (es, q')" "sorted (map tx_key es)"
    and m: "mset es = {#e \<in># mset (tx_entries sample_tx_queue). send_after e \<le> 300#}"
    using tx_queue_drains_in_order [OF list_heapless_ok, of sample_tx_queue 300] unfolding n by blast
  moreover have "length es = 3" using arg_cong [OF m, of size] by (simp add: sample_tx_queue_def)
  ultimately show ?thesis by blast
qed

text \<open>
  One pop: it never panics, it returns nothing and changes nothing when no entry's time has come, and otherwise
  removes one entry, whose priority is minimal among those whose time has come and whose send time is minimal among
  those of that priority.
\<close>
theorem tx_pop_ready_spec:
  assumes "heapless_ok hv"
  shows "if \<exists>e \<in> set (tx_entries q). send_after e \<le> now
    then \<exists>b q'. tx_pop_ready hv now q = Some (Some b, q') \<and> b \<in> set (tx_entries q) \<and> send_after b \<le> now \<and>
      (\<forall>e \<in> set (tx_entries q). send_after e \<le> now \<longrightarrow> te_priority b < te_priority e \<or>
        te_priority b = te_priority e \<and> send_after b \<le> send_after e) \<and>
      mset (tx_entries q) = add_mset b (mset (tx_entries q'))
    else tx_pop_ready hv now q = Some (None, q)"
proof (cases "\<exists>e \<in> set (tx_entries q). send_after e \<le> now")
  case True
  then obtain e where "e \<in> set (tx_entries q)" "tx_ready now e" by (auto simp: tx_ready_def)
  from tx_pop_some [OF assms this] True show ?thesis
    by (fastforce simp: tx_ready_def tx_key_def)
next
  case False
  with tx_pop_none [OF assms] show ?thesis by (simp add: tx_ready_def)
qed

lemma tx_pop_ready_spec_witness:
  "\<exists>b q'. tx_pop_ready list_heapless 300 sample_tx_queue = Some (Some b, q') \<and> te_priority b \<le> 1 \<and> send_after b \<le> 300"
  using tx_pop_ready_spec [OF list_heapless_ok, of sample_tx_queue 300]
  by (auto simp: sample_tx_queue_def split: if_splits)

text \<open>
  Pushing a request: a full queue hands it back unchanged; otherwise the queue gains exactly the entry of that request,
  not to be sent before now plus its delay, and stays within its capacity.
\<close>
theorem tx_push_spec:
  assumes "heapless_ok hv" "time_ok tm" "length (tx_entries q) \<le> N"
    and "unat now + unat (dur_from_millis tm (ucast (delay_ms r))) < 2 ^ 64"
  shows "\<exists>at. tx_push hv tm N now q r =
    (if length (tx_entries q) = N then Some (Inl r, q)
     else Some (Inr (), q\<lparr>tx_entries := tx_entries q @
       [\<lparr>te_packet = req_packet r, te_priority = req_priority r, send_after = at\<rparr>]\<rparr>)) \<and>
    unat at = unat now + unat (dur_from_millis tm (ucast (delay_ms r)))"
  using assms by (intro exI [of _ "now + dur_from_millis tm (ucast (delay_ms r))"])
    (simp add: tx_push_def tx_is_full_def time_okD unat_word_ariths)

lemma tx_push_spec_witness:
  "\<exists>at. tx_push list_heapless ms_time 5 1000 sample_tx_queue \<lparr>req_packet = Packet_new, req_priority = 7, delay_ms = 250\<rparr> =
    Some (Inr (), sample_tx_queue\<lparr>tx_entries := tx_entries sample_tx_queue @
      [\<lparr>te_packet = Packet_new, te_priority = 7, send_after = at\<rparr>]\<rparr>) \<and> unat at = 1250"
  using tx_push_spec [OF list_heapless_ok ms_time_ok, of sample_tx_queue 5 1000
      "\<lparr>req_packet = Packet_new, req_priority = 7, delay_ms = 250\<rparr>"]
  by (simp add: sample_tx_queue_def)

end
