(* ===== verification/Rx_Delay.thy ===== *)
theory Rx_Delay
  imports Dispatch_Types Time Interfaces
begin

text \<open>
  \<open>crates/meshcore-dispatch/src/rx_delay.rs\<close>: the delay formula for weakly received flood packets, in
  single precision as the code computes it, and the queue the delayed packets wait in.
\<close>

section \<open>The delay formula\<close>

text \<open>\<open>core::f32::consts::LN_10\<close> and \<open>core::f32::consts::E\<close>, from the decimals the library gives.\<close>

definition LN10 :: f32 where "LN10 = f32_lit 230258509299404568401799145468436421 (10 ^ 35)"
definition E_f32 :: f32 where "E_f32 = f32_lit 271828182845904523536028747135266250 (10 ^ 35)"

fun taylor_loop :: "f32 \<Rightarrow> nat \<Rightarrow> int \<Rightarrow> f32 \<Rightarrow> f32 \<Rightarrow> f32" where
  "taylor_loop f 0 i term result = result"
| "taylor_loop f (Suc n) i term result =
     (let term = f32_mul term (f32_div f (f32_of_int i));
          result = f32_add result term
      in taylor_loop f n (i + 1) term result)"

text \<open>\<open>while exp > 0\<close>: square and multiply, on a 32-bit exponent.\<close>

function squaring_loop :: "u32 \<Rightarrow> f32 \<Rightarrow> f32 \<Rightarrow> f32" where
  "squaring_loop exp base en =
     (if exp > 0 then
        let en = (if exp AND 1 \<noteq> 0 then f32_mul en base else en);
            base = f32_mul base base
        in squaring_loop (drop_bit 1 exp) base en
      else en)"
  by pat_completeness auto
termination
proof (relation "measure (\<lambda>(exp, _, _). unat exp)")
  fix exp :: u32
  assume "0 < exp"
  then have "0 < unat exp" by (simp add: word_less_nat_alt)
  moreover have "unat (drop_bit 1 exp) = unat exp div 2"
    by (simp add: drop_bit_eq_div unat_div)
  ultimately have "unat (drop_bit 1 exp) < unat exp" by simp
  then show "((drop_bit 1 exp, b, c), exp, base, en) \<in> measure (\<lambda>(exp, _, _). unat exp)"
    for b c base en :: f32 by simp
qed simp

declare squaring_loop.simps [simp del]

definition pow10_approx :: "f32 \<Rightarrow> f32" where
  "pow10_approx x =
     (let t = f32_mul x LN10 in
      if f32_lt t (f32_lit (- 20) 1) then f32_lit 0 1
      else if f32_lt (f32_lit 20 1) t then f32_max
      else
        let n = (if f32_le (f32_lit 0 1) t then f32_as_i32 t
                 else let trunc = f32_as_i32 t
                      in if f32_lt t (f32_of_int trunc) then trunc - 1 else trunc);
            f = f32_sub t (f32_of_int n);
            result = taylor_loop f 12 1 (f32_lit 1 1) (f32_lit 1 1);
            base = (if n \<ge> 0 then E_f32 else f32_div (f32_lit 1 1) E_f32);
            exp = (if n \<ge> 0 then word_of_int n else word_of_int (- n));
            en = squaring_loop exp base (f32_lit 1 1)
        in f32_mul en result)"

definition calc_rx_delay :: "f32 \<Rightarrow> u32 \<Rightarrow> DispatcherConfig \<Rightarrow> u32 option" where
  "calc_rx_delay s airtime_ms config =
     (let score = f32_div s (f32_lit 4 1);
          raw = f32_mul (f32_sub (pow10_approx (f32_sub (f32_lit 85 100) score)) (f32_lit 1 1))
                  (f32_of_int (uint airtime_ms))
      in if f32_lt raw (f32_lit 0 1) \<or> f32_as_u32 raw < min_rx_delay_threshold_ms config then None
         else Some (if f32_as_u32 raw > max_rx_delay_ms config then max_rx_delay_ms config
                    else f32_as_u32 raw))"

section \<open>The delay queue\<close>

record RxDelayEntry =
  rde_packet :: RxPacket
  deliver_at :: instant

record RxDelayQueue =
  rx_entries :: "RxDelayEntry list"

definition RxDelayQueue_new :: RxDelayQueue where
  "RxDelayQueue_new = \<lparr>rx_entries = []\<rparr>"

definition rx_push ::
    "RxDelayEntry heapless \<Rightarrow> nat \<Rightarrow> RxDelayQueue \<Rightarrow> RxPacket \<Rightarrow> instant \<Rightarrow> (RxPacket + unit) \<times> RxDelayQueue" where
  "rx_push hv N q p at =
     (case hv_push hv N (rx_entries q) \<lparr>rde_packet = p, deliver_at = at\<rparr> of
        Inl entry \<Rightarrow> (Inl (rde_packet entry), q)
      | Inr es \<Rightarrow> (Inr (), q\<lparr>rx_entries := es\<rparr>))"

fun rx_scan :: "instant \<Rightarrow> nat \<Rightarrow> RxDelayEntry list \<Rightarrow> nat option \<Rightarrow> instant \<Rightarrow> nat option" where
  "rx_scan now i [] best_idx best_time = best_idx"
| "rx_scan now i (entry # rest) best_idx best_time =
     (if deliver_at entry \<le> now \<and> deliver_at entry < best_time
      then rx_scan now (i + 1) rest (Some i) (deliver_at entry)
      else rx_scan now (i + 1) rest best_idx best_time)"

definition rx_pop_ready ::
    "RxDelayEntry heapless \<Rightarrow> time_api \<Rightarrow> instant \<Rightarrow> RxDelayQueue \<Rightarrow> (RxPacket option \<times> RxDelayQueue) option" where
  "rx_pop_ready hv tm now q =
     (case rx_scan now 0 (rx_entries q) None (inst_max tm) of
        None \<Rightarrow> Some (None, q)
      | Some i \<Rightarrow> do {
          (e, es) \<leftarrow> hv_swap_remove hv (rx_entries q) i;
          Some (Some (rde_packet e), q\<lparr>rx_entries := es\<rparr>)
        })"

definition rx_next_ready_time :: "RxDelayQueue \<Rightarrow> instant option" where
  "rx_next_ready_time q = min_instant (map deliver_at (rx_entries q))"

definition rx_len :: "RxDelayQueue \<Rightarrow> nat" where
  "rx_len q = length (rx_entries q)"

definition rx_is_empty :: "RxDelayQueue \<Rightarrow> bool" where
  "rx_is_empty q \<longleftrightarrow> rx_entries q = []"

definition rx_is_full :: "nat \<Rightarrow> RxDelayQueue \<Rightarrow> bool" where
  "rx_is_full N q \<longleftrightarrow> length (rx_entries q) = N"

definition rx_clear :: "RxDelayEntry heapless \<Rightarrow> RxDelayQueue \<Rightarrow> RxDelayQueue" where
  "rx_clear hv q = q\<lparr>rx_entries := hv_clear hv (rx_entries q)\<rparr>"

section \<open>The queue meets the contract\<close>

text \<open>
  The scan starts from \<open>Instant::MAX\<close> and compares strictly, so an entry due at \<open>Instant::MAX\<close> itself is never
  ready; every other entry is ready from its delivery time on.
\<close>

definition rx_ready :: "instant \<Rightarrow> RxDelayEntry \<Rightarrow> bool" where
  "rx_ready now e \<longleftrightarrow> deliver_at e \<le> now \<and> deliver_at e \<noteq> - 1"

definition rx_best :: "instant \<Rightarrow> RxDelayEntry list \<Rightarrow> nat \<Rightarrow> nat option \<Rightarrow> instant \<Rightarrow> bool" where
  "rx_best now es k best t \<longleftrightarrow>
     (case best of None \<Rightarrow> t = - 1 | Some b \<Rightarrow> b < k \<and> b < length es \<and> rx_ready now (es ! b) \<and> t = deliver_at (es ! b)) \<and>
     (\<forall>e \<in> set (take k es). rx_ready now e \<longrightarrow> t \<le> deliver_at e)"

lemma max_instant: "t < (- 1 :: u64) \<longleftrightarrow> t \<noteq> - 1"
  using word_n1_ge [of t] by (auto simp: less_le)

lemma rx_scan_spec:
  assumes "drop i es = rest" "i \<le> length es" "rx_best now es i best t"
  shows "\<exists>t'. rx_best now es (length es) (rx_scan now i rest best t) t'"
  using assms
proof (induction rest arbitrary: i best t)
  case (Cons e rest)
  note i = drop_Cons_D(1) [OF Cons.prems(1)] and e = drop_Cons_D(2) [OF Cons.prems(1)]
    and d = drop_Cons_D(3,4) [OF Cons.prems(1)]
  have tk: "set (take (i + 1) es) = insert e (set (take i es))"
    using i e by (simp add: take_Suc_conv_app_nth)
  show ?case
  proof (cases "deliver_at e \<le> now \<and> deliver_at e < t")
    case True
    moreover from True have "rx_ready now e"
      by (metis rx_ready_def max_instant order_less_le_trans word_order.extremum)
    ultimately have "rx_best now es (i + 1) (Some i) (deliver_at e)"
      using Cons.prems(3) i e tk by (auto simp: rx_best_def intro: order.trans less_imp_le)
    from Cons.IH [OF d this] True show ?thesis by simp
  next
    case False
    then have "rx_best now es (i + 1) best t"
      using Cons.prems(3) tk
      by (auto simp: rx_best_def rx_ready_def not_less split: option.splits)
    from Cons.IH [OF d this] False show ?thesis by auto
  qed
qed auto

lemma rx_scan_best: "\<exists>t. rx_best now es (length es) (rx_scan now 0 es None (- 1)) t"
  using rx_scan_spec [of 0 es es now None "- 1"] by (simp add: rx_best_def)

lemma rx_pop_none:
  assumes "heapless_ok hv" "time_ok tm" "\<forall>e \<in> set (rx_entries q). \<not> rx_ready now e"
  shows "rx_pop_ready hv tm now q = Some (None, q)"
proof -
  obtain t where "rx_best now (rx_entries q) (length (rx_entries q)) (rx_scan now 0 (rx_entries q) None (- 1)) t"
    using rx_scan_best by blast
  with assms(3) have "rx_scan now 0 (rx_entries q) None (- 1) = None"
    by (auto simp: rx_best_def split: option.splits)
  then show ?thesis using assms(2) by (simp add: rx_pop_ready_def time_okD)
qed

lemma rx_pop_some:
  assumes "heapless_ok hv" "time_ok tm" "e \<in> set (rx_entries q)" "rx_ready now e"
  shows "\<exists>b q'. rx_pop_ready hv tm now q = Some (Some (rde_packet b), q') \<and> b \<in> set (rx_entries q) \<and> rx_ready now b \<and>
    (\<forall>f \<in> set (rx_entries q). rx_ready now f \<longrightarrow> deliver_at b \<le> deliver_at f) \<and>
    mset (rx_entries q') = mset (rx_entries q) - {#b#}"
proof -
  let ?s = "rx_scan now 0 (rx_entries q) None (- 1)"
  obtain t where t: "rx_best now (rx_entries q) (length (rx_entries q)) ?s t"
    using rx_scan_best by blast
  have "?s \<noteq> None"
  proof
    assume "?s = None"
    with t have m: "t = - 1" and "\<forall>e \<in> set (rx_entries q). rx_ready now e \<longrightarrow> t \<le> deliver_at e"
      by (auto simp only: rx_best_def option.case take_all order.refl)
    with assms(3,4) have "t \<le> deliver_at e" by blast
    then have "\<not> deliver_at e < - 1" by (simp only: m not_less)
    with assms(4) show False by (simp only: max_instant rx_ready_def) simp
  qed
  then obtain i where "?s = Some i" by blast
  with t assms(1,2) show ?thesis
    by (auto simp: rx_pop_ready_def rx_best_def mset_swap_remove time_okD)
qed

interpretation rx: ready_queue "\<lambda>(hv, tm). heapless_ok hv \<and> time_ok tm" "\<lambda>q. mset (rx_entries q)" deliver_at rx_ready
    rde_packet "\<lambda>(hv, tm) now q. rx_pop_ready hv tm now q"
  by unfold_locales (use rx_pop_none rx_pop_some in \<open>auto\<close>)

section \<open>Properties\<close>

definition sample_rx_packet :: RxPacket where
  "sample_rx_packet = \<lparr>rx_packet = Packet_new, rx_rssi = f32_lit (- 50) 1, rx_snr = f32_lit 10 1\<rparr>"

definition sample_rx_queue :: RxDelayQueue where
  "sample_rx_queue = \<lparr>rx_entries =
     [\<lparr>rde_packet = sample_rx_packet, deliver_at = 300\<rparr>,
      \<lparr>rde_packet = sample_rx_packet, deliver_at = 100\<rparr>,
      \<lparr>rde_packet = sample_rx_packet, deliver_at = - 1\<rparr>]\<rparr>"

text \<open>
  C31: Popping until nothing is ready delivers the packets whose delivery time has come, the earliest first, and keeps
  the others, within one pop more than there are entries. An entry due at \<open>Instant::MAX\<close> is among the others at every
  time, so it is never delivered.
\<close>
theorem rx_queue_drains_in_order:
  assumes "heapless_ok hv" "time_ok tm"
  shows "\<exists>es q'. drain (rx_len q + 1) (rx_pop_ready hv tm now) q = Some (map rde_packet es, q') \<and>
    sorted (map deliver_at es) \<and>
    mset es = {#e \<in># mset (rx_entries q). deliver_at e \<le> now \<and> deliver_at e \<noteq> inst_max tm#} \<and>
    mset (rx_entries q') = {#e \<in># mset (rx_entries q). now < deliver_at e \<or> deliver_at e = inst_max tm#}"
  using rx.drain_complete [of "(hv, tm)" q "rx_len q + 1" now] assms
  by (auto simp: rx_ready_def [abs_def] rx_len_def not_le time_okD(3) [OF assms(2)])

lemma rx_queue_drains_in_order_witness:
  "\<exists>ps q'. drain 4 (rx_pop_ready list_heapless ms_time (- 1)) sample_rx_queue = Some (ps, q') \<and>
    length ps = 2 \<and> size (mset (rx_entries q')) = 1"
proof -
  have n: "rx_len sample_rx_queue + 1 = 4" by (simp add: rx_len_def sample_rx_queue_def)
  obtain es q' where d: "drain 4 (rx_pop_ready list_heapless ms_time (- 1)) sample_rx_queue = Some (map rde_packet es, q')"
    and m: "mset es = {#e \<in># mset (rx_entries sample_rx_queue). deliver_at e \<le> - 1 \<and> deliver_at e \<noteq> inst_max ms_time#}"
      "mset (rx_entries q') = {#e \<in># mset (rx_entries sample_rx_queue). - 1 < deliver_at e \<or> deliver_at e = inst_max ms_time#}"
    using rx_queue_drains_in_order [OF list_heapless_ok ms_time_ok, of sample_rx_queue "- 1"] unfolding n by blast
  have "length es = 2" "size (mset (rx_entries q')) = 1"
    using arg_cong [OF m(1), of size] arg_cong [OF m(2), of size] by (simp_all add: sample_rx_queue_def)
  with d show ?thesis by (intro exI [of _ "map rde_packet es"] exI [of _ q']) simp
qed

text \<open>
  C32: A computed delay is within the configured bounds: at most the maximum, and at least the threshold below which
  a packet is delivered at once (where the two are consistent); for every signal-to-noise ratio, NaN and the
  infinities included.
\<close>
theorem calc_rx_delay_bounds:
  assumes "calc_rx_delay s airtime config = Some d"
  shows "d \<le> max_rx_delay_ms config \<and>
    (min_rx_delay_threshold_ms config \<le> max_rx_delay_ms config \<longrightarrow> min_rx_delay_threshold_ms config \<le> d)"
  using assms by (auto simp: calc_rx_delay_def Let_def split: if_splits)

lemma calc_rx_delay_value: "calc_rx_delay (f32_lit 2 1) 200 DispatcherConfig_default = Some 247"
  by code_simp

lemma calc_rx_delay_bounds_witness:
  "(247 :: u32) \<le> max_rx_delay_ms DispatcherConfig_default \<and> min_rx_delay_threshold_ms DispatcherConfig_default \<le> (247 :: u32)"
  using calc_rx_delay_bounds [OF calc_rx_delay_value] by (simp add: DispatcherConfig_default_def)

text \<open>
  Pushing a delayed packet: a full queue hands the packet back and is unchanged; otherwise the packet is added with its delivery
  time and the queue stays within its capacity, and the queue's next wake-up is the earliest delivery time.
\<close>
theorem rx_push_spec:
  assumes "heapless_ok hv" "length (rx_entries q) \<le> N"
  shows "rx_push hv N q p at =
    (if length (rx_entries q) = N then (Inl p, q)
     else (Inr (), q\<lparr>rx_entries := rx_entries q @ [\<lparr>rde_packet = p, deliver_at = at\<rparr>]\<rparr>)) \<and>
    length (rx_entries (snd (rx_push hv N q p at))) \<le> N \<and>
    (\<forall>t. rx_next_ready_time q = Some t \<longleftrightarrow> t \<in> deliver_at ` set (rx_entries q) \<and> (\<forall>e \<in> set (rx_entries q). t \<le> deliver_at e))"
  using assms by (auto simp: rx_push_def rx_next_ready_time_def min_instant_iff)

lemma rx_push_spec_witness:
  "rx_push list_heapless 3 sample_rx_queue sample_rx_packet 5 = (Inl sample_rx_packet, sample_rx_queue)"
  using rx_push_spec [OF list_heapless_ok, of sample_rx_queue 3 sample_rx_packet 5] by (simp add: sample_rx_queue_def)

end
