(* ===== verification/Duty_Cycle.thy ===== *)
theory Duty_Cycle
  imports Dispatch_Types Time
begin

text \<open>
  \<open>crates/meshcore-dispatch/src/duty_cycle.rs\<close>: the airtime budget. Refilling computes in single precision
  and truncates; the budget is a saturating 32-bit counter of milliseconds.
\<close>

section \<open>Code\<close>

definition MIN_TX_BUDGET_AIRTIME_DIV :: u32 where "MIN_TX_BUDGET_AIRTIME_DIV = 2"

record DutyCycleTracker =
  budget_ms :: u32
  last_refill :: instant
  max_budget_ms :: u32
  duty_ratio :: f32
  min_reserve_ms :: u32

definition DutyCycleTracker_new :: "time_api \<Rightarrow> DispatcherConfig \<Rightarrow> DutyCycleTracker" where
  "DutyCycleTracker_new tm config =
     (let duty_cycle = f32_div (f32_lit 1 1) (f32_add (f32_lit 1 1) (airtime_budget_factor config));
          max_budget = f32_as_u32 (f32_mul (f32_of_int (uint (duty_cycle_window_ms config))) duty_cycle)
      in \<lparr>budget_ms = max_budget, last_refill = inst_from_millis tm 0, max_budget_ms = max_budget,
          duty_ratio = duty_cycle, min_reserve_ms = min_tx_budget_reserve_ms config\<rparr>)"

text \<open>\<open>now - self.last_refill\<close> panics when the clock went backwards.\<close>

definition refill :: "time_api \<Rightarrow> DutyCycleTracker \<Rightarrow> instant \<Rightarrow> DutyCycleTracker option" where
  "refill tm d now = do {
     elapsed \<leftarrow> inst_sub tm now (last_refill d);
     let elapsed_ms = dur_as_millis tm elapsed;
     let amount = f32_as_u32 (f32_mul (f32_of_int (uint elapsed_ms)) (duty_ratio d));
     Some (d\<lparr>budget_ms := min (max_budget_ms d) (saturating_add (budget_ms d) amount), last_refill := now\<rparr>)
   }"

definition can_transmit :: "DutyCycleTracker \<Rightarrow> u32 \<Rightarrow> bool" where
  "can_transmit d est_airtime_ms \<longleftrightarrow>
     budget_ms d \<ge> est_airtime_ms div MIN_TX_BUDGET_AIRTIME_DIV \<and> budget_ms d \<ge> min_reserve_ms d"

definition deduct :: "DutyCycleTracker \<Rightarrow> u32 \<Rightarrow> DutyCycleTracker" where
  "deduct d actual_airtime_ms = d\<lparr>budget_ms := saturating_sub (budget_ms d) actual_airtime_ms\<rparr>"

definition remaining_ms :: "DutyCycleTracker \<Rightarrow> u32" where
  "remaining_ms d = budget_ms d"

section \<open>Runs of the tracker\<close>

text \<open>
  What the dispatcher does to the tracker: refill at an instant, or transmit a packet of an estimated airtime that
  took an actual airtime, if the tracker allows it.
\<close>

datatype duty_event = Refill instant | Transmit u32 u32

fun duty_run :: "time_api \<Rightarrow> DutyCycleTracker \<Rightarrow> duty_event list \<Rightarrow> DutyCycleTracker option" where
  "duty_run tm d [] = Some d"
| "duty_run tm d (Refill now # evs) = do { d \<leftarrow> refill tm d now; duty_run tm d evs }"
| "duty_run tm d (Transmit est actual # evs) =
     (if can_transmit d est then duty_run tm (deduct d actual) evs else duty_run tm d evs)"

text \<open>The airtime the run puts on the air, the number of its transmissions, and by how much they exceed their estimates.\<close>

fun airtime :: "time_api \<Rightarrow> DutyCycleTracker \<Rightarrow> duty_event list \<Rightarrow> nat" where
  "airtime tm d [] = 0"
| "airtime tm d (Refill now # evs) = (case refill tm d now of None \<Rightarrow> 0 | Some d \<Rightarrow> airtime tm d evs)"
| "airtime tm d (Transmit est actual # evs) =
     (if can_transmit d est then unat actual + airtime tm (deduct d actual) evs else airtime tm d evs)"

fun sent :: "time_api \<Rightarrow> DutyCycleTracker \<Rightarrow> duty_event list \<Rightarrow> nat" where
  "sent tm d [] = 0"
| "sent tm d (Refill now # evs) = (case refill tm d now of None \<Rightarrow> 0 | Some d \<Rightarrow> sent tm d evs)"
| "sent tm d (Transmit est actual # evs) =
     (if can_transmit d est then 1 + sent tm (deduct d actual) evs else sent tm d evs)"

fun overrun :: "time_api \<Rightarrow> DutyCycleTracker \<Rightarrow> duty_event list \<Rightarrow> nat" where
  "overrun tm d [] = 0"
| "overrun tm d (Refill now # evs) = (case refill tm d now of None \<Rightarrow> 0 | Some d \<Rightarrow> overrun tm d evs)"
| "overrun tm d (Transmit est actual # evs) =
     (if can_transmit d est then (unat actual - unat est) + overrun tm (deduct d actual) evs else overrun tm d evs)"

text \<open>
  What a run may be granted, independently of the tracker: the whole milliseconds between its refills, each converted at the duty ratio.
\<close>

fun gaps :: "time_api \<Rightarrow> instant \<Rightarrow> duty_event list \<Rightarrow> u64 list" where
  "gaps tm t [] = []"
| "gaps tm t (Refill now # evs) = dur_as_millis tm (now - t) # gaps tm now evs"
| "gaps tm t (Transmit est actual # evs) = gaps tm t evs"

definition grant :: "f32 \<Rightarrow> u64 \<Rightarrow> nat" where
  "grant ratio ms = unat (f32_as_u32 (f32_mul (f32_of_int (uint ms)) ratio))"

definition entitled :: "time_api \<Rightarrow> f32 \<Rightarrow> instant \<Rightarrow> duty_event list \<Rightarrow> nat" where
  "entitled tm ratio t evs = sum_list (map (grant ratio) (gaps tm t evs))"

definition elapsed_ms :: "time_api \<Rightarrow> instant \<Rightarrow> duty_event list \<Rightarrow> nat" where
  "elapsed_ms tm t evs = sum_list (map unat (gaps tm t evs))"

definition duty_inv :: "DutyCycleTracker \<Rightarrow> bool" where
  "duty_inv d \<longleftrightarrow> budget_ms d \<le> max_budget_ms d"

lemma refill_inv: "refill tm d now = Some e \<Longrightarrow> duty_inv e \<and> max_budget_ms e = max_budget_ms d \<and>
    duty_ratio e = duty_ratio d \<and> min_reserve_ms e = min_reserve_ms d \<and> last_refill e = now"
  by (auto simp: refill_def bind_eq_Some_conv duty_inv_def Let_def)

lemma refill_ge: "refill tm d now = Some e \<Longrightarrow> duty_inv d \<Longrightarrow> budget_ms d \<le> budget_ms e"
  by (auto simp: refill_def bind_eq_Some_conv duty_inv_def Let_def saturating_add_ge)

lemma deduct_inv: "duty_inv d \<Longrightarrow> duty_inv (deduct d a)"
  using saturating_sub_le [of "budget_ms d" a] by (auto simp: duty_inv_def deduct_def)

lemma new_inv: "duty_inv (DutyCycleTracker_new tm config)"
  by (simp add: DutyCycleTracker_new_def duty_inv_def Let_def)

lemma duty_run_inv: "duty_run tm d evs = Some e \<Longrightarrow> duty_inv d \<Longrightarrow> duty_inv e \<and> max_budget_ms e = max_budget_ms d"
proof (induction tm d evs rule: duty_run.induct)
  case (2 tm d now evs)
  then obtain f where f: "refill tm d now = Some f" "duty_run tm f evs = Some e"
    by (auto simp: bind_eq_Some_conv)
  with 2 refill_inv [OF f(1)] show ?case by simp
next
  case (3 tm d est actual evs)
  then show ?case using deduct_inv [of d actual] by (auto simp: deduct_def split: if_splits)
qed simp

section \<open>The default configuration\<close>

lemma default_tracker:
  "DutyCycleTracker_new tm DispatcherConfig_default =
    \<lparr>budget_ms = 1800000, last_refill = inst_from_millis tm 0, max_budget_ms = 1800000, duty_ratio = f32_half,
     min_reserve_ms = 100\<rparr>"
proof -
  have "f32_div (f32_lit 1 1) (f32_add (f32_lit 1 1) (f32_lit 1 1)) = f32_half" by code_simp
  moreover have "f32_as_u32 (f32_mul (f32_of_int 3600000) f32_half) = 1800000"
    by (subst f32_half_of_int) simp_all
  ultimately show ?thesis by (simp add: DutyCycleTracker_new_def DispatcherConfig_default_def Let_def)
qed

lemma refill_half:
  assumes "time_ok tm" "duty_ratio d = f32_half" "last_refill d \<le> now"
    and "dur_as_millis tm (now - last_refill d) < 2 ^ 24"
  shows "refill tm d now = Some (d\<lparr>last_refill := now,
    budget_ms := min (max_budget_ms d) (saturating_add (budget_ms d) (ucast (dur_as_millis tm (now - last_refill d) div 2)))\<rparr>)"
proof -
  let ?e = "dur_as_millis tm (now - last_refill d)"
  have "uint ?e < 2 ^ 24" using assms(4) by (simp add: word_less_def)
  then have "f32_as_u32 (f32_mul (f32_of_int (uint ?e)) f32_half) = word_of_int (uint ?e div 2)"
    by (intro f32_half_of_int) simp_all
  also have "\<dots> = (ucast (?e div 2) :: u32)"
    by (simp add: uint_div ucast_eq)
  finally show ?thesis using assms(1-3) by (simp add: refill_def time_okD Let_def)
qed

section \<open>Accounting\<close>

lemma refill_grant:
  assumes "time_ok tm" "refill tm d now = Some e"
  shows "unat (budget_ms e) \<le> unat (budget_ms d) + grant (duty_ratio d) (dur_as_millis tm (now - last_refill d))"
  using assms by (auto simp: refill_def time_okD bind_eq_Some_conv Let_def grant_def min_def word_le_nat_alt unat_saturating_add split: if_splits)

lemma transmit_cost:
  assumes "can_transmit d est"
  shows "unat actual + 2 * unat (budget_ms (deduct d actual)) \<le> 2 * unat (budget_ms d) + 1 + (unat actual - unat est)"
proof -
  have "unat est div 2 \<le> unat (budget_ms d)"
    using assms by (simp add: can_transmit_def MIN_TX_BUDGET_AIRTIME_DIV_def word_le_nat_alt unat_div)
  then show ?thesis by (simp add: deduct_def unat_saturating_sub)
qed

lemma duty_run_account:
  assumes "time_ok tm" "duty_run tm d evs = Some e"
  shows "airtime tm d evs + 2 * unat (budget_ms e) \<le>
    2 * (unat (budget_ms d) + entitled tm (duty_ratio d) (last_refill d) evs) + sent tm d evs + overrun tm d evs"
  using assms
proof (induction tm d evs rule: duty_run.induct)
  case (2 tm d now evs)
  then obtain f where f: "refill tm d now = Some f" "duty_run tm f evs = Some e"
    by (auto simp: bind_eq_Some_conv)
  from "2.IH" [OF f(1) "2.prems"(1) f(2)] refill_grant [OF "2.prems"(1) f(1)] refill_inv [OF f(1)]
  show ?case using f(1) by (simp add: entitled_def)
next
  case (3 tm d est actual evs)
  show ?case
  proof (cases "can_transmit d est")
    case True
    with 3 have "duty_run tm (deduct d actual) evs = Some e" by simp
    from "3.IH"(1) [OF True "3.prems"(1) this] transmit_cost [OF True, of actual] True
    show ?thesis by (simp add: entitled_def deduct_def)
  next
    case False
    with 3 show ?thesis by (simp add: entitled_def)
  qed
qed (simp add: entitled_def)

lemma grant_half:
  assumes "ms < 2 ^ 24"
  shows "grant f32_half ms = unat ms div 2"
proof -
  have n: "unat ms < 2 ^ 24" using assms by (simp add: word_less_nat_alt)
  have "f32_as_u32 (f32_mul (f32_of_int (uint ms)) f32_half) = word_of_int (uint ms div 2)"
    using assms by (intro f32_half_of_int) (simp_all add: word_less_def)
  also have "\<dots> = (of_nat (unat ms div 2) :: u32)" by (metis of_int_of_nat_eq uint_nat zdiv_int of_nat_numeral)
  finally show ?thesis using n by (simp add: grant_def unsigned_of_nat take_bit_nat_eq_self)
qed

lemma entitled_half:
  assumes "\<forall>ms \<in> set (gaps tm t evs). ms < 2 ^ 24"
  shows "2 * entitled tm f32_half t evs \<le> elapsed_ms tm t evs"
proof -
  have "2 * sum_list (map (grant f32_half) gs) \<le> sum_list (map unat gs)" if "\<forall>ms \<in> set gs. ms < 2 ^ 24" for gs :: "u64 list"
    using that by (induction gs) (auto simp: grant_half)
  with assms show ?thesis by (simp add: entitled_def elapsed_ms_def)
qed

section \<open>Properties\<close>

text \<open>
  C33: The airtime on the air is bounded by the budget, for every configuration and every run of refills and permitted transmissions. The total airtime is at
  most twice the budget used up, initial and granted, plus one millisecond per packet, plus what the packets took beyond their estimates. (Twice, since a packet may start
  with half its estimate left and the budget saturates at zero.) What may be granted is fixed by the times of the refills and the duty ratio alone (\<open>entitled\<close>);
  under the ratio of the default configuration, twice that is at most the time that has passed. The budget never exceeds its maximum.
\<close>
theorem duty_cycle_bounds_airtime:
  assumes "time_ok tm" "duty_inv d" "duty_run tm d evs = Some e"
  shows "airtime tm d evs + 2 * unat (budget_ms e) \<le>
      2 * (unat (budget_ms d) + entitled tm (duty_ratio d) (last_refill d) evs) + sent tm d evs + overrun tm d evs \<and>
    budget_ms e \<le> max_budget_ms d \<and>
    (duty_ratio d = duty_ratio (DutyCycleTracker_new tm DispatcherConfig_default) \<and> (\<forall>ms \<in> set (gaps tm (last_refill d) evs). ms < 2 ^ 24) \<longrightarrow>
      2 * entitled tm (duty_ratio d) (last_refill d) evs \<le> elapsed_ms tm (last_refill d) evs)"
  using duty_run_account [OF assms(1,3)] duty_run_inv [OF assms(3,2)] entitled_half [of tm "last_refill d" evs]
  by (auto simp: duty_inv_def default_tracker)

text \<open>A refill after a second, and two packets, one of which takes longer than estimated: at most an hour and the second, the packets and the excess.\<close>

lemma duty_cycle_bounds_airtime_witness:
  "let d = DutyCycleTracker_new ms_time DispatcherConfig_default; evs = [Refill 1000, Transmit 500 550, Transmit 300 300] in
   airtime ms_time d evs + 2 * 1799150 \<le> 2 * 1800000 + 1000 + 2 + 50"
proof -
  let ?d = "DutyCycleTracker_new ms_time DispatcherConfig_default" and ?evs = "[Refill 1000, Transmit 500 550, Transmit 300 300]"
  have b: "unat (budget_ms ?d) = 1800000" "last_refill ?d = 0" by (simp_all add: default_tracker)
  have r: "duty_run ms_time ?d ?evs = Some (?d\<lparr>budget_ms := 1799150, last_refill := 1000\<rparr>)"
    by (simp add: default_tracker refill_half can_transmit_def MIN_TX_BUDGET_AIRTIME_DIV_def deduct_def saturating_sub_def saturating_add_def min_def)
  have n: "sent ms_time ?d ?evs = 2" "overrun ms_time ?d ?evs = 50"
    by (simp_all add: default_tracker refill_half can_transmit_def MIN_TX_BUDGET_AIRTIME_DIV_def deduct_def saturating_sub_def saturating_add_def min_def)
  have g: "\<forall>ms \<in> set (gaps ms_time (last_refill ?d) ?evs). ms < 2 ^ 24" "elapsed_ms ms_time (last_refill ?d) ?evs = 1000"
    by (simp_all add: b elapsed_ms_def)
  note c = duty_cycle_bounds_airtime [OF ms_time_ok new_inv r]
  have g3: "2 * entitled ms_time (duty_ratio ?d) (last_refill ?d) ?evs \<le> 1000"
    using c [THEN conjunct2, THEN conjunct2, THEN mp, OF conjI [OF refl g(1)]] unfolding g(2) .
  have u: "unat (budget_ms (?d\<lparr>budget_ms := 1799150, last_refill := 1000\<rparr>)) = 1799150" by simp
  have "a + 2 * 1799150 \<le> 2 * 1800000 + 1000 + 2 + 50"
    if "a + 2 * 1799150 \<le> 2 * (1800000 + x) + 2 + 50" "2 * x \<le> 1000" for a x :: nat using that by simp
  from this [OF c [THEN conjunct1, unfolded n b(1) u] g3] show ?thesis unfolding Let_def .
qed

text \<open>
  The factor of two is not slack. Under the default configuration, whose ratio is a half, the tracker permits a packet of 200 milliseconds after every 200
  milliseconds, for ever and from an empty budget: the airtime is all of the time that passes.
\<close>

fun every_gap :: "instant list \<Rightarrow> duty_event list" where
  "every_gap [] = []"
| "every_gap (t # ts) = Refill t # Transmit 200 200 # every_gap ts"

lemma budget_allows_continuous_airtime:
  assumes "time_ok tm" "duty_ratio d = duty_ratio (DutyCycleTracker_new tm DispatcherConfig_default)" "budget_ms d = 0"
    and "100 \<le> max_budget_ms d" "min_reserve_ms d \<le> 100" "sorted (last_refill d # ts)"
    and "set (gaps tm (last_refill d) (every_gap ts)) \<subseteq> {200}"
  shows "airtime tm d (every_gap ts) = 200 * length ts \<and> elapsed_ms tm (last_refill d) (every_gap ts) = 200 * length ts"
  using assms(2-)
proof (induction ts arbitrary: d)
  case (Cons t ts)
  have h: "duty_ratio d = f32_half" using Cons.prems(1) by (simp add: default_tracker)
  have gap: "dur_as_millis tm (t - last_refill d) = 200" using Cons.prems(6) by simp
  have r: "refill tm d t = Some (d\<lparr>last_refill := t, budget_ms := 100\<rparr>)"
    using refill_half [OF assms(1) h, of t] Cons.prems(2,3,5) by (simp add: gap saturating_add_def min_def)
  let ?d = "deduct (d\<lparr>last_refill := t, budget_ms := 100\<rparr>) 200"
  have can: "can_transmit (d\<lparr>last_refill := t, budget_ms := 100\<rparr>) 200"
    using Cons.prems(4) by (simp add: can_transmit_def MIN_TX_BUDGET_AIRTIME_DIV_def)
  have "airtime tm ?d (every_gap ts) = 200 * length ts \<and> elapsed_ms tm (last_refill ?d) (every_gap ts) = 200 * length ts"
    using Cons.prems by (intro Cons.IH) (simp_all add: deduct_def saturating_sub_def default_tracker)
  then show ?case using r can gap by (simp add: elapsed_ms_def deduct_def)
qed (simp add: elapsed_ms_def)

text \<open>
  Under the default configuration the tracker starts with half of an hour of airtime, and a refill after less than about four and a half
  hours grants exactly half of the elapsed milliseconds, rounded down, up to the maximum: the single precision arithmetic is
  exact there.
\<close>
theorem default_refill_grants_half:
  assumes "time_ok tm" "duty_ratio d = duty_ratio (DutyCycleTracker_new tm DispatcherConfig_default)" "last_refill d \<le> now"
    and "dur_as_millis tm (now - last_refill d) < 2 ^ 24"
  shows "remaining_ms (DutyCycleTracker_new tm DispatcherConfig_default) = 1800000 \<and>
    (\<exists>e. refill tm d now = Some e \<and> last_refill e = now \<and>
      unat (budget_ms e) = min (unat (max_budget_ms d))
        (min (2 ^ 32 - 1) (unat (budget_ms d) + unat (dur_as_millis tm (now - last_refill d)) div 2)))"
proof -
  let ?ms = "dur_as_millis tm (now - last_refill d)"
  have h: "duty_ratio d = f32_half" using assms(2) by (simp add: default_tracker)
  have "unat ?ms < 2 ^ 24" using assms(4) by (simp add: word_less_nat_alt)
  then have "unat (ucast (?ms div 2) :: u32) = unat ?ms div 2"
    by (simp add: unsigned_ucast_eq unat_div take_bit_nat_eq_self)
  then show ?thesis
    unfolding refill_half [OF assms(1) h assms(3,4)]
    by (simp add: default_tracker remaining_ms_def unat_saturating_add min_def word_le_nat_alt)
qed

lemma default_refill_grants_half_witness:
  "\<exists>e. refill ms_time (deduct (DutyCycleTracker_new ms_time DispatcherConfig_default) 100000) 60000 = Some e \<and>
    unat (budget_ms e) = 1730000"
  using default_refill_grants_half [OF ms_time_ok, of "deduct (DutyCycleTracker_new ms_time DispatcherConfig_default) 100000" 60000]
  by (auto simp: deduct_def default_tracker saturating_sub_def)

lemma refill_one_ms:
  assumes "time_ok tm" "duty_inv d" "duty_ratio d = f32_half" "last_refill d \<le> now" "dur_as_millis tm (now - last_refill d) \<le> 1"
  shows "refill tm d now = Some (d\<lparr>last_refill := now\<rparr>)"
proof -
  let ?ms = "dur_as_millis tm (now - last_refill d)"
  have le: "unat ?ms \<le> 1" using assms(5) by (simp add: word_le_nat_alt)
  then have "unat (?ms div 2) = 0" by (simp add: unat_div)
  then have z: "?ms div 2 = 0" by (simp add: unat_eq_zero)
  have "?ms < 2 ^ 24" using le by (simp add: word_less_nat_alt)
  from refill_half [OF assms(1,3,4) this] show ?thesis
    using assms(2) z by (simp add: duty_inv_def min_def)
qed

text \<open>
  The budget of the default configuration never recovers under refills at most a millisecond apart, however many there are
  and however long they take together: each one truncates its half millisecond to zero and still moves the time of the last refill.
\<close>
theorem frequent_refills_grant_nothing:
  assumes "time_ok tm" "duty_inv d" "duty_ratio d = duty_ratio (DutyCycleTracker_new tm DispatcherConfig_default)"
    and "sorted (last_refill d # ts)"
    and "\<forall>i < length ts. dur_as_millis tm (ts ! i - (last_refill d # ts) ! i) \<le> 1"
  shows "\<exists>e. duty_run tm d (map Refill ts) = Some e \<and> budget_ms e = budget_ms d"
  using assms(2-)
proof (induction ts arbitrary: d)
  case (Cons t ts)
  have h: "duty_ratio d = f32_half" using Cons.prems(2) by (simp add: default_tracker)
  have le: "last_refill d \<le> t" using Cons.prems(3) by simp
  have one: "dur_as_millis tm (t - last_refill d) \<le> 1" using Cons.prems(4) by (metis length_greater_0_conv list.discI nth_Cons_0)
  have r: "refill tm d t = Some (d\<lparr>last_refill := t\<rparr>)"
    by (rule refill_one_ms [OF assms(1) Cons.prems(1) h le one])
  have step: "\<forall>i < length ts. dur_as_millis tm (ts ! i - (t # ts) ! i) \<le> 1"
    using Cons.prems(4) by (metis Suc_less_eq length_Cons nth_Cons_Suc)
  have "\<exists>e. duty_run tm (d\<lparr>last_refill := t\<rparr>) (map Refill ts) = Some e \<and> budget_ms e = budget_ms d"
    using Cons.IH [of "d\<lparr>last_refill := t\<rparr>"] Cons.prems(1-3) step by (simp add: duty_inv_def)
  with r show ?case by simp
qed simp

lemma frequent_refills_grant_nothing_witness:
  "\<exists>e. duty_run ms_time (deduct (DutyCycleTracker_new ms_time DispatcherConfig_default) 100000) (map Refill [1, 1, 2]) = Some e \<and>
    budget_ms e = 1700000"
proof -
  let ?d = "deduct (DutyCycleTracker_new ms_time DispatcherConfig_default) 100000"
  have b: "budget_ms ?d = 1700000" "last_refill ?d = 0"
    by (simp_all add: deduct_def default_tracker saturating_sub_def)
  have "\<forall>i < length [1, 1, 2 :: instant]. dur_as_millis ms_time ([1, 1, 2] ! i - (last_refill ?d # [1, 1, 2]) ! i) \<le> 1"
    by (simp add: b numeral_3_eq_3 All_less_Suc2)
  moreover have "sorted (last_refill ?d # [1, 1, 2])" by (simp add: b)
  ultimately have "\<exists>e. duty_run ms_time ?d (map Refill [1, 1, 2]) = Some e \<and> budget_ms e = budget_ms ?d"
    by (intro frequent_refills_grant_nothing [OF ms_time_ok deduct_inv [OF new_inv]]) (simp_all add: deduct_def)
  then show ?thesis unfolding b(1) .
qed

end
