(* ===== verification/Dispatcher.thy ===== *)
theory Dispatcher
  imports Mock Tx_Queue Rx_Delay Duty_Cycle
begin

text \<open>
  \<open>crates/meshcore-dispatch/src/dispatcher.rs\<close>: the event loop that owns the radio. Everything the code is generic over or calls in
  third-party crates is gathered in a \<open>platform\<close>: the radio, the random generator, the containers, the Embassy channels and the clock.
  Awaited operations complete atomically; what other tasks do meanwhile touches only the channels and is a step of its own.
\<close>

section \<open>The platform\<close>

text \<open>
  An Embassy channel by its contents: \<open>try_send\<close> refuses when the channel is full, \<open>try_receive\<close> takes the oldest element.
\<close>

record 'a channel =
  ch_try_send :: "nat \<Rightarrow> 'a list \<Rightarrow> 'a \<Rightarrow> 'a + 'a list"
  ch_try_receive :: "'a list \<Rightarrow> ('a \<times> 'a list) option"

definition channel_ok :: "'a channel \<Rightarrow> bool" where
  "channel_ok ch \<longleftrightarrow>
     (\<forall>n xs x. ch_try_send ch n xs x = (if length xs < n then Inr (xs @ [x]) else Inl x)) \<and>
     (\<forall>xs. ch_try_receive ch xs = (case xs of [] \<Rightarrow> None | x # ys \<Rightarrow> Some (x, ys)))"

definition list_channel :: "'a channel" where
  "list_channel = \<lparr>ch_try_send = (\<lambda>n xs x. if length xs < n then Inr (xs @ [x]) else Inl x),
     ch_try_receive = (\<lambda>xs. case xs of [] \<Rightarrow> None | x # ys \<Rightarrow> Some (x, ys))\<rparr>"

lemma list_channel_ok [simp, intro]: "channel_ok list_channel"
  by (simp add: channel_ok_def list_channel_def)

lemma channel_okD [simp]:
  assumes "channel_ok ch"
  shows "ch_try_send ch n xs x = (if length xs < n then Inr (xs @ [x]) else Inl x)"
    and "ch_try_receive ch xs = (case xs of [] \<Rightarrow> None | x # ys \<Rightarrow> Some (x, ys))"
  using assms by (auto simp: channel_ok_def)

text \<open>
  The time driver: \<open>ck_now\<close> is \<open>Instant::now()\<close>, \<open>ck_after\<close> is \<open>Timer::after(d).await\<close>, on a state of its own. \<open>clock_ok\<close>: time (read by
  \<open>ck_time\<close>, which the code cannot call) never runs backwards, a reading is the time after it, and waiting takes at least its
  duration (up to the end of the 64-bit tick count).
\<close>

record 'w clock =
  ck_now :: "'w \<Rightarrow> instant \<times> 'w"
  ck_after :: "duration \<Rightarrow> 'w \<Rightarrow> 'w"
  ck_time :: "'w \<Rightarrow> instant"

definition clock_ok :: "'w clock \<Rightarrow> bool" where
  "clock_ok ck \<longleftrightarrow>
     (\<forall>w. fst (ck_now ck w) = ck_time ck (snd (ck_now ck w)) \<and> ck_time ck w \<le> fst (ck_now ck w)) \<and>
     (\<forall>d w. saturating_add (ck_time ck w) d \<le> ck_time ck (ck_after ck d w))"

text \<open>The state of the clock after \<open>n\<close> readings.\<close>

fun reads :: "'w clock \<Rightarrow> nat \<Rightarrow> 'w \<Rightarrow> 'w" where
  "reads ck 0 w = w"
| "reads ck (Suc n) w = reads ck n (snd (ck_now ck w))"

record ('r, 'g, 'w) platform =
  pf_radio :: "'r radio"
  pf_random :: "nat \<Rightarrow> 'g \<Rightarrow> u8 list \<times> 'g"
  pf_bytes :: "u8 heapless"
  pf_tx :: "TxEntry heapless"
  pf_rx :: "RxDelayEntry heapless"
  pf_tx_in :: "TxRequest channel"
  pf_rx_out :: "RxPacket channel"
  pf_time :: time_api
  pf_clock :: "'w clock"
  pf_TX_Q :: nat
  pf_RX_Q :: nat

definition platform_ok :: "('r, 'g, 'w) platform \<Rightarrow> bool" where
  "platform_ok pf \<longleftrightarrow> heapless_ok (pf_bytes pf) \<and> heapless_ok (pf_tx pf) \<and> heapless_ok (pf_rx pf) \<and>
     channel_ok (pf_tx_in pf) \<and> channel_ok (pf_rx_out pf) \<and> time_ok (pf_time pf) \<and> clock_ok (pf_clock pf)"

section \<open>The dispatcher\<close>

record ('r, 'g) Dispatcher =
  dp_radio :: 'r
  dp_rng :: 'g
  dp_config :: DispatcherConfig
  dp_tx_queue :: TxQueue
  dp_rx_delay_queue :: RxDelayQueue
  dp_duty_cycle :: DutyCycleTracker
  dp_stats :: DispatcherStats

definition Dispatcher_new :: "time_api \<Rightarrow> 'r \<Rightarrow> 'g \<Rightarrow> DispatcherConfig \<Rightarrow> ('r, 'g) Dispatcher" where
  "Dispatcher_new tm r g config = \<lparr>dp_radio = r, dp_rng = g, dp_config = config, dp_tx_queue = TxQueue_new,
     dp_rx_delay_queue = RxDelayQueue_new, dp_duty_cycle = DutyCycleTracker_new tm config,
     dp_stats = DispatcherStats_default\<rparr>"

definition dp_reset_stats :: "('r, 'g) Dispatcher \<Rightarrow> ('r, 'g) Dispatcher" where
  "dp_reset_stats d = d\<lparr>dp_stats := DispatcherStats_default\<rparr>"

definition packet_is_flood :: "Packet \<Rightarrow> bool" where
  "packet_is_flood p = result_unwrap_or (result_map is_flood (route_type p)) False"

text \<open>\<open>let _ = rx_out.try_send(p)\<close>: a full channel drops the packet.\<close>

definition deliver :: "('r, 'g, 'w) platform \<Rightarrow> RxPacket list \<Rightarrow> RxPacket \<Rightarrow> RxPacket list" where
  "deliver pf rx_out p =
     (case ch_try_send (pf_rx_out pf) (pf_RX_Q pf) rx_out p of Inl _ \<Rightarrow> rx_out | Inr q \<Rightarrow> q)"

definition count_received :: "bool \<Rightarrow> DispatcherStats \<Rightarrow> DispatcherStats" where
  "count_received flood st =
     (if flood then st\<lparr>recv_flood := recv_flood st + 1\<rparr> else st\<lparr>recv_direct := recv_direct st + 1\<rparr>)"

definition handle_rx ::
    "('r, 'g, 'w) platform \<Rightarrow> RadioError + RecvResult \<Rightarrow> u8 list \<Rightarrow> ('r, 'g) Dispatcher \<times> RxPacket list \<times> 'w \<Rightarrow>
      (('r, 'g) Dispatcher \<times> RxPacket list \<times> 'w) option" where
  "handle_rx pf result rx_buf = (\<lambda>(d, rx_out, w).
     case result of
       Inl _ \<Rightarrow> Some (d, rx_out, w)
     | Inr recv_result \<Rightarrow> do {
         src \<leftarrow> slice rx_buf 0 (rr_len recv_result);
         (ok, packet) \<leftarrow> read_from (pf_bytes pf) Packet_new src;
         if \<not> ok then Some (d, rx_out, w)
         else do {
           let flood = packet_is_flood packet;
           let d = d\<lparr>dp_stats := count_received flood (dp_stats d)\<rparr>;
           let rxp = \<lparr>rx_packet = packet, rx_rssi = rr_rssi recv_result, rx_snr = rr_snr recv_result\<rparr>;
           let delay = (if flood
             then calc_rx_delay (rr_snr recv_result)
               (rd_estimate_airtime_ms (pf_radio pf) (dp_radio d) (rr_len recv_result)) (dp_config d)
             else None);
           case delay of
             Some ms \<Rightarrow> do {
               let (now, w) = ck_now (pf_clock pf) w;
               at \<leftarrow> inst_add (pf_time pf) now (dur_from_millis (pf_time pf) (ucast ms));
               let (r, q) = rx_push (pf_rx pf) (pf_RX_Q pf) (dp_rx_delay_queue d) rxp at;
               Some (d\<lparr>dp_rx_delay_queue := q\<rparr>, rx_out, w)
             }
           | None \<Rightarrow> Some (d, deliver pf rx_out rxp, w)
         }
       })"

section \<open>Listen before talk\<close>

text \<open>
  The loop of \<open>wait_for_clear_channel\<close>; \<^const>\<open>None\<close> is not returning (nothing in it panics). The result is \<open>True\<close> for a
  clear channel (or an error, which counts as clear) and \<open>False\<close> for the timeout.
\<close>

partial_function (option) cad_loop ::
    "('r, 'g, 'w) platform \<Rightarrow> DispatcherConfig \<Rightarrow> instant \<Rightarrow> 'r \<Rightarrow> 'g \<Rightarrow> 'w \<Rightarrow> (bool \<times> 'r \<times> 'g \<times> 'w) option" where
  "cad_loop pf config deadline r g w =
     (case rd_channel_active (pf_radio pf) r of
        (Inl _, r) \<Rightarrow> Some (True, r, g, w)
      | (Inr active, r) \<Rightarrow>
          (if \<not> active then Some (True, r, g, w)
           else case ck_now (pf_clock pf) w of (now, w) \<Rightarrow>
             (if now \<ge> deadline then Some (False, r, g, w)
              else case next_u32 (pf_random pf) g (cad_retry_min_ms config) (cad_retry_max_ms config) of (delay, g) \<Rightarrow>
                cad_loop pf config deadline r g
                  (ck_after (pf_clock pf) (dur_from_millis (pf_time pf) (ucast delay)) w))))"

definition wait_for_clear_channel ::
    "('r, 'g, 'w) platform \<Rightarrow> ('r, 'g) Dispatcher \<Rightarrow> 'w \<Rightarrow> (bool \<times> ('r, 'g) Dispatcher \<times> 'w) option" where
  "wait_for_clear_channel pf d w = do {
     let (now, w) = ck_now (pf_clock pf) w;
     deadline \<leftarrow> inst_add (pf_time pf) now (dur_from_millis (pf_time pf) (ucast (cad_timeout_ms (dp_config d))));
     (clear, r, g, w) \<leftarrow> cad_loop pf (dp_config d) deadline (dp_radio d) (dp_rng d) w;
     Some (clear, d\<lparr>dp_radio := r, dp_rng := g\<rparr>, w)
   }"

section \<open>Transmission\<close>

definition count_sent :: "bool \<Rightarrow> u32 \<Rightarrow> DispatcherStats \<Rightarrow> DispatcherStats" where
  "count_sent flood ms st =
     (let st = st\<lparr>total_air_time_ms := total_air_time_ms st + ms\<rparr>
      in if flood then st\<lparr>sent_flood := sent_flood st + 1\<rparr> else st\<lparr>sent_direct := sent_direct st + 1\<rparr>)"

text \<open>From the carrier sensing on: serialise, send, account.\<close>

definition transmit_entry ::
    "('r, 'g, 'w) platform \<Rightarrow> TxEntry \<Rightarrow> ('r, 'g) Dispatcher \<times> u8 list \<times> 'w \<Rightarrow> (('r, 'g) Dispatcher \<times> u8 list \<times> 'w) option" where
  "transmit_entry pf entry = (\<lambda>(d, scratch_buf, w). do {
     (clear, d, w) \<leftarrow> wait_for_clear_channel pf d w;
     (len, scratch_buf) \<leftarrow> write_to (te_packet entry) scratch_buf;
     let (tx_start, w) = ck_now (pf_clock pf) w;
     data \<leftarrow> slice scratch_buf 0 len;
     let (tx_result, r) = rd_send (pf_radio pf) data (dp_radio d);
     let d = d\<lparr>dp_radio := r\<rparr>;
     let (tx_end, w) = ck_now (pf_clock pf) w;
     elapsed \<leftarrow> inst_sub (pf_time pf) tx_end tx_start;
     let actual_airtime = (ucast (dur_as_millis (pf_time pf) elapsed) :: u32);
     case tx_result of
       Inr _ \<Rightarrow> Some (d\<lparr>dp_duty_cycle := deduct (dp_duty_cycle d) actual_airtime,
                 dp_stats := count_sent (packet_is_flood (te_packet entry)) actual_airtime (dp_stats d)\<rparr>, scratch_buf, w)
     | Inl _ \<Rightarrow> Some (d, scratch_buf, w)
   })"

definition maybe_transmit ::
    "('r, 'g, 'w) platform \<Rightarrow> ('r, 'g) Dispatcher \<times> u8 list \<times> 'w \<Rightarrow> (('r, 'g) Dispatcher \<times> u8 list \<times> 'w) option" where
  "maybe_transmit pf = (\<lambda>(d, scratch_buf, w). do {
     let (now, w) = ck_now (pf_clock pf) w;
     dc \<leftarrow> refill (pf_time pf) (dp_duty_cycle d) now;
     let d = d\<lparr>dp_duty_cycle := dc\<rparr>;
     (ready, q) \<leftarrow> tx_pop_ready (pf_tx pf) now (dp_tx_queue d);
     let d = d\<lparr>dp_tx_queue := q\<rparr>;
     case ready of
       None \<Rightarrow> Some (d, scratch_buf, w)
     | Some entry \<Rightarrow>
         (let est_airtime = rd_estimate_airtime_ms (pf_radio pf) (dp_radio d) (wire_len (te_packet entry))
          in if \<not> can_transmit (dp_duty_cycle d) est_airtime
             then Some (d\<lparr>dp_tx_queue := snd (tx_push_entry (pf_tx pf) (pf_TX_Q pf) (dp_tx_queue d) entry)\<rparr>, scratch_buf, w)
             else transmit_entry pf entry (d, scratch_buf, w))
   })"

section \<open>The event loop\<close>

definition next_wake_time :: "('r, 'g) Dispatcher \<Rightarrow> instant option" where
  "next_wake_time d =
     (case (tx_next_ready_time (dp_tx_queue d), rx_next_ready_time (dp_rx_delay_queue d)) of
        (Some a, Some b) \<Rightarrow> Some (if a < b then a else b)
      | (Some a, None) \<Rightarrow> Some a
      | (None, Some b) \<Rightarrow> Some b
      | (None, None) \<Rightarrow> None)"

text \<open>
  The loops at the top of \<open>run\<close>. The fuel bounds their iterations: one more than the elements of the channel, or of the delay queue, which
  nothing refills meanwhile.
\<close>

fun drain_submissions ::
    "nat \<Rightarrow> ('r, 'g, 'w) platform \<Rightarrow> TxRequest list \<times> TxQueue \<times> 'w \<Rightarrow> (TxRequest list \<times> TxQueue \<times> 'w) option" where
  "drain_submissions 0 pf s = None"
| "drain_submissions (Suc n) pf (tx_in, q, w) =
     (case ch_try_receive (pf_tx_in pf) tx_in of
        None \<Rightarrow> Some (tx_in, q, w)
      | Some (req, tx_in) \<Rightarrow> do {
          let (now, w) = ck_now (pf_clock pf) w;
          (_, q) \<leftarrow> tx_push (pf_tx pf) (pf_time pf) (pf_TX_Q pf) now q req;
          drain_submissions n pf (tx_in, q, w)
        })"

fun deliver_ready ::
    "nat \<Rightarrow> ('r, 'g, 'w) platform \<Rightarrow> instant \<Rightarrow> RxDelayQueue \<times> RxPacket list \<Rightarrow> (RxDelayQueue \<times> RxPacket list) option" where
  "deliver_ready 0 pf now s = None"
| "deliver_ready (Suc n) pf now (q, rx_out) = do {
     (r, q) \<leftarrow> rx_pop_ready (pf_rx pf) (pf_time pf) now q;
     case r of
       None \<Rightarrow> Some (q, rx_out)
     | Some rxp \<Rightarrow> deliver_ready n pf now (q, deliver pf rx_out rxp)
   }"

text \<open>
  The system: the dispatcher, its two channels, the receive buffer and the clock, and whether the loop is at its top or waits in the
  \<open>select\<close> with a wake-up time; \<open>Stopped\<close> is a panic.
\<close>

datatype phase = Top | Waiting "instant option" | Stopped

record ('r, 'g, 'w) system =
  sy_dp :: "('r, 'g) Dispatcher"
  sy_tx_in :: "TxRequest list"
  sy_rx_out :: "RxPacket list"
  sy_buf :: "u8 list"
  sy_clock :: 'w
  sy_phase :: phase

definition loop_top :: "('r, 'g, 'w) platform \<Rightarrow> ('r, 'g, 'w) system \<Rightarrow> ('r, 'g, 'w) system option" where
  "loop_top pf s = do {
     let d = sy_dp s;
     (tx_in, q, w) \<leftarrow> drain_submissions (length (sy_tx_in s) + 1) pf (sy_tx_in s, dp_tx_queue d, sy_clock s);
     let (now, w) = ck_now (pf_clock pf) w;
     (dq, rx_out) \<leftarrow> deliver_ready (rx_len (dp_rx_delay_queue d) + 1) pf now (dp_rx_delay_queue d, sy_rx_out s);
     (d, buf, w) \<leftarrow> maybe_transmit pf (d\<lparr>dp_tx_queue := q, dp_rx_delay_queue := dq\<rparr>, sy_buf s, w);
     Some (s\<lparr>sy_dp := d, sy_tx_in := tx_in, sy_rx_out := rx_out, sy_buf := buf, sy_clock := w,
       sy_phase := Waiting (next_wake_time d)\<rparr>)
   }"

text \<open>The branches of the \<open>select\<close>: the radio, a submission.\<close>

definition on_radio :: "('r, 'g, 'w) platform \<Rightarrow> ('r, 'g, 'w) system \<Rightarrow> ('r, 'g, 'w) system option" where
  "on_radio pf s = do {
     (result, buf, r) \<leftarrow> rd_recv (pf_radio pf) (sy_buf s) (dp_radio (sy_dp s));
     (d, rx_out, w) \<leftarrow> handle_rx pf result buf ((sy_dp s)\<lparr>dp_radio := r\<rparr>, sy_rx_out s, sy_clock s);
     Some (s\<lparr>sy_dp := d, sy_rx_out := rx_out, sy_buf := buf, sy_clock := w, sy_phase := Top\<rparr>)
   }"

definition on_submission :: "('r, 'g, 'w) platform \<Rightarrow> ('r, 'g, 'w) system \<Rightarrow> TxRequest \<Rightarrow> TxRequest list \<Rightarrow> ('r, 'g, 'w) system option" where
  "on_submission pf s req tx_in = do {
     let (now, w) = ck_now (pf_clock pf) (sy_clock s);
     (_, q) \<leftarrow> tx_push (pf_tx pf) (pf_time pf) (pf_TX_Q pf) now (dp_tx_queue (sy_dp s)) req;
     Some (s\<lparr>sy_dp := (sy_dp s)\<lparr>dp_tx_queue := q\<rparr>, sy_tx_in := tx_in, sy_clock := w, sy_phase := Top\<rparr>)
   }"

definition outcome :: "('r, 'g, 'w) system \<Rightarrow> ('r, 'g, 'w) system option \<Rightarrow> ('r, 'g, 'w) system" where
  "outcome s r = (case r of None \<Rightarrow> s\<lparr>sy_phase := Stopped\<rparr> | Some t \<Rightarrow> t)"

text \<open>
  One step of the system: the loop, or another task submitting a request or taking a received packet. A cancelled \<open>recv\<close> (another branch of the \<open>select\<close>
  completes first) leaves no trace in the model.
\<close>

inductive dispatch_step :: "('r, 'g, 'w) platform \<Rightarrow> ('r, 'g, 'w) system \<Rightarrow> ('r, 'g, 'w) system \<Rightarrow> bool" for pf where
  top: "sy_phase s = Top \<Longrightarrow> dispatch_step pf s (outcome s (loop_top pf s))"
| radio: "sy_phase s = Waiting wake \<Longrightarrow> dispatch_step pf s (outcome s (on_radio pf s))"
| submission: "sy_phase s = Waiting wake \<Longrightarrow> ch_try_receive (pf_tx_in pf) (sy_tx_in s) = Some (req, rest) \<Longrightarrow>
    dispatch_step pf s (outcome s (on_submission pf s req rest))"
| timer: "sy_phase s = Waiting (Some at) \<Longrightarrow> at \<le> ck_time (pf_clock pf) w \<Longrightarrow> ck_time (pf_clock pf) (sy_clock s) \<le> ck_time (pf_clock pf) w \<Longrightarrow>
    dispatch_step pf s (s\<lparr>sy_clock := w, sy_phase := Top\<rparr>)"
| submit: "ch_try_send (pf_tx_in pf) (pf_TX_Q pf) (sy_tx_in s) req = Inr tx_in \<Longrightarrow>
    dispatch_step pf s (s\<lparr>sy_tx_in := tx_in\<rparr>)"
| consume: "ch_try_receive (pf_rx_out pf) (sy_rx_out s) = Some (p, rx_out) \<Longrightarrow>
    dispatch_step pf s (s\<lparr>sy_rx_out := rx_out\<rparr>)"

inductive_cases dispatch_stepE: "dispatch_step pf s t"

inductive dispatch_reachable :: "('r, 'g, 'w) platform \<Rightarrow> ('r, 'g, 'w) system \<Rightarrow> ('r, 'g, 'w) system \<Rightarrow> bool" for pf s where
  here: "dispatch_reachable pf s s"
| more: "dispatch_reachable pf s t \<Longrightarrow> dispatch_step pf t u \<Longrightarrow> dispatch_reachable pf s u"

lemma dispatch_reachable_trans: "dispatch_reachable pf t u \<Longrightarrow> dispatch_reachable pf s t \<Longrightarrow> dispatch_reachable pf s u"
  by (induction rule: dispatch_reachable.induct) (auto intro: dispatch_reachable.intros)

lemma stopped_for_good: "dispatch_step pf s t \<Longrightarrow> sy_phase s = Stopped \<Longrightarrow> sy_phase t = Stopped"
  by (erule dispatch_stepE) auto

section \<open>Clock, platform, carrier sensing\<close>

lemma clock_okD:
  assumes "clock_ok ck" "ck_now ck w = (t, w')"
  shows "t = ck_time ck w'" and "ck_time ck w \<le> t"
  using assms unfolding clock_ok_def by (metis fst_conv snd_conv)+

lemma reads_later: "clock_ok ck \<Longrightarrow> ck_time ck w \<le> ck_time ck (reads ck n w)"
proof (induction n arbitrary: w)
  case (Suc n)
  have "ck_time ck w \<le> ck_time ck (snd (ck_now ck w))"
    using Suc.prems unfolding clock_ok_def by (metis (no_types))
  with Suc.IH [OF Suc.prems, of "snd (ck_now ck w)"] show ?case by simp
qed simp

lemma reads_add: "reads ck m (reads ck n w) = reads ck (n + m) w"
  by (induction n arbitrary: w) simp_all

lemma clock_ok_after: "clock_ok ck \<Longrightarrow> saturating_add (ck_time ck w) d \<le> ck_time ck (ck_after ck d w)"
  by (simp add: clock_ok_def)

lemma platform_okD:
  assumes "platform_ok pf"
  shows "heapless_ok (pf_bytes pf)" "heapless_ok (pf_tx pf)" "heapless_ok (pf_rx pf)"
    "channel_ok (pf_tx_in pf)" "channel_ok (pf_rx_out pf)" "time_ok (pf_time pf)" "clock_ok (pf_clock pf)"
  using assms by (simp_all add: platform_ok_def)

lemma saturating_add_gt:
  fixes t d :: u64
  assumes "t < u" "0 < d"
  shows "t < saturating_add t d"
proof -
  have "unat t < unat u" "unat u < 2 ^ 64" "0 < unat d"
    using assms unsigned_less [of u, where ?'a = nat] by (simp_all add: word_less_nat_alt)
  then show ?thesis by (simp add: word_less_nat_alt unat_saturating_add)
qed

lemma cad_loop_returns:
  assumes pf: "platform_ok pf" and rng: "random_source (pf_random pf)"
    and pos: "0 < dur_from_millis (pf_time pf) (ucast (cad_retry_min_ms config))"
  shows "\<exists>clear r' g' w'. cad_loop pf config deadline r g w = Some (clear, r', g', w') \<and>
    ck_time (pf_clock pf) w \<le> ck_time (pf_clock pf) w' \<and> (\<not> clear \<longrightarrow> deadline \<le> ck_time (pf_clock pf) w')"
proof (induction "2 ^ 64 - unat (ck_time (pf_clock pf) w)" arbitrary: r g w rule: less_induct)
  case less
  let ?ck = "pf_clock pf"
  obtain res r1 where ca: "rd_channel_active (pf_radio pf) r = (res, r1)" by fastforce
  show ?case
  proof (cases "res = Inr True")
    case False
    then show ?thesis by (subst cad_loop.simps) (auto simp: ca split: sum.split)
  next
    case active: True
    obtain now w1 where n: "ck_now ?ck w = (now, w1)" by fastforce
    note now = clock_okD [OF platform_okD(7) [OF pf] n]
    show ?thesis
    proof (cases "now \<ge> deadline")
      case True
      then show ?thesis using now by (subst cad_loop.simps) (auto simp: ca active n)
    next
      case False
      obtain delay g1 where dl: "next_u32 (pf_random pf) g (cad_retry_min_ms config) (cad_retry_max_ms config) = (delay, g1)"
        by fastforce
      let ?d = "dur_from_millis (pf_time pf) (ucast delay)"
      have "cad_retry_min_ms config \<le> delay"
        using random_source.next_u32_le [OF rng, of "cad_retry_min_ms config" g "cad_retry_max_ms config"] dl by simp
      then have "0 < ?d" using pos time_okD(7) [OF platform_okD(6) [OF pf]] by (meson less_le_trans)
      let ?w2 = "ck_after ?ck ?d w1"
      have "now < saturating_add now ?d" using False \<open>0 < ?d\<close> by (intro saturating_add_gt [of now deadline]) simp_all
      also have "\<dots> \<le> ck_time ?ck ?w2" using clock_ok_after [OF platform_okD(7) [OF pf]] now(1) by simp
      finally have adv: "ck_time ?ck w < ck_time ?ck ?w2" using now(2) by simp
      then have "2 ^ 64 - unat (ck_time ?ck ?w2) < 2 ^ 64 - unat (ck_time ?ck w)"
        using unsigned_less [of "ck_time ?ck ?w2", where ?'a = nat] by (simp add: word_less_nat_alt)
      from less [OF this, of r1 g1] adv show ?thesis
        using False by (subst cad_loop.simps) (force simp: ca active n dl)
    qed
  qed
qed

lemma wait_for_clear_channel_returns:
  assumes pf: "platform_ok pf" and rng: "random_source (pf_random pf)"
    and pos: "0 < dur_from_millis (pf_time pf) (ucast (cad_retry_min_ms (dp_config d)))"
    and room: "unat (fst (ck_now (pf_clock pf) w)) +
      unat (dur_from_millis (pf_time pf) (ucast (cad_timeout_ms (dp_config d)))) < 2 ^ 64"
  shows "\<exists>clear r g w'. wait_for_clear_channel pf d w = Some (clear, d\<lparr>dp_radio := r, dp_rng := g\<rparr>, w') \<and>
    fst (ck_now (pf_clock pf) w) \<le> ck_time (pf_clock pf) w' \<and>
    (\<not> clear \<longrightarrow> fst (ck_now (pf_clock pf) w) + dur_from_millis (pf_time pf) (ucast (cad_timeout_ms (dp_config d))) \<le>
      ck_time (pf_clock pf) w')"
proof -
  obtain now w1 where n: "ck_now (pf_clock pf) w = (now, w1)" by fastforce
  let ?dl = "now + dur_from_millis (pf_time pf) (ucast (cad_timeout_ms (dp_config d)))"
  obtain clear r g w' where "cad_loop pf (dp_config d) ?dl (dp_radio d) (dp_rng d) w1 = Some (clear, r, g, w')"
    "ck_time (pf_clock pf) w1 \<le> ck_time (pf_clock pf) w'" "\<not> clear \<longrightarrow> ?dl \<le> ck_time (pf_clock pf) w'"
    using cad_loop_returns [OF pf rng pos] by blast
  then show ?thesis
    using room n clock_okD [OF platform_okD(7) [OF pf] n]
    by (intro exI [of _ clear] exI [of _ r] exI [of _ g] exI [of _ w'])
      (simp add: wait_for_clear_channel_def time_okD(1) [OF platform_okD(6) [OF pf]])
qed

text \<open>What holds of the radio before carrier sensing and is kept by looking at the channel holds after it.\<close>

lemma cad_loop_keeps:
  assumes keeps: "\<And>r. P r \<Longrightarrow> P (snd (rd_channel_active (pf_radio pf) r))" and "P r"
    and "cad_loop pf config deadline r g w = Some (clear, r', g', w')"
  shows "P r'"
proof -
  have "\<forall>clear r' g' w'. y = (clear, r', g', w') \<longrightarrow> (\<forall>r. P r \<longrightarrow> P (snd (rd_channel_active (pf_radio pf) r))) \<longrightarrow> P r \<longrightarrow> P r'"
    if "cad_loop pf config deadline r g w = Some y" for y
    using that
  proof (induction rule: cad_loop.raw_induct [rotated 1, consumes 1])
    case (1 f pf config deadline r g w y)
    obtain res r1 where ca: "rd_channel_active (pf_radio pf) r = (res, r1)" by fastforce
    then have i1: "\<forall>r. P r \<longrightarrow> P (snd (rd_channel_active (pf_radio pf) r)) \<Longrightarrow> P r \<Longrightarrow> P r1" by (metis snd_conv)
    obtain now w1 where n: "ck_now (pf_clock pf) w = (now, w1)" by fastforce
    obtain delay g1 where dl: "next_u32 (pf_random pf) g (cad_retry_min_ms config) (cad_retry_max_ms config) = (delay, g1)"
      by fastforce
    show ?case
      using "1"(2) i1 "1"(1) [of pf config deadline r1 g1 _ y]
      by (auto simp: ca n dl split: sum.splits if_splits)
  qed
  with assms show ?thesis by blast
qed

text \<open>Looking at the channel, as a step of the radio.\<close>

definition sense :: "('r, 'g, 'w) platform \<Rightarrow> 'r \<Rightarrow> 'r" where
  "sense pf r = snd (rd_channel_active (pf_radio pf) r)"

lemma cad_loop_senses:
  assumes "cad_loop pf config deadline r g w = Some (clear, r', g', w')"
  shows "\<exists>n. r' = (sense pf ^^ n) r"
proof -
  have "\<exists>m. snd (rd_channel_active (pf_radio pf) x) = (sense pf ^^ m) r" if "\<exists>n. x = (sense pf ^^ n) r" for x
    using that by (metis funpow.simps(2) comp_apply sense_def)
  from cad_loop_keeps [of "\<lambda>x. \<exists>n. x = (sense pf ^^ n) r", OF this _ assms] show ?thesis
    by (metis funpow_0)
qed

lemma cad_loop_looks:
  assumes "cad_loop pf config deadline r g w = Some (clear, r', g', w')"
  shows "\<exists>n > 0. r' = (sense pf ^^ n) r"
proof -
  obtain res r1 where ca: "rd_channel_active (pf_radio pf) r = (res, r1)" by fastforce
  then have r1: "r1 = sense pf r" by (simp add: sense_def)
  obtain now w1 where n: "ck_now (pf_clock pf) w = (now, w1)" by fastforce
  obtain delay g1 where dl: "next_u32 (pf_random pf) g (cad_retry_min_ms config) (cad_retry_max_ms config) = (delay, g1)" by fastforce
  from assms have "r' = r1 \<or> (\<exists>w2. cad_loop pf config deadline r1 g1 w2 = Some (clear, r', g', w'))"
    unfolding cad_loop.simps [of pf config deadline r g w] ca by (auto simp: n dl split: sum.splits if_splits)
  then have "\<exists>n. r' = (sense pf ^^ n) r1"
    using cad_loop_senses by (metis funpow_0)
  then obtain n where "r' = (sense pf ^^ Suc n) r" unfolding r1 by (metis funpow_Suc_right comp_apply)
  then show ?thesis by blast
qed

lemma wait_for_clear_channel_looks:
  assumes "wait_for_clear_channel pf d w = Some (clear, d1, w')"
  shows "\<exists>n g. 0 < n \<and> d1 = d\<lparr>dp_radio := (sense pf ^^ n) (dp_radio d), dp_rng := g\<rparr>"
  using assms cad_loop_looks by (fastforce simp: wait_for_clear_channel_def bind_eq_Some_conv split: prod.splits)

section \<open>Reception\<close>

lemma read_from_decode:
  assumes "heapless_ok hv"
  shows "\<exists>q. read_from hv Packet_new src =
    Some (case decode_packet src of Some p \<Rightarrow> (True, p) | None \<Rightarrow> (False, q))"
proof -
  obtain b q where r: "read_from hv Packet_new src = Some (b, q)" using read_from_total [OF assms] by blast
  have iff: "read_from hv Packet_new src = Some (True, p) \<longleftrightarrow> read_from list_heapless Packet_new src = Some (True, p)" for p
  proof
    assume a: "read_from hv Packet_new src = Some (True, p)"
    from read_from_sound [OF assms this] have "wf_packet p" "wire_bytes p = src" "p\<lparr>snr := snr Packet_new\<rparr> = p" by auto
    with read_from_complete [OF list_heapless_ok, of p Packet_new]
    show "read_from list_heapless Packet_new src = Some (True, p)" by simp
  next
    assume a: "read_from list_heapless Packet_new src = Some (True, p)"
    from read_from_sound [OF list_heapless_ok this] have "wf_packet p" "wire_bytes p = src" "p\<lparr>snr := snr Packet_new\<rparr> = p" by auto
    with read_from_complete [OF assms, of p Packet_new]
    show "read_from hv Packet_new src = Some (True, p)" by simp
  qed
  show ?thesis
  proof (cases b)
    case True
    with r iff have "decode_packet src = Some q" by (simp add: decode_packet_iff)
    with r True show ?thesis by simp
  next
    case False
    have "decode_packet src = None"
    proof (rule ccontr)
      assume "decode_packet src \<noteq> None"
      then obtain p where "decode_packet src = Some p" by blast
      with iff r False show False by (simp add: decode_packet_iff)
    qed
    with r False show ?thesis by auto
  qed
qed

lemma decode_packet_wf: "decode_packet src = Some p \<Longrightarrow> wf_packet p \<and> wire_bytes p = src"
  using read_from_sound [OF list_heapless_ok] by (auto simp: decode_packet_iff)

text \<open>The delay of a received packet: only flood packets have one.\<close>

definition rx_delay_of :: "('r, 'g, 'w) platform \<Rightarrow> ('r, 'g) Dispatcher \<Rightarrow> RecvResult \<Rightarrow> Packet \<Rightarrow> u32 option" where
  "rx_delay_of pf d rr p =
     (if packet_is_flood p
      then calc_rx_delay (rr_snr rr) (rd_estimate_airtime_ms (pf_radio pf) (dp_radio d) (rr_len rr)) (dp_config d)
      else None)"

definition received :: "RecvResult \<Rightarrow> Packet \<Rightarrow> RxPacket" where
  "received rr p = \<lparr>rx_packet = p, rx_rssi = rr_rssi rr, rx_snr = rr_snr rr\<rparr>"

lemma handle_rx_eq:
  assumes pf: "platform_ok pf" and len: "rr_len rr \<le> length buf"
  shows "handle_rx pf (Inr rr) buf (d, rx_out, w) =
    (case decode_packet (take (rr_len rr) buf) of
       None \<Rightarrow> Some (d, rx_out, w)
     | Some p \<Rightarrow>
         (let d = d\<lparr>dp_stats := count_received (packet_is_flood p) (dp_stats d)\<rparr> in
          case rx_delay_of pf d rr p of
            None \<Rightarrow> Some (d, if length rx_out < pf_RX_Q pf then rx_out @ [received rr p] else rx_out, w)
          | Some ms \<Rightarrow>
              (let (now, w) = ck_now (pf_clock pf) w in
               map_option (\<lambda>at. (if length (rx_entries (dp_rx_delay_queue d)) < pf_RX_Q pf
                    then d\<lparr>dp_rx_delay_queue := (dp_rx_delay_queue d)\<lparr>rx_entries := rx_entries (dp_rx_delay_queue d) @
                      [\<lparr>rde_packet = received rr p, deliver_at = at\<rparr>]\<rparr>\<rparr>
                    else d, rx_out, w))
                 (inst_add (pf_time pf) now (dur_from_millis (pf_time pf) (ucast ms))))))"
proof -
  obtain q where r: "read_from (pf_bytes pf) Packet_new (take (rr_len rr) buf) =
      Some (case decode_packet (take (rr_len rr) buf) of Some p \<Rightarrow> (True, p) | None \<Rightarrow> (False, q))"
    using read_from_decode [OF platform_okD(1) [OF pf]] by blast
  have sl: "slice buf 0 (rr_len rr) = Some (take (rr_len rr) buf)" using len by (simp add: slice_def)
  show ?thesis
  proof (cases "decode_packet (take (rr_len rr) buf)")
    case None
    with r sl show ?thesis by (simp add: handle_rx_def)
  next
    case (Some p)
    have hp: "hv_push (pf_rx pf) n xs x = (if length xs < n then Inr (xs @ [x]) else Inl x)" for n xs x
      using platform_okD(3) [OF pf] by simp
    have ch: "ch_try_send (pf_rx_out pf) n xs x = (if length xs < n then Inr (xs @ [x]) else Inl x)" for n xs x
      using platform_okD(5) [OF pf] by simp
    show ?thesis
      using r sl Some
      by (simp add: handle_rx_def rx_delay_of_def received_def deliver_def rx_push_def hp ch Let_def
          map_option_case split: option.split prod.split if_split)
  qed
qed

lemma rx_delay_of_stats [simp]: "rx_delay_of pf (d\<lparr>dp_stats := st\<rparr>) rr p = rx_delay_of pf d rr p"
  by (simp add: rx_delay_of_def)

lemma rx_delay_of_le: "rx_delay_of pf d rr p = Some ms \<Longrightarrow> ms \<le> max_rx_delay_ms (dp_config d)"
  by (auto simp: rx_delay_of_def calc_rx_delay_def Let_def split: if_splits)

text \<open>The delivery time of a delayed packet does not overflow when the longest delay does not.\<close>

lemma deliver_at_no_overflow:
  assumes "time_ok tm" "ms \<le> m" "unat now + unat (dur_from_millis tm (ucast (m :: u32))) < 2 ^ 64"
  shows "inst_add tm now (dur_from_millis tm (ucast ms)) = Some (now + dur_from_millis tm (ucast ms))"
proof -
  have "unat (dur_from_millis tm (ucast ms)) \<le> unat (dur_from_millis tm (ucast m))"
    using time_okD(7) [OF assms(1,2)] by (simp add: word_le_nat_alt)
  then show ?thesis using assms(3) by (simp add: time_okD(1) [OF assms(1)])
qed

section \<open>A concrete platform, for the witnesses\<close>

text \<open>A clock that moves on by one tick with every fourth reading; the mock radio and generator; list containers.\<close>

definition demo_clock :: "(instant \<times> nat) clock" where
  "demo_clock = \<lparr>
     ck_now = (\<lambda>(t, k). if k \<ge> 3 then (saturating_add t 1, (saturating_add t 1, 0)) else (t, (t, k + 1))),
     ck_after = (\<lambda>d (t, k). (saturating_add t d, k)),
     ck_time = fst\<rparr>"

lemma demo_clock_ok: "clock_ok demo_clock"
  by (auto simp: clock_ok_def demo_clock_def saturating_add_ge)

definition demo_platform :: "nat \<Rightarrow> nat \<Rightarrow> (MockRadio, MockRng, instant \<times> nat) platform" where
  "demo_platform tx_q rx_q = \<lparr>pf_radio = mock_radio list_containers, pf_random = mock_random, pf_bytes = list_heapless,
     pf_tx = list_heapless, pf_rx = list_heapless, pf_tx_in = list_channel, pf_rx_out = list_channel,
     pf_time = ms_time, pf_clock = demo_clock, pf_TX_Q = tx_q, pf_RX_Q = rx_q\<rparr>"

lemma demo_platform_ok: "platform_ok (demo_platform tx_q rx_q)"
  by (simp add: platform_ok_def demo_platform_def demo_clock_ok)

definition demo_dispatcher :: "(MockRadio, MockRng) Dispatcher" where
  "demo_dispatcher = Dispatcher_new ms_time MockRadio_new (MockRng_new 7) DispatcherConfig_default"

section \<open>Properties of reception and carrier sensing\<close>

text \<open>
  C12: Handling what the radio received, on every branch and without a panic: a frame that is no packet changes nothing; a packet is counted once,
  by its route; a flood packet that the delay formula holds back goes to the delay queue with its delivery time, if there is room; every other packet is
  offered to the mesh layer at once. Queues other than those, the duty cycle and the radio are untouched.
\<close>
theorem handle_rx_spec:
  assumes "platform_ok pf" "rr_len rr \<le> length buf"
    and "unat (fst (ck_now (pf_clock pf) w)) + unat (dur_from_millis (pf_time pf) (ucast (max_rx_delay_ms (dp_config d)))) < 2 ^ 64"
  shows "\<exists>d' out' w'. handle_rx pf (Inr rr) buf (d, out, w) = Some (d', out', w') \<and>
    (case decode_packet (take (rr_len rr) buf) of
       None \<Rightarrow> d' = d \<and> out' = out
     | Some p \<Rightarrow> wf_packet p \<and> wire_bytes p = take (rr_len rr) buf \<and>
         dp_stats d' = count_received (packet_is_flood p) (dp_stats d) \<and>
         (case rx_delay_of pf d rr p of
            None \<Rightarrow> rx_entries (dp_rx_delay_queue d') = rx_entries (dp_rx_delay_queue d) \<and>
              out' = (if length out < pf_RX_Q pf then out @ [received rr p] else out)
          | Some ms \<Rightarrow> out' = out \<and>
              rx_entries (dp_rx_delay_queue d') = (if length (rx_entries (dp_rx_delay_queue d)) < pf_RX_Q pf
                then rx_entries (dp_rx_delay_queue d) @ [\<lparr>rde_packet = received rr p,
                  deliver_at = fst (ck_now (pf_clock pf) w) + dur_from_millis (pf_time pf) (ucast ms)\<rparr>]
                else rx_entries (dp_rx_delay_queue d)))) \<and>
    dp_tx_queue d' = dp_tx_queue d \<and> dp_duty_cycle d' = dp_duty_cycle d \<and> dp_radio d' = dp_radio d"
proof (cases "decode_packet (take (rr_len rr) buf)")
  case None
  then show ?thesis by (simp add: handle_rx_eq [OF assms(1,2)])
next
  case (Some p)
  note wf = decode_packet_wf [OF Some]
  show ?thesis
  proof (cases "rx_delay_of pf d rr p")
    case None
    with Some wf show ?thesis by (simp add: handle_rx_eq [OF assms(1,2)])
  next
    case ms: (Some ms)
    obtain now w1 where n: "ck_now (pf_clock pf) w = (now, w1)" by fastforce
    from assms(3) n have "inst_add (pf_time pf) now (dur_from_millis (pf_time pf) (ucast ms)) =
        Some (now + dur_from_millis (pf_time pf) (ucast ms))"
      using deliver_at_no_overflow [OF platform_okD(6) [OF assms(1)] rx_delay_of_le [OF ms]] by simp
    with Some wf ms n show ?thesis by (simp add: handle_rx_eq [OF assms(1,2)])
  qed
qed

lemma handle_rx_spec_witness:
  "\<exists>d' out' w'. handle_rx (demo_platform 4 4) (Inr \<lparr>rr_len = 2, rr_rssi = f32_zero, rr_snr = f32_zero\<rparr>) (replicate 255 0xFF)
     (demo_dispatcher, [], (0, 0)) = Some (d', out', w') \<and> d' = demo_dispatcher \<and> out' = []"
proof -
  have "decode_packet (take 2 (replicate 255 0xFF)) = None" by code_simp
  with handle_rx_spec [where pf = "demo_platform 4 4" and rr = "\<lparr>rr_len = 2, rr_rssi = f32_zero, rr_snr = f32_zero\<rparr>"
      and buf = "replicate 255 0xFF" and w = "(0, 0)" and d = demo_dispatcher and out = "[]", OF demo_platform_ok]
  show ?thesis
    by (simp add: demo_platform_def demo_clock_def demo_dispatcher_def Dispatcher_new_def DispatcherConfig_default_def)
qed

text \<open>
  C15: When the delay queue is full, a held-back flood packet is lost even though the channel to the mesh layer has room: it is neither queued nor delivered,
  where the code announces an immediate delivery. Only the statistics count it.
\<close>
theorem full_delay_queue_drops_packet:
  assumes "platform_ok pf" "rr_len rr \<le> length buf"
    and "unat (fst (ck_now (pf_clock pf) w)) + unat (dur_from_millis (pf_time pf) (ucast (max_rx_delay_ms (dp_config d)))) < 2 ^ 64"
    and "decode_packet (take (rr_len rr) buf) = Some p" "rx_delay_of pf d rr p = Some ms"
    and "length (rx_entries (dp_rx_delay_queue d)) = pf_RX_Q pf" "length out < pf_RX_Q pf"
  shows "handle_rx pf (Inr rr) buf (d, out, w) =
    Some (d\<lparr>dp_stats := count_received (packet_is_flood p) (dp_stats d)\<rparr>, out, snd (ck_now (pf_clock pf) w))"
proof -
  obtain now w1 where n: "ck_now (pf_clock pf) w = (now, w1)" by fastforce
  from assms(3) n have "inst_add (pf_time pf) now (dur_from_millis (pf_time pf) (ucast ms)) =
      Some (now + dur_from_millis (pf_time pf) (ucast ms))"
    using deliver_at_no_overflow [OF platform_okD(6) [OF assms(1)] rx_delay_of_le [OF assms(5)]] by simp
  then show ?thesis using assms(4-6) n by (simp add: handle_rx_eq [OF assms(1,2)])
qed

definition demo_full_dispatcher :: "(MockRadio, MockRng) Dispatcher" where
  "demo_full_dispatcher = demo_dispatcher\<lparr>dp_rx_delay_queue := \<lparr>rx_entries = [\<lparr>rde_packet = sample_rx_packet, deliver_at = 5\<rparr>]\<rparr>\<rparr>"

lemma decode_sample: "decode_packet (wire_bytes sample_packet) = Some sample_packet"
proof -
  have "read_from list_heapless Packet_new (wire_bytes sample_packet) = Some (True, sample_packet)"
    using read_from_complete [OF list_heapless_ok sample_packet_wf, of Packet_new]
    by (simp add: Packet_new_def sample_packet_def)
  then show ?thesis by (simp add: decode_packet_iff)
qed

lemma sample_packet_flood: "packet_is_flood sample_packet"
  by code_simp

lemma sample_delay: "calc_rx_delay (f32_lit (- 20) 1) 24 DispatcherConfig_default = Some 32000"
  by code_simp

lemma full_delay_queue_drops_packet_witness:
  "handle_rx (demo_platform 1 1) (Inr \<lparr>rr_len = 12, rr_rssi = f32_zero, rr_snr = f32_lit (- 20) 1\<rparr>)
     (wire_bytes sample_packet) (demo_full_dispatcher, [], (0, 0)) =
   Some (demo_full_dispatcher\<lparr>dp_stats := DispatcherStats_default\<lparr>recv_flood := 1\<rparr>\<rparr>, [], (0, 1))"
proof -
  have l: "length (wire_bytes sample_packet) = 12" by (simp add: sample_packet_wire)
  have d: "decode_packet (take 12 (wire_bytes sample_packet)) = Some sample_packet"
    using decode_sample l by simp
  have r: "rx_delay_of (demo_platform 1 1) demo_full_dispatcher \<lparr>rr_len = 12, rr_rssi = f32_zero, rr_snr = f32_lit (- 20) 1\<rparr>
      sample_packet = Some 32000"
    using sample_delay sample_packet_flood
    by (simp add: rx_delay_of_def demo_platform_def mock_radio_def mock_estimate_airtime_ms_def demo_full_dispatcher_def
        demo_dispatcher_def Dispatcher_new_def)
  show ?thesis
    using full_delay_queue_drops_packet [OF demo_platform_ok _ _ _ r, where buf = "wire_bytes sample_packet" and w = "(0, 0)" and out = "[]"] d l
    by (simp add: demo_full_dispatcher_def demo_dispatcher_def Dispatcher_new_def demo_platform_def demo_clock_def
        DispatcherConfig_default_def DispatcherStats_default_def count_received_def sample_packet_flood)
qed

text \<open>
  C13: Listening before talking always ends: with a retry delay of at least a tick it returns whatever the channel, the random generator and the clock do,
  and it reports a busy channel only after the timeout has passed; only the radio's and the generator's states change.
\<close>
theorem listen_before_talk_returns:
  assumes "platform_ok pf" "random_source (pf_random pf)"
    and "0 < dur_from_millis (pf_time pf) (ucast (cad_retry_min_ms (dp_config d)))"
    and "unat (fst (ck_now (pf_clock pf) w)) + unat (dur_from_millis (pf_time pf) (ucast (cad_timeout_ms (dp_config d)))) < 2 ^ 64"
  shows "\<exists>clear r g w'. wait_for_clear_channel pf d w = Some (clear, d\<lparr>dp_radio := r, dp_rng := g\<rparr>, w') \<and>
    (\<not> clear \<longrightarrow> ck_time (pf_clock pf) w + dur_from_millis (pf_time pf) (ucast (cad_timeout_ms (dp_config d))) \<le>
      ck_time (pf_clock pf) w')"
proof -
  let ?t = "dur_from_millis (pf_time pf) (ucast (cad_timeout_ms (dp_config d)))"
  obtain now w1 where n: "ck_now (pf_clock pf) w = (now, w1)" by fastforce
  have "ck_time (pf_clock pf) w \<le> now" by (rule clock_okD(2) [OF platform_okD(7) [OF assms(1)] n])
  then have "ck_time (pf_clock pf) w + ?t \<le> now + ?t"
    using assms(4) n by (simp add: word_le_nat_alt unat_word_ariths)
  moreover obtain clear r g w' where
    "wait_for_clear_channel pf d w = Some (clear, d\<lparr>dp_radio := r, dp_rng := g\<rparr>, w')"
    "\<not> clear \<longrightarrow> now + ?t \<le> ck_time (pf_clock pf) w'"
    using wait_for_clear_channel_returns [OF assms] n by auto
  ultimately show ?thesis
    by (intro exI [of _ clear] exI [of _ r] exI [of _ g] exI [of _ w']) (auto intro: order.trans)
qed

lemma listen_before_talk_returns_witness:
  "\<exists>clear r g w'. wait_for_clear_channel (demo_platform 4 4) demo_dispatcher (0, 0) =
     Some (clear, demo_dispatcher\<lparr>dp_radio := r, dp_rng := g\<rparr>, w')"
proof -
  have "random_source (pf_random (demo_platform 4 4))"
    using mock_rng.random_source_axioms by (simp add: demo_platform_def)
  moreover have "0 < dur_from_millis (pf_time (demo_platform 4 4)) (ucast (cad_retry_min_ms (dp_config demo_dispatcher)))"
    "unat (fst (ck_now (pf_clock (demo_platform 4 4)) (0, 0))) +
      unat (dur_from_millis (pf_time (demo_platform 4 4)) (ucast (cad_timeout_ms (dp_config demo_dispatcher)))) < 2 ^ 64"
    by (simp_all add: demo_platform_def demo_clock_def demo_dispatcher_def Dispatcher_new_def DispatcherConfig_default_def)
  ultimately show ?thesis
    using listen_before_talk_returns [OF demo_platform_ok, of 4 4 demo_dispatcher "(0, 0)"] by blast
qed

text \<open>
  C14: The wake-up the loop sleeps until is exact: it is the earliest time anything in the two queues is due, there is none only when both are
  empty, and before it neither queue has anything to hand out.
\<close>
theorem next_wake_time_exact:
  assumes "platform_ok pf"
  shows "(next_wake_time d = None \<longleftrightarrow> tx_entries (dp_tx_queue d) = [] \<and> rx_entries (dp_rx_delay_queue d) = []) \<and>
    (\<forall>t. next_wake_time d = Some t \<longleftrightarrow>
      t \<in> send_after ` set (tx_entries (dp_tx_queue d)) \<union> deliver_at ` set (rx_entries (dp_rx_delay_queue d)) \<and>
      (\<forall>e \<in> set (tx_entries (dp_tx_queue d)). t \<le> send_after e) \<and>
      (\<forall>e \<in> set (rx_entries (dp_rx_delay_queue d)). t \<le> deliver_at e)) \<and>
    (\<forall>t now. next_wake_time d = Some t \<and> now < t \<longrightarrow>
      tx_pop_ready (pf_tx pf) now (dp_tx_queue d) = Some (None, dp_tx_queue d) \<and>
      rx_pop_ready (pf_rx pf) (pf_time pf) now (dp_rx_delay_queue d) = Some (None, dp_rx_delay_queue d))"
proof -
  let ?ts = "map send_after (tx_entries (dp_tx_queue d))" and ?us = "map deliver_at (rx_entries (dp_rx_delay_queue d))"
  have nw: "next_wake_time d = min_instant (?ts @ ?us)"
  proof (cases "min_instant ?ts"; cases "min_instant ?us")
    fix a b assume a: "min_instant ?ts = Some a" and b: "min_instant ?us = Some b"
    then have "min_instant (?ts @ ?us) = Some (if a < b then a else b)"
      unfolding min_instant_iff by (auto intro: order.trans less_imp_le)
    with a b show ?thesis by (simp add: next_wake_time_def tx_next_ready_time_def rx_next_ready_time_def)
  qed (auto simp: next_wake_time_def tx_next_ready_time_def rx_next_ready_time_def)
  have iff: "next_wake_time d = Some t \<longleftrightarrow>
      t \<in> send_after ` set (tx_entries (dp_tx_queue d)) \<union> deliver_at ` set (rx_entries (dp_rx_delay_queue d)) \<and>
      (\<forall>e \<in> set (tx_entries (dp_tx_queue d)). t \<le> send_after e) \<and>
      (\<forall>e \<in> set (rx_entries (dp_rx_delay_queue d)). t \<le> deliver_at e)" for t
    unfolding nw min_instant_iff by auto
  have none: "next_wake_time d = None \<longleftrightarrow> tx_entries (dp_tx_queue d) = [] \<and> rx_entries (dp_rx_delay_queue d) = []"
    unfolding nw by simp
  have quiet: "tx_pop_ready (pf_tx pf) now (dp_tx_queue d) = Some (None, dp_tx_queue d) \<and>
      rx_pop_ready (pf_rx pf) (pf_time pf) now (dp_rx_delay_queue d) = Some (None, dp_rx_delay_queue d)"
    if "next_wake_time d = Some t" "now < t" for t now
  proof
    show "tx_pop_ready (pf_tx pf) now (dp_tx_queue d) = Some (None, dp_tx_queue d)"
      using that iff [of t] by (intro tx_pop_none [OF platform_okD(2) [OF assms]]) (auto simp: tx_ready_def)
    show "rx_pop_ready (pf_rx pf) (pf_time pf) now (dp_rx_delay_queue d) = Some (None, dp_rx_delay_queue d)"
      using that iff [of t] by (intro rx_pop_none [OF platform_okD(3,6) [OF assms]]) (auto simp: rx_ready_def)
  qed
  show ?thesis using iff none quiet by blast
qed

lemma next_wake_time_exact_witness:
  "next_wake_time demo_full_dispatcher = Some 5 \<and>
   rx_pop_ready list_heapless ms_time 4 (dp_rx_delay_queue demo_full_dispatcher) = Some (None, dp_rx_delay_queue demo_full_dispatcher)"
proof -
  have nw: "next_wake_time demo_full_dispatcher = Some 5"
    by (simp add: demo_full_dispatcher_def demo_dispatcher_def Dispatcher_new_def TxQueue_new_def next_wake_time_def
        tx_next_ready_time_def rx_next_ready_time_def min_instant_def)
  have "\<forall>t now. next_wake_time demo_full_dispatcher = Some t \<and> now < t \<longrightarrow>
      rx_pop_ready list_heapless ms_time now (dp_rx_delay_queue demo_full_dispatcher) = Some (None, dp_rx_delay_queue demo_full_dispatcher)"
    using next_wake_time_exact [OF demo_platform_ok, of demo_full_dispatcher 4 4]
    by (simp add: demo_platform_def)
  from this [rule_format, of 5 4] nw show ?thesis by simp
qed

section \<open>Transmission\<close>

definition sendable :: "nat \<Rightarrow> TxEntry \<Rightarrow> bool" where
  "sendable n e \<longleftrightarrow> path_complete (te_packet e) \<and> wire_len (te_packet e) \<le> n"

text \<open>The hypotheses under which carrier sensing started at a clock state returns.\<close>

definition cad_ok :: "('r, 'g, 'w) platform \<Rightarrow> DispatcherConfig \<Rightarrow> 'w \<Rightarrow> bool" where
  "cad_ok pf config w \<longleftrightarrow> random_source (pf_random pf) \<and>
     0 < dur_from_millis (pf_time pf) (ucast (cad_retry_min_ms config)) \<and>
     unat (fst (ck_now (pf_clock pf) w)) + unat (dur_from_millis (pf_time pf) (ucast (cad_timeout_ms config))) < 2 ^ 64"

text \<open>
  The outcome of a transmission: the channel is looked at until carrier sensing is over, the wire image is handed to the radio once, and the charge is the time between the
  readings of the clock before and after.
\<close>

definition charged :: "(RadioError + unit) \<Rightarrow> u32 \<Rightarrow> TxEntry \<Rightarrow> ('r, 'g) Dispatcher \<Rightarrow> ('r, 'g) Dispatcher" where
  "charged result ms e d = (case result of
     Inr _ \<Rightarrow> d\<lparr>dp_duty_cycle := deduct (dp_duty_cycle d) ms, dp_stats := count_sent (packet_is_flood (te_packet e)) ms (dp_stats d)\<rparr>
   | Inl _ \<Rightarrow> d)"

lemma charged_fields [simp]:
  "dp_radio (charged result ms e d) = dp_radio d" "dp_tx_queue (charged result ms e d) = dp_tx_queue d"
  by (simp_all add: charged_def split: sum.split)

definition on_the_air ::
    "('r, 'g, 'w) platform \<Rightarrow> TxEntry \<Rightarrow> ('r, 'g) Dispatcher \<times> u8 list \<times> 'w \<Rightarrow> ('r, 'g) Dispatcher \<times> u8 list \<times> 'w \<Rightarrow> bool" where
  "on_the_air pf e = (\<lambda>(d, buf, w) (d', buf', w').
     \<exists>clear n g v start v1 stop result r.
       0 < n \<and> wait_for_clear_channel pf d w = Some (clear, d\<lparr>dp_radio := (sense pf ^^ n) (dp_radio d), dp_rng := g\<rparr>, v) \<and>
       ck_now (pf_clock pf) v = (start, v1) \<and> ck_now (pf_clock pf) v1 = (stop, w') \<and>
       rd_send (pf_radio pf) (wire_bytes (te_packet e)) ((sense pf ^^ n) (dp_radio d)) = (result, r) \<and>
       d' = charged result (ucast (dur_as_millis (pf_time pf) (stop - start))) e (d\<lparr>dp_radio := r, dp_rng := g\<rparr>) \<and>
       buf' = wire_bytes (te_packet e) @ drop (wire_len (te_packet e)) buf)"

lemma transmit_entry_air:
  assumes pf: "platform_ok pf" and cad: "cad_ok pf (dp_config d) w" and s: "sendable (length buf) e"
  shows "\<exists>x. transmit_entry pf e (d, buf, w) = Some x \<and> on_the_air pf e (d, buf, w) x"
proof -
  let ?p = "te_packet e" and ?ck = "pf_clock pf"
  obtain clear r g w1 where "wait_for_clear_channel pf d w = Some (clear, d\<lparr>dp_radio := r, dp_rng := g\<rparr>, w1)"
    using wait_for_clear_channel_returns [OF pf] cad unfolding cad_ok_def by blast
  then obtain n where wfc: "0 < n" "wait_for_clear_channel pf d w = Some (clear, d\<lparr>dp_radio := (sense pf ^^ n) (dp_radio d), dp_rng := g\<rparr>, w1)"
    using wait_for_clear_channel_looks [of pf d w clear "d\<lparr>dp_radio := r, dp_rng := g\<rparr>" w1] by (auto dest: arg_cong [of _ _ dp_radio])
  have len: "length (wire_bytes ?p) = wire_len ?p" using s by (simp add: sendable_def length_wire_bytes)
  have w: "write_to ?p buf = Some (wire_len ?p, wire_bytes ?p @ drop (wire_len ?p) buf)"
    using s by (simp add: write_to_eq sendable_def)
  have sl: "slice (wire_bytes ?p @ drop (wire_len ?p) buf) 0 (wire_len ?p) = Some (wire_bytes ?p)"
    using len by (simp add: slice_def)
  obtain start w2 where n1: "ck_now ?ck w1 = (start, w2)" by fastforce
  obtain stop w3 where n2: "ck_now ?ck w2 = (stop, w3)" by fastforce
  obtain res r' where snd: "rd_send (pf_radio pf) (wire_bytes ?p) ((sense pf ^^ n) (dp_radio d)) = (res, r')" by fastforce
  have "start \<le> stop"
    using clock_okD [OF platform_okD(7) [OF pf] n1] clock_okD [OF platform_okD(7) [OF pf] n2] by simp
  then have el: "inst_sub (pf_time pf) stop start = Some (stop - start)"
    by (simp add: time_okD(2) [OF platform_okD(6) [OF pf]])
  let ?x = "(charged res (ucast (dur_as_millis (pf_time pf) (stop - start))) e (d\<lparr>dp_radio := r', dp_rng := g\<rparr>),
    wire_bytes ?p @ drop (wire_len ?p) buf, w3)"
  have "transmit_entry pf e (d, buf, w) = Some ?x"
    by (simp add: transmit_entry_def wfc w sl n1 n2 snd el charged_def Let_def split: sum.split)
  moreover have "on_the_air pf e (d, buf, w) ?x"
    unfolding on_the_air_def using wfc n1 n2 snd by fast
  ultimately show ?thesis by blast
qed

lemma refill_total:
  assumes "platform_ok pf" "last_refill dc \<le> now"
  shows "\<exists>dc'. refill (pf_time pf) dc now = Some dc'"
  using assms by (simp add: refill_def time_okD(2) [OF platform_okD(6)] Let_def)

text \<open>
  What transmitting the entry \<open>b\<close>, and putting the entry back, do to the dispatcher, its buffer and the clock when the refilled budget is \<open>dc\<close>. The order
  of the other entries in the queue is left open.
\<close>

definition transmitted ::
    "('r, 'g, 'w) platform \<Rightarrow> DutyCycleTracker \<Rightarrow> TxEntry \<Rightarrow> ('r, 'g) Dispatcher \<times> u8 list \<times> 'w \<Rightarrow> ('r, 'g) Dispatcher \<times> u8 list \<times> 'w \<Rightarrow> bool" where
  "transmitted pf dc b = (\<lambda>(d, buf, w) x.
     \<exists>q. mset (tx_entries (dp_tx_queue d)) = add_mset b (mset (tx_entries q)) \<and>
       on_the_air pf b (d\<lparr>dp_duty_cycle := dc, dp_tx_queue := q\<rparr>, buf, w) x)"

lemma transmittedD:
  assumes "transmitted pf dc b (d, buf, w) (d', buf', w')"
  shows "mset (tx_entries (dp_tx_queue d)) = add_mset b (mset (tx_entries (dp_tx_queue d'))) \<and>
    (\<exists>r. dp_radio d' = snd (rd_send (pf_radio pf) (wire_bytes (te_packet b)) r))"
proof -
  from assms obtain q n result ms r g where q: "mset (tx_entries (dp_tx_queue d)) = add_mset b (mset (tx_entries q))"
    and s: "rd_send (pf_radio pf) (wire_bytes (te_packet b)) ((sense pf ^^ n) (dp_radio d)) = (result, r)"
    and d': "d' = charged result ms b (d\<lparr>dp_duty_cycle := dc, dp_tx_queue := q, dp_radio := r, dp_rng := g\<rparr>)"
    unfolding transmitted_def on_the_air_def by auto
  from s have "r = snd (rd_send (pf_radio pf) (wire_bytes (te_packet b)) ((sense pf ^^ n) (dp_radio d)))" by simp
  then show ?thesis using q unfolding d' by (intro conjI exI) simp_all
qed

definition put_back ::
    "DutyCycleTracker \<Rightarrow> ('r, 'g) Dispatcher \<times> u8 list \<times> 'w \<Rightarrow> ('r, 'g) Dispatcher \<times> u8 list \<times> 'w \<Rightarrow> bool" where
  "put_back dc = (\<lambda>(d, buf, w) (d', buf', w').
     mset (tx_entries (dp_tx_queue d')) = mset (tx_entries (dp_tx_queue d)) \<and>
     d' = d\<lparr>dp_duty_cycle := dc, dp_tx_queue := dp_tx_queue d'\<rparr> \<and> buf' = buf \<and> w' = w)"

lemma maybe_transmit_allowed:
  assumes pf: "platform_ok pf" and n: "ck_now (pf_clock pf) w = (now, w1)" and dc: "refill (pf_time pf) (dp_duty_cycle d) now = Some dc"
    and pop: "tx_pop_ready (pf_tx pf) now (dp_tx_queue d) = Some (Some b, q')"
    and bag: "mset (tx_entries (dp_tx_queue d)) = add_mset b (mset (tx_entries q'))"
    and can: "can_transmit dc (rd_estimate_airtime_ms (pf_radio pf) (dp_radio d) (wire_len (te_packet b)))"
    and ok: "cad_ok pf (dp_config d) w1" "sendable (length buf) b"
  shows "\<exists>x. maybe_transmit pf (d, buf, w) = Some x \<and> transmitted pf dc b (d, buf, w1) x"
proof -
  let ?d1 = "d\<lparr>dp_duty_cycle := dc, dp_tx_queue := q'\<rparr>"
  have "cad_ok pf (dp_config ?d1) w1" using ok(1) by simp
  from transmit_entry_air [OF pf this ok(2)] obtain x where
    "transmit_entry pf b (?d1, buf, w1) = Some x" "on_the_air pf b (?d1, buf, w1) x" by blast
  then show ?thesis using can dc pop n bag by (auto simp: maybe_transmit_def transmitted_def)
qed

lemma maybe_transmit_refused:
  assumes pf: "platform_ok pf" and n: "ck_now (pf_clock pf) w = (now, w1)" and dc: "refill (pf_time pf) (dp_duty_cycle d) now = Some dc"
    and pop: "tx_pop_ready (pf_tx pf) now (dp_tx_queue d) = Some (Some b, q')"
    and bag: "mset (tx_entries (dp_tx_queue d)) = add_mset b (mset (tx_entries q'))"
    and can: "\<not> can_transmit dc (rd_estimate_airtime_ms (pf_radio pf) (dp_radio d) (wire_len (te_packet b)))"
    and len: "length (tx_entries (dp_tx_queue d)) \<le> pf_TX_Q pf"
  shows "\<exists>x. maybe_transmit pf (d, buf, w) = Some x \<and> put_back dc (d, buf, w1) x"
proof -
  have "length (tx_entries q') < pf_TX_Q pf" using len bag by (metis size_mset size_add_mset Suc_le_lessD)
  then have "tx_push_entry (pf_tx pf) (pf_TX_Q pf) q' b = (Inr (), q'\<lparr>tx_entries := tx_entries q' @ [b]\<rparr>)"
    using platform_okD(2) [OF pf] by (simp add: tx_push_entry_def)
  then show ?thesis using can dc pop n bag by (simp add: maybe_transmit_def put_back_def)
qed

text \<open>The three outcomes of \<open>maybe_transmit\<close>, from the clock state \<open>w\<close> after its first reading \<open>now\<close>.\<close>

definition transmit_outcome ::
    "('r, 'g, 'w) platform \<Rightarrow> instant \<Rightarrow> DutyCycleTracker \<Rightarrow> ('r, 'g) Dispatcher \<times> u8 list \<times> 'w \<Rightarrow> ('r, 'g) Dispatcher \<times> u8 list \<times> 'w \<Rightarrow> bool" where
  "transmit_outcome pf now dc = (\<lambda>(d, buf, w) x.
     if \<forall>e \<in> set (tx_entries (dp_tx_queue d)). now < send_after e then x = (d\<lparr>dp_duty_cycle := dc\<rparr>, buf, w)
     else \<exists>b \<in> set (tx_entries (dp_tx_queue d)). send_after b \<le> now \<and>
       (\<forall>e \<in> set (tx_entries (dp_tx_queue d)). send_after e \<le> now \<longrightarrow> tx_key b \<le> tx_key e) \<and>
       (if can_transmit dc (rd_estimate_airtime_ms (pf_radio pf) (dp_radio d) (wire_len (te_packet b)))
        then transmitted pf dc b (d, buf, w) x else put_back dc (d, buf, w) x))"

lemma maybe_transmit_cases:
  assumes "platform_ok pf" "length (tx_entries (dp_tx_queue d)) \<le> pf_TX_Q pf" "ck_now (pf_clock pf) w = (now, w1)"
    and "last_refill (dp_duty_cycle d) \<le> now" "cad_ok pf (dp_config d) w1"
    and "\<forall>e \<in> set (tx_entries (dp_tx_queue d)). sendable (length buf) e"
  shows "\<exists>dc x. refill (pf_time pf) (dp_duty_cycle d) now = Some dc \<and> maybe_transmit pf (d, buf, w) = Some x \<and>
    transmit_outcome pf now dc (d, buf, w1) x"
proof -
  let ?q = "dp_tx_queue d"
  obtain dc where dc: "refill (pf_time pf) (dp_duty_cycle d) now = Some dc" using refill_total assms(1,4) by blast
  show ?thesis
  proof (cases "\<forall>e \<in> set (tx_entries ?q). now < send_after e")
    case True
    then have "tx_pop_ready (pf_tx pf) now ?q = Some (None, ?q)"
      by (intro tx_pop_none [OF platform_okD(2) [OF assms(1)]]) (auto simp: tx_ready_def)
    with True dc assms(3) show ?thesis by (simp add: maybe_transmit_def transmit_outcome_def)
  next
    case False
    then obtain e where "e \<in> set (tx_entries ?q)" "tx_ready now e" by (auto simp: tx_ready_def not_less)
    from tx_pop_some [OF platform_okD(2) [OF assms(1)] this] obtain b q' where
      pop: "tx_pop_ready (pf_tx pf) now ?q = Some (Some b, q')" and b: "b \<in> set (tx_entries ?q)" "send_after b \<le> now"
      and least: "\<forall>f \<in> set (tx_entries ?q). send_after f \<le> now \<longrightarrow> tx_key b \<le> tx_key f"
      and q': "mset (tx_entries q') = mset (tx_entries ?q) - {#b#}"
      by (auto simp: tx_ready_def)
    have bag: "mset (tx_entries ?q) = add_mset b (mset (tx_entries q'))" using b(1) q' by simp
    obtain x where "maybe_transmit pf (d, buf, w) = Some x"
        "if can_transmit dc (rd_estimate_airtime_ms (pf_radio pf) (dp_radio d) (wire_len (te_packet b)))
         then transmitted pf dc b (d, buf, w1) x else put_back dc (d, buf, w1) x"
      using maybe_transmit_allowed [OF assms(1,3) dc pop bag _ assms(5), of buf] maybe_transmit_refused [OF assms(1,3) dc pop bag _ assms(2), of buf] assms(6) b(1)
      by (cases "can_transmit dc (rd_estimate_airtime_ms (pf_radio pf) (dp_radio d) (wire_len (te_packet b)))") auto
    moreover from this(2) have "transmit_outcome pf now dc (d, buf, w1) x"
      unfolding transmit_outcome_def prod.case if_not_P [OF False] using b least by (intro bexI [of _ b] conjI)
    ultimately show ?thesis using dc by blast
  qed
qed

text \<open>
  C11: Transmission, on every branch (\<open>transmit_outcome\<close>): the budget is refilled first; if no entry's time has come, nothing else changes; otherwise the most urgent
  entry whose time has come is considered, and if the budget does not allow its estimated airtime it stays in the queue and nothing else changes; if it
  does, the entry leaves the queue and the radio, after nothing but looks at the channel, is handed exactly its wire image, once; on success the budget and the statistics
  are charged the milliseconds between the readings of the clock just before and just after, and on failure nothing. Nothing else changes, and the call returns.
\<close>
theorem maybe_transmit_spec:
  assumes "platform_ok pf" "length (tx_entries (dp_tx_queue d)) \<le> pf_TX_Q pf" "ck_now (pf_clock pf) w = (now, w1)"
    and "last_refill (dp_duty_cycle d) \<le> now" "cad_ok pf (dp_config d) w1"
    and "\<forall>e \<in> set (tx_entries (dp_tx_queue d)). sendable (length buf) e"
  shows "\<exists>dc x. refill (pf_time pf) (dp_duty_cycle d) now = Some dc \<and> maybe_transmit pf (d, buf, w) = Some x \<and>
    transmit_outcome pf now dc (d, buf, w1) x"
  using maybe_transmit_cases [OF assms] .

definition demo_sender :: "(MockRadio, MockRng) Dispatcher" where
  "demo_sender = demo_dispatcher\<lparr>dp_tx_queue := \<lparr>tx_entries = [\<lparr>te_packet = sample_packet, te_priority = 0, send_after = 0\<rparr>]\<rparr>\<rparr>"

lemma demo_cad_ok: "cad_ok (demo_platform n m) DispatcherConfig_default (0, k)"
  using mock_rng.random_source_axioms
  by (simp add: cad_ok_def demo_platform_def demo_clock_def DispatcherConfig_default_def saturating_add_def)

lemma demo_time: "pf_time (demo_platform m n) = ms_time"
  by (simp add: demo_platform_def)

lemma maybe_transmit_spec_witness:
  "\<exists>dc x. refill ms_time (dp_duty_cycle demo_sender) 0 = Some dc \<and>
    maybe_transmit (demo_platform 4 4) (demo_sender, replicate 255 0, (0, 0)) = Some x \<and>
    transmit_outcome (demo_platform 4 4) 0 dc (demo_sender, replicate 255 0, (0, 1)) x"
proof -
  have c: "dp_config demo_sender = DispatcherConfig_default"
    by (simp add: demo_sender_def demo_dispatcher_def Dispatcher_new_def)
  have "length (tx_entries (dp_tx_queue demo_sender)) \<le> pf_TX_Q (demo_platform 4 4)"
    "ck_now (pf_clock (demo_platform 4 4)) (0, 0) = (0, (0, 1))"
    by (simp_all add: demo_sender_def demo_platform_def demo_clock_def)
  moreover have "last_refill (dp_duty_cycle demo_sender) \<le> 0"
    by (simp add: demo_sender_def demo_dispatcher_def Dispatcher_new_def default_tracker)
  moreover have "cad_ok (demo_platform 4 4) (dp_config demo_sender) (0, 1)"
    using demo_cad_ok [of 4 4 1] by (simp add: c)
  moreover have "\<forall>e \<in> set (tx_entries (dp_tx_queue demo_sender)). sendable (length (replicate 255 (0 :: u8))) e"
    using wf_wire_len_le [OF sample_packet_wf] by (simp add: demo_sender_def sendable_def)
  ultimately show ?thesis
    using maybe_transmit_spec [OF demo_platform_ok, of demo_sender 4 4 "(0, 0)" 0 "(0, 1)" "replicate 255 0"]
    by (simp add: demo_time)
qed

section \<open>The invariant of the system\<close>

text \<open>
  Every queue and channel within its capacity, the buffer of full size, the budget within its maximum, and every packet on its way to the mesh layer
  well formed; \<open>rinv\<close> is the radio driver's own invariant.
\<close>

definition rx_wf :: "RxPacket \<Rightarrow> bool" where
  "rx_wf p \<longleftrightarrow> wf_packet (rx_packet p)"

definition dispatcher_inv :: "('r, 'g, 'w) platform \<Rightarrow> ('r \<Rightarrow> bool) \<Rightarrow> ('r, 'g) Dispatcher \<Rightarrow> bool" where
  "dispatcher_inv pf rinv d \<longleftrightarrow> rinv (dp_radio d) \<and> duty_inv (dp_duty_cycle d) \<and>
     length (tx_entries (dp_tx_queue d)) \<le> pf_TX_Q pf \<and> length (rx_entries (dp_rx_delay_queue d)) \<le> pf_RX_Q pf \<and>
     (\<forall>e \<in> set (rx_entries (dp_rx_delay_queue d)). rx_wf (rde_packet e))"

definition system_inv :: "('r, 'g, 'w) platform \<Rightarrow> ('r \<Rightarrow> bool) \<Rightarrow> ('r, 'g, 'w) system \<Rightarrow> bool" where
  "system_inv pf rinv s \<longleftrightarrow> dispatcher_inv pf rinv (sy_dp s) \<and> length (sy_buf s) = MAX_TRANS_UNIT \<and>
     length (sy_tx_in s) \<le> pf_TX_Q pf \<and> length (sy_rx_out s) \<le> pf_RX_Q pf \<and> (\<forall>p \<in> set (sy_rx_out s). rx_wf p)"

lemma tx_push_le:
  assumes "heapless_ok hv" "tx_push hv tm N now q req = Some (r, q')" "length (tx_entries q) \<le> N"
  shows "length (tx_entries q') \<le> N"
  using assms by (auto simp: tx_push_def tx_is_full_def bind_eq_Some_conv Let_def split: if_splits)

lemma tx_pop_le:
  assumes "heapless_ok hv" "tx_pop_ready hv now q = Some (r, q')"
  shows "length (tx_entries q') \<le> length (tx_entries q) \<and> (r \<noteq> None \<longrightarrow> length (tx_entries q') < length (tx_entries q))"
  using assms by (auto simp: tx_pop_ready_def bind_eq_Some_conv split: option.splits if_splits)

lemma rx_pop_set:
  assumes "heapless_ok hv" "rx_pop_ready hv tm now q = Some (r, q')"
  shows "length (rx_entries q') \<le> length (rx_entries q) \<and> set (rx_entries q') \<subseteq> set (rx_entries q) \<and>
    (\<forall>p. r = Some p \<longrightarrow> p \<in> rde_packet ` set (rx_entries q))"
proof -
  have sub: "x \<in> set xs" if "x \<in> set (butlast (xs[i := last xs]))" "i < length xs" for x i and xs :: "RxDelayEntry list"
    using mset_swap_remove [OF that(2)] that(1) by (metis in_diffD set_mset_mset)
  show ?thesis
    using assms by (auto dest: sub simp: rx_pop_ready_def bind_eq_Some_conv split: option.splits if_splits)
qed

lemma drain_submissions_inv:
  assumes "platform_ok pf" "drain_submissions n pf (tx_in, q, w) = Some (tx_in', q', w')"
    and "length (tx_entries q) \<le> pf_TX_Q pf"
  shows "length (tx_entries q') \<le> pf_TX_Q pf \<and> length tx_in' \<le> length tx_in"
  using assms(2,3)
proof (induction n arbitrary: tx_in q w)
  case (Suc n)
  have ch: "ch_try_receive (pf_tx_in pf) xs = (case xs of [] \<Rightarrow> None | x # ys \<Rightarrow> Some (x, ys))" for xs
    using platform_okD(4) [OF assms(1)] by simp
  show ?case
  proof (cases tx_in)
    case Nil
    with Suc.prems show ?thesis by (simp add: ch)
  next
    case (Cons req rest)
    obtain now w1 where n: "ck_now (pf_clock pf) w = (now, w1)" by fastforce
    with Suc.prems(1) Cons obtain r q1 where p: "tx_push (pf_tx pf) (pf_time pf) (pf_TX_Q pf) now q req = Some (r, q1)"
      and d: "drain_submissions n pf (rest, q1, w1) = Some (tx_in', q', w')"
      by (auto simp: ch bind_eq_Some_conv)
    from Suc.IH [OF d tx_push_le [OF platform_okD(2) [OF assms(1)] p Suc.prems(2)]] Cons show ?thesis by simp
  qed
qed simp

lemma deliver_set:
  assumes "platform_ok pf" "length out \<le> pf_RX_Q pf"
  shows "length (deliver pf out p) \<le> pf_RX_Q pf \<and> set (deliver pf out p) \<subseteq> insert p (set out)"
  using assms platform_okD(5) [OF assms(1)] by (auto simp: deliver_def)

lemma deliver_ready_inv:
  assumes "platform_ok pf" "deliver_ready n pf now (q, out) = Some (q', out')"
    and "length out \<le> pf_RX_Q pf" "\<forall>p \<in> set out. rx_wf p" "\<forall>e \<in> set (rx_entries q). rx_wf (rde_packet e)"
  shows "length (rx_entries q') \<le> length (rx_entries q) \<and> length out' \<le> pf_RX_Q pf \<and> (\<forall>p \<in> set out'. rx_wf p) \<and>
    (\<forall>e \<in> set (rx_entries q'). rx_wf (rde_packet e))"
  using assms(2-)
proof (induction n arbitrary: q out)
  case (Suc n)
  then obtain r q1 where p: "rx_pop_ready (pf_rx pf) (pf_time pf) now q = Some (r, q1)"
    and c: "(case r of None \<Rightarrow> Some (q1, out) | Some rxp \<Rightarrow> deliver_ready n pf now (q1, deliver pf out rxp)) = Some (q', out')"
    by (auto simp: bind_eq_Some_conv)
  note s = rx_pop_set [OF platform_okD(3) [OF assms(1)] p]
  show ?case
  proof (cases r)
    case None
    with c s Suc.prems show ?thesis by auto
  next
    case (Some rxp)
    then have d: "deliver_ready n pf now (q1, deliver pf out rxp) = Some (q', out')" using c by simp
    have "rx_wf rxp" using s Some Suc.prems(4) by auto
    then have "\<forall>p \<in> set (deliver pf out rxp). rx_wf p" "length (deliver pf out rxp) \<le> pf_RX_Q pf"
      using deliver_set [OF assms(1) Suc.prems(2), of rxp] Suc.prems(3) by auto
    from Suc.IH [OF d this(2,1)] s Suc.prems(4) show ?thesis by fastforce
  qed
qed simp

lemma write_to_keeps_length: "write_to p buf = Some (n, buf') \<Longrightarrow> length buf' = length buf"
  by (auto simp: write_to_eq length_wire_bytes split: if_splits)

text \<open>What a transmission did when it returned, without an assumption on the entry.\<close>

lemma transmit_entryD:
  assumes "transmit_entry pf e (d, buf, w) = Some (d', buf', w')"
  shows "\<exists>deadline v clear r g v' x ms. cad_loop pf (dp_config d) deadline (dp_radio d) (dp_rng d) v = Some (clear, r, g, v') \<and>
    write_to (te_packet e) buf = Some (wire_len (te_packet e), buf') \<and> x = rd_send (pf_radio pf) (wire_bytes (te_packet e)) r \<and>
    d' = d\<lparr>dp_radio := snd x, dp_rng := g,
      dp_duty_cycle := (case fst x of Inr _ \<Rightarrow> deduct (dp_duty_cycle d) ms | Inl _ \<Rightarrow> dp_duty_cycle d),
      dp_stats := (case fst x of Inr _ \<Rightarrow> count_sent (packet_is_flood (te_packet e)) ms (dp_stats d) | Inl _ \<Rightarrow> dp_stats d)\<rparr>"
proof -
  let ?p = "te_packet e"
  from assms obtain clear d1 w1 where wfc: "wait_for_clear_channel pf d w = Some (clear, d1, w1)"
    by (fastforce simp: transmit_entry_def bind_eq_Some_conv)
  then obtain deadline v r g where cad: "cad_loop pf (dp_config d) deadline (dp_radio d) (dp_rng d) v = Some (clear, r, g, w1)"
    and d1: "d1 = d\<lparr>dp_radio := r, dp_rng := g\<rparr>"
    by (auto simp: wait_for_clear_channel_def bind_eq_Some_conv Let_def split: prod.splits)
  from assms wfc obtain n buf1 where wt: "write_to ?p buf = Some (n, buf1)"
    by (fastforce simp: transmit_entry_def bind_eq_Some_conv)
  then have ok: "path_complete ?p" "n = wire_len ?p" "buf1 = wire_bytes ?p @ drop n buf"
    by (auto simp: write_to_eq split: if_splits)
  then have sl: "slice buf1 0 n = Some (wire_bytes ?p)" by (simp add: slice_def length_wire_bytes)
  let ?w2 = "snd (ck_now (pf_clock pf) w1)"
  let ?el = "inst_sub (pf_time pf) (fst (ck_now (pf_clock pf) ?w2)) (fst (ck_now (pf_clock pf) w1))"
  from assms wfc wt sl obtain el where el: "?el = Some el"
    by (cases ?el) (simp_all add: transmit_entry_def case_prod_beta Let_def)
  let ?x = "rd_send (pf_radio pf) (wire_bytes ?p) r" and ?ms = "ucast (dur_as_millis (pf_time pf) el) :: u32"
  have "buf' = buf1 \<and> d' = d\<lparr>dp_radio := snd ?x, dp_rng := g,
      dp_duty_cycle := (case fst ?x of Inr _ \<Rightarrow> deduct (dp_duty_cycle d) ?ms | Inl _ \<Rightarrow> dp_duty_cycle d),
      dp_stats := (case fst ?x of Inr _ \<Rightarrow> count_sent (packet_is_flood ?p) ?ms (dp_stats d) | Inl _ \<Rightarrow> dp_stats d)\<rparr>"
    using assms wfc wt sl el d1
    by (cases "fst ?x") (auto simp: transmit_entry_def case_prod_beta Let_def)
  then show ?thesis using cad wt ok(2) by blast
qed

context radio_driver
begin

lemma transmit_entry_inv:
  assumes "pf_radio pf = rd" "dispatcher_inv pf inv d" "transmit_entry pf e (d, buf, w) = Some (d', buf', w')"
  shows "dispatcher_inv pf inv d' \<and> length buf' = length buf"
proof -
  from transmit_entryD [OF assms(3)] obtain deadline v clear r g v' x ms where
    cad: "cad_loop pf (dp_config d) deadline (dp_radio d) (dp_rng d) v = Some (clear, r, g, v')"
    and wt: "write_to (te_packet e) buf = Some (wire_len (te_packet e), buf')"
    and x: "x = rd_send (pf_radio pf) (wire_bytes (te_packet e)) r"
    and d': "d' = d\<lparr>dp_radio := snd x, dp_rng := g,
      dp_duty_cycle := (case fst x of Inr _ \<Rightarrow> deduct (dp_duty_cycle d) ms | Inl _ \<Rightarrow> dp_duty_cycle d),
      dp_stats := (case fst x of Inr _ \<Rightarrow> count_sent (packet_is_flood (te_packet e)) ms (dp_stats d) | Inl _ \<Rightarrow> dp_stats d)\<rparr>"
    by blast
  have "inv r" using cad_loop_keeps [of inv, OF _ _ cad] channel_active_inv assms(1,2) by (simp add: dispatcher_inv_def)
  then have "inv (snd x)" using send_inv x assms(1) by simp
  then have "dispatcher_inv pf inv d'"
    using d' assms(2) deduct_inv [of "dp_duty_cycle d" ms] by (auto simp: dispatcher_inv_def split: sum.splits)
  then show ?thesis using write_to_keeps_length [OF wt] by simp
qed

end

lemma refill_duty_inv: "refill tm dc now = Some dc' \<Longrightarrow> duty_inv dc'"
  using refill_inv by blast

lemma tx_push_entry_le:
  assumes "heapless_ok hv" "length (tx_entries q) \<le> N"
  shows "length (tx_entries (snd (tx_push_entry hv N q e))) \<le> N"
  using assms by (auto simp: tx_push_entry_def)

lemma dispatcher_inv_fields:
  assumes "dispatcher_inv pf rinv d"
  shows "duty_inv dc \<Longrightarrow> dispatcher_inv pf rinv (d\<lparr>dp_duty_cycle := dc\<rparr>)"
    and "length (tx_entries q) \<le> pf_TX_Q pf \<Longrightarrow> dispatcher_inv pf rinv (d\<lparr>dp_tx_queue := q\<rparr>)"
    and "dispatcher_inv pf rinv (d\<lparr>dp_stats := st\<rparr>)"
    and "rinv r \<Longrightarrow> dispatcher_inv pf rinv (d\<lparr>dp_radio := r\<rparr>)"
    and "length (rx_entries dq) \<le> pf_RX_Q pf \<Longrightarrow> \<forall>e \<in> set (rx_entries dq). rx_wf (rde_packet e) \<Longrightarrow>
      dispatcher_inv pf rinv (d\<lparr>dp_rx_delay_queue := dq\<rparr>)"
  using assms by (simp_all add: dispatcher_inv_def)

context radio_driver
begin

lemma maybe_transmit_inv:
  assumes pf: "platform_ok pf" "pf_radio pf = rd" and d: "dispatcher_inv pf inv d"
    and mt: "maybe_transmit pf (d, buf, w) = Some (d', buf', w')"
  shows "dispatcher_inv pf inv d' \<and> length buf' = length buf"
proof -
  obtain now w1 where n: "ck_now (pf_clock pf) w = (now, w1)" by fastforce
  from mt n obtain dc ready q where rf: "refill (pf_time pf) (dp_duty_cycle d) now = Some dc"
    and pop: "tx_pop_ready (pf_tx pf) now (dp_tx_queue d) = Some (ready, q)"
    by (auto simp: maybe_transmit_def bind_eq_Some_conv)
  let ?d1 = "d\<lparr>dp_duty_cycle := dc, dp_tx_queue := q\<rparr>"
  have lq: "length (tx_entries q) \<le> pf_TX_Q pf"
    using tx_pop_le [OF platform_okD(2) [OF pf(1)] pop] d by (simp add: dispatcher_inv_def)
  have d1: "dispatcher_inv pf inv ?d1"
    by (intro dispatcher_inv_fields d refill_duty_inv [OF rf] lq)
  show ?thesis
  proof (cases ready)
    case None
    with mt n rf pop d1 show ?thesis by (auto simp: maybe_transmit_def)
  next
    case (Some e)
    show ?thesis
    proof (cases "can_transmit dc (rd_estimate_airtime_ms (pf_radio pf) (dp_radio d) (wire_len (te_packet e)))")
      case True
      with mt n rf pop Some have "transmit_entry pf e (?d1, buf, w1) = Some (d', buf', w')"
        by (simp add: maybe_transmit_def)
      from transmit_entry_inv [OF pf(2) d1 this] show ?thesis .
    next
      case False
      let ?q2 = "snd (tx_push_entry (pf_tx pf) (pf_TX_Q pf) q e)"
      from False mt n rf pop Some have "d' = ?d1\<lparr>dp_tx_queue := ?q2\<rparr>" "buf' = buf"
        by (auto simp: maybe_transmit_def)
      moreover have "dispatcher_inv pf inv (?d1\<lparr>dp_tx_queue := ?q2\<rparr>)"
        by (intro dispatcher_inv_fields(2) d1 tx_push_entry_le platform_okD(2) pf(1) lq)
      ultimately show ?thesis by simp
    qed
  qed
qed

lemma handle_rx_inv:
  assumes pf: "platform_ok pf" and d: "dispatcher_inv pf inv d"
    and out: "length out \<le> pf_RX_Q pf" "\<forall>p \<in> set out. rx_wf p"
    and len: "\<forall>rr. result = Inr rr \<longrightarrow> rr_len rr \<le> length buf"
    and h: "handle_rx pf result buf (d, out, w) = Some (d', out', w')"
  shows "dispatcher_inv pf inv d' \<and> length out' \<le> pf_RX_Q pf \<and> (\<forall>p \<in> set out'. rx_wf p)"
proof (cases result)
  case (Inl e)
  with h d out show ?thesis by (simp add: handle_rx_def)
next
  case (Inr rr)
  with len have l: "rr_len rr \<le> length buf" by simp
  note h' = h [unfolded Inr handle_rx_eq [OF pf l]]
  show ?thesis
  proof (cases "decode_packet (take (rr_len rr) buf)")
    case None
    with h' d out show ?thesis by simp
  next
    case (Some p)
    have rw: "rx_wf (received rr p)" using decode_packet_wf [OF Some] by (simp add: rx_wf_def received_def)
    show ?thesis
    proof (cases "rx_delay_of pf d rr p")
      case None
      with Some h' d out rw show ?thesis by (auto simp: dispatcher_inv_def split: if_splits)
    next
      case ms: (Some ms)
      obtain now w1 where n: "ck_now (pf_clock pf) w = (now, w1)" by fastforce
      with Some ms h' d out rw show ?thesis by (auto simp: dispatcher_inv_def Let_def split: if_splits)
    qed
  qed
qed

lemma loop_top_inv:
  assumes pf: "platform_ok pf" "pf_radio pf = rd" and s: "system_inv pf inv s" and t: "loop_top pf s = Some t"
  shows "system_inv pf inv t"
proof -
  let ?d = "sy_dp s"
  from t obtain tx_in q w where ds: "drain_submissions (length (sy_tx_in s) + 1) pf (sy_tx_in s, dp_tx_queue ?d, sy_clock s) = Some (tx_in, q, w)"
    by (auto simp: loop_top_def bind_eq_Some_conv Let_def simp del: drain_submissions.simps deliver_ready.simps)
  obtain now w1 where n: "ck_now (pf_clock pf) w = (now, w1)" by fastforce
  from t ds n obtain dq out where dr: "deliver_ready (rx_len (dp_rx_delay_queue ?d) + 1) pf now (dp_rx_delay_queue ?d, sy_rx_out s) = Some (dq, out)"
    by (auto simp: loop_top_def bind_eq_Some_conv Let_def simp del: drain_submissions.simps deliver_ready.simps)
  let ?d1 = "?d\<lparr>dp_tx_queue := q, dp_rx_delay_queue := dq\<rparr>"
  from t ds n dr obtain d2 buf w2 where mt: "maybe_transmit pf (?d1, sy_buf s, w1) = Some (d2, buf, w2)"
    and t': "t = s\<lparr>sy_dp := d2, sy_tx_in := tx_in, sy_rx_out := out, sy_buf := buf, sy_clock := w2, sy_phase := Waiting (next_wake_time d2)\<rparr>"
    by (auto simp: loop_top_def bind_eq_Some_conv Let_def simp del: drain_submissions.simps deliver_ready.simps)
  note di = drain_submissions_inv [OF pf(1) ds] and ri = deliver_ready_inv [OF pf(1) dr]
  have "dispatcher_inv pf inv ?d1"
    using s di ri by (auto simp: system_inv_def dispatcher_inv_def)
  from maybe_transmit_inv [OF pf this mt] show ?thesis
    using s di ri by (auto simp: t' system_inv_def dispatcher_inv_def)
qed

lemma on_radio_inv:
  assumes pf: "platform_ok pf" "pf_radio pf = rd" and s: "system_inv pf inv s" and t: "on_radio pf s = Some t"
  shows "system_inv pf inv t"
proof -
  have "inv (dp_radio (sy_dp s))" "length (sy_buf s) = MAX_TRANS_UNIT"
    using s by (simp_all add: system_inv_def dispatcher_inv_def)
  from recv_ok [OF this] obtain res buf r where rc: "rd_recv rd (sy_buf s) (dp_radio (sy_dp s)) = Some (res, buf, r)"
    and b: "length buf = MAX_TRANS_UNIT" "inv r" and l: "\<forall>rr. res = Inr rr \<longrightarrow> rr_len rr \<le> MAX_TRANS_UNIT" by blast
  let ?d1 = "(sy_dp s)\<lparr>dp_radio := r\<rparr>"
  from t rc obtain d out w where h: "handle_rx pf res buf (?d1, sy_rx_out s, sy_clock s) = Some (d, out, w)"
    and t': "t = s\<lparr>sy_dp := d, sy_rx_out := out, sy_buf := buf, sy_clock := w, sy_phase := Top\<rparr>"
    by (auto simp: on_radio_def bind_eq_Some_conv pf(2))
  have d1: "dispatcher_inv pf inv ?d1"
    by (rule dispatcher_inv_fields(4) [where rinv = inv]) (use s b(2) in \<open>simp_all add: system_inv_def\<close>)
  have "length (sy_rx_out s) \<le> pf_RX_Q pf" "\<forall>p \<in> set (sy_rx_out s). rx_wf p"
    using s by (simp_all add: system_inv_def)
  from handle_rx_inv [OF pf(1) d1 this _ h] l b(1) show ?thesis
    using s b(1) by (auto simp: t' system_inv_def)
qed

lemma on_submission_inv:
  assumes pf: "platform_ok pf" and s: "system_inv pf inv s"
    and r: "ch_try_receive (pf_tx_in pf) (sy_tx_in s) = Some (req, rest)" and t: "on_submission pf s req rest = Some t"
  shows "system_inv pf inv t"
proof -
  have l: "length rest \<le> length (sy_tx_in s)"
    using r platform_okD(4) [OF pf] by (auto split: list.splits)
  obtain now w where n: "ck_now (pf_clock pf) (sy_clock s) = (now, w)" by fastforce
  with t obtain x q where p: "tx_push (pf_tx pf) (pf_time pf) (pf_TX_Q pf) now (dp_tx_queue (sy_dp s)) req = Some (x, q)"
    and t': "t = s\<lparr>sy_dp := (sy_dp s)\<lparr>dp_tx_queue := q\<rparr>, sy_tx_in := rest, sy_clock := w, sy_phase := Top\<rparr>"
    by (auto simp: on_submission_def bind_eq_Some_conv)
  have "length (tx_entries q) \<le> pf_TX_Q pf"
    by (rule tx_push_le [OF platform_okD(2) [OF pf] p]) (use s in \<open>simp add: system_inv_def dispatcher_inv_def\<close>)
  then show ?thesis using s l by (auto simp: t' system_inv_def dispatcher_inv_def)
qed

lemma outcome_inv:
  assumes "system_inv pf inv s" "\<And>t. r = Some t \<Longrightarrow> system_inv pf inv t"
  shows "system_inv pf inv (outcome s r)"
  using assms by (cases r) (auto simp: outcome_def system_inv_def)

lemma dispatch_step_inv:
  assumes "dispatch_step pf s t" "platform_ok pf" "pf_radio pf = rd" "system_inv pf inv s"
  shows "system_inv pf inv t"
  using assms
proof (induction rule: dispatch_step.induct)
  case (top s)
  then show ?case using loop_top_inv outcome_inv by blast
next
  case (radio s wake)
  then show ?case using on_radio_inv outcome_inv by blast
next
  case (submission s wake req rest)
  then show ?case using on_submission_inv outcome_inv by blast
next
  case (submit s req tx_in)
  then show ?case using platform_okD(4) [OF submit.prems(1)] by (auto simp: system_inv_def split: if_splits)
next
  case (consume s p rx_out)
  then show ?case using platform_okD(5) [OF consume.prems(1)] by (auto simp: system_inv_def split: list.splits)
qed (auto simp: system_inv_def)

lemma dispatch_reachable_inv:
  assumes "dispatch_reachable pf s t" "platform_ok pf" "pf_radio pf = rd" "system_inv pf inv s"
  shows "system_inv pf inv t"
  using assms by (induction rule: dispatch_reachable.induct) (auto intro: dispatch_step_inv)

end

section \<open>The start of the system\<close>

definition start_system :: "('r, 'g, 'w) platform \<Rightarrow> 'r \<Rightarrow> 'g \<Rightarrow> DispatcherConfig \<Rightarrow> 'w \<Rightarrow> ('r, 'g, 'w) system" where
  "start_system pf r g config w = \<lparr>sy_dp = Dispatcher_new (pf_time pf) r g config, sy_tx_in = [], sy_rx_out = [],
     sy_buf = replicate MAX_TRANS_UNIT 0, sy_clock = w, sy_phase = Top\<rparr>"

lemma start_system_inv:
  assumes "rinv r" shows "system_inv pf rinv (start_system pf r g config w)"
  using assms new_inv
  by (simp add: system_inv_def dispatcher_inv_def start_system_def Dispatcher_new_def TxQueue_new_def RxDelayQueue_new_def)

text \<open>
  C10: In every state the running system can reach, whatever is received, submitted and consumed in whatever order and however the clock and the channel
  behave: both queues and both channels are within their capacities, the receive buffer has its full size, the airtime budget is at
  most its maximum, and every packet in the delay queue or on its way to the mesh layer is well formed. This holds for every radio driver
  that meets the contract \<open>radio_driver\<close>.
\<close>
theorem dispatcher_invariant:
  assumes "radio_driver (pf_radio pf) rinv" "platform_ok pf" "rinv r"
    and "dispatch_reachable pf (start_system pf r g config w) s"
  shows "length (tx_entries (dp_tx_queue (sy_dp s))) \<le> pf_TX_Q pf \<and>
    length (rx_entries (dp_rx_delay_queue (sy_dp s))) \<le> pf_RX_Q pf \<and>
    length (sy_tx_in s) \<le> pf_TX_Q pf \<and> length (sy_rx_out s) \<le> pf_RX_Q pf \<and> length (sy_buf s) = MAX_TRANS_UNIT \<and>
    budget_ms (dp_duty_cycle (sy_dp s)) \<le> max_budget_ms (dp_duty_cycle (sy_dp s)) \<and>
    (\<forall>p \<in> set (sy_rx_out s) \<union> rde_packet ` set (rx_entries (dp_rx_delay_queue (sy_dp s))). wf_packet (rx_packet p))"
  using radio_driver.dispatch_reachable_inv [OF assms(1,4,2) _ start_system_inv [of rinv, OF assms(3)]]
  by (auto simp: system_inv_def dispatcher_inv_def duty_inv_def rx_wf_def)

lemma dispatcher_invariant_witness:
  "length (sy_tx_in (start_system (demo_platform 4 4) MockRadio_new (MockRng_new 7) DispatcherConfig_default (0, 0)
    \<lparr>sy_tx_in := [\<lparr>req_packet = sample_packet, req_priority = 0, delay_ms = 5\<rparr>]\<rparr>)) \<le> 4"
proof -
  let ?pf = "demo_platform 4 4" and ?req = "\<lparr>req_packet = sample_packet, req_priority = 0, delay_ms = 5\<rparr>"
  let ?s = "start_system ?pf MockRadio_new (MockRng_new 7) DispatcherConfig_default (0, 0)"
  have "ch_try_send (pf_tx_in ?pf) (pf_TX_Q ?pf) (sy_tx_in ?s) ?req = Inr [?req]"
    by (simp add: demo_platform_def start_system_def)
  then have "dispatch_reachable ?pf ?s (?s\<lparr>sy_tx_in := [?req]\<rparr>)"
    by (intro dispatch_reachable.more [OF dispatch_reachable.here] dispatch_step.submit)
  moreover have "radio_driver (pf_radio ?pf) (\<lambda>r. containers_ok list_containers \<and> mock_ok r)"
    using mock.radio_driver_axioms [of list_containers] by (simp add: demo_platform_def)
  ultimately show ?thesis
    using dispatcher_invariant [OF _ demo_platform_ok, of 4 4 "\<lambda>r. containers_ok list_containers \<and> mock_ok r"] mock_ok_new
    by (force simp: demo_platform_def)
qed

end
