(* ===== verification/Console.thy ===== *)
theory Console
  imports Header Fmt F32
begin

text \<open>
  The text side of the firmware (\<open>boards/rak4631/src/main.rs\<close>): the build time parser, the fixed buffer \<open>FmtBuf\<close> behind \<open>write!\<close>, the
  response formatter, the chunked writes to the USB serial port, and the directives of \<open>core::fmt\<close> the log lines use.
\<close>

section \<open>Text as bytes\<close>

definition bytes_of :: "string \<Rightarrow> u8 list" where
  "bytes_of s = map of_char s"

lemma bytes_of_append [simp]: "bytes_of (s @ t) = bytes_of s @ bytes_of t"
  by (simp add: bytes_of_def)

lemma bytes_of_Nil [simp]: "bytes_of [] = []"
  by (simp add: bytes_of_def)

lemma length_bytes_of [simp]: "length (bytes_of s) = length s"
  by (simp add: bytes_of_def)

section \<open>The build time\<close>

text \<open>\<open>const_parse_u32\<close>; the subtraction, the multiplication and the addition wrap, as in a release build.\<close>

fun parse_loop :: "u8 list \<Rightarrow> u32 \<Rightarrow> u32" where
  "parse_loop [] result = result"
| "parse_loop (b # bs) result = parse_loop bs (result * 10 + ucast (b - 0x30))"

definition const_parse_u32 :: "u8 list \<Rightarrow> u32" where
  "const_parse_u32 s = parse_loop s 0"

section \<open>FmtBuf\<close>

text \<open>The capacity \<open>N\<close> is the length of the buffer. \<open>N - self.pos\<close> does not underflow, since no operation moves \<open>pos\<close> past the end.\<close>

record FmtBuf =
  fb_buf :: "u8 list"
  fb_pos :: nat

definition FmtBuf_new :: "nat \<Rightarrow> FmtBuf" where
  "FmtBuf_new N = \<lparr>fb_buf = replicate N 0, fb_pos = 0\<rparr>"

definition as_bytes :: "FmtBuf \<Rightarrow> u8 list option" where
  "as_bytes b = slice (fb_buf b) 0 (fb_pos b)"

definition fb_push :: "FmtBuf \<Rightarrow> u8 \<Rightarrow> FmtBuf option" where
  "fb_push b x =
     (if fb_pos b < length (fb_buf b)
      then do { buf \<leftarrow> put (fb_buf b) (fb_pos b) x; Some (b\<lparr>fb_buf := buf, fb_pos := fb_pos b + 1\<rparr>) }
      else Some b)"

definition write_str :: "FmtBuf \<Rightarrow> u8 list \<Rightarrow> FmtBuf option" where
  "write_str b s = do {
     let n = min (length s) (length (fb_buf b) - fb_pos b);
     data \<leftarrow> slice s 0 n;
     buf \<leftarrow> copy_at (fb_buf b) (fb_pos b) (fb_pos b + n) data;
     Some (b\<lparr>fb_buf := buf, fb_pos := fb_pos b + n\<rparr>)
   }"

text \<open>\<open>write!(b, ...)\<close>: the pieces of the format string and the formatted arguments, one after the other; \<open>write_str\<close> never fails.\<close>

fun write_fmt :: "FmtBuf \<Rightarrow> u8 list list \<Rightarrow> FmtBuf option" where
  "write_fmt b [] = Some b"
| "write_fmt b (s # ss) = do { b \<leftarrow> write_str b s; write_fmt b ss }"

fun push_all :: "FmtBuf \<Rightarrow> u8 list \<Rightarrow> FmtBuf option" where
  "push_all b [] = Some b"
| "push_all b (x # xs) = do { b \<leftarrow> fb_push b x; push_all b xs }"

definition NODE_NAME :: "u8 list" where
  "NODE_NAME = bytes_of ''rak4631''"

definition format_response :: "nat \<Rightarrow> u8 list \<Rightarrow> FmtBuf option" where
  "format_response N body = do {
     let buf = FmtBuf_new N;
     buf \<leftarrow> push_all buf NODE_NAME;
     buf \<leftarrow> fb_push buf 0x3A;
     buf \<leftarrow> fb_push buf 0x20;
     push_all buf body
   }"

section \<open>The serial port\<close>

text \<open>
  \<open>data.chunks(n)\<close>, and the packets \<open>cdc_write\<close> hands to the USB stack. Whether a packet got through is not looked at,
  so the port is modelled by the list of the packets written to it.
\<close>

function chunks :: "nat \<Rightarrow> 'a list \<Rightarrow> 'a list list" where
  "chunks n xs = (if xs = [] \<or> n = 0 then [] else take n xs # chunks n (drop n xs))"
  by pat_completeness auto
termination
  by (relation "measure (\<lambda>(n, xs). length xs)") auto

declare chunks.simps [simp del]

definition cdc_write :: "u8 list list \<Rightarrow> u8 list \<Rightarrow> u8 list list" where
  "cdc_write out data = out @ chunks 64 data"

section \<open>Formatting directives\<close>

text \<open>\<open>{}\<close> on an unsigned integer, \<open>{:02x}\<close> on a byte, \<open>{:?}\<close> on the derived enums.\<close>

definition fmt_u32 :: "u32 \<Rightarrow> u8 list" where "fmt_u32 w = bytes_of (fmt_nat (unat w))"
definition fmt_u64 :: "u64 \<Rightarrow> u8 list" where "fmt_u64 w = bytes_of (fmt_nat (unat w))"
definition fmt_u8 :: "u8 \<Rightarrow> u8 list" where "fmt_u8 w = bytes_of (fmt_nat (unat w))"
definition fmt_usize :: "nat \<Rightarrow> u8 list" where "fmt_usize n = bytes_of (fmt_nat n)"
definition fmt_hex :: "u8 \<Rightarrow> u8 list" where "fmt_hex b = bytes_of (fmt_02x b)"

text \<open>
  \<open>{:.p}\<close> on an \<open>f32\<close>: the exact value rounded to \<open>p\<close> decimals, ties to even, with the sign of a negative value or negative zero.
\<close>

definition round_half_even :: "int \<Rightarrow> int \<Rightarrow> int" where
  "round_half_even n d =
     (let q = n div d; r = n mod d in if d < 2 * r \<or> 2 * r = d \<and> odd q then q + 1 else q)"

definition fmt_decimals :: "nat \<Rightarrow> nat \<Rightarrow> string" where
  "fmt_decimals p n =
     (if p = 0 then fmt_nat n
      else let frac = fmt_nat (n mod 10 ^ p)
           in fmt_nat (n div 10 ^ p) @ ''.'' @ replicate (p - length frac) CHR ''0'' @ frac)"

fun fmt_f32 :: "nat \<Rightarrow> f32 \<Rightarrow> u8 list" where
  "fmt_f32 p F32_NaN = bytes_of ''NaN''"
| "fmt_f32 p (F32_Inf s) = bytes_of (if s then ''-inf'' else ''inf'')"
| "fmt_f32 p (F32_Fin s m e) =
     (let (n, d) = f32_scale (m * 10 ^ p) 1 (- e)
      in bytes_of ((if s then ''-'' else '''') @ fmt_decimals p (nat (round_half_even n d))))"

fun RouteType_debug :: "RouteType \<Rightarrow> string" where
  "RouteType_debug TransportFlood = ''TransportFlood''"
| "RouteType_debug Flood = ''Flood''"
| "RouteType_debug Direct = ''Direct''"
| "RouteType_debug TransportDirect = ''TransportDirect''"

fun PayloadType_debug :: "PayloadType \<Rightarrow> string" where
  "PayloadType_debug Request = ''Request''"
| "PayloadType_debug Response = ''Response''"
| "PayloadType_debug TxtMsg = ''TxtMsg''"
| "PayloadType_debug Ack = ''Ack''"
| "PayloadType_debug Advert = ''Advert''"
| "PayloadType_debug GrpTxt = ''GrpTxt''"
| "PayloadType_debug GrpData = ''GrpData''"
| "PayloadType_debug AnonReq = ''AnonReq''"
| "PayloadType_debug Path = ''Path''"
| "PayloadType_debug Trace = ''Trace''"
| "PayloadType_debug Multipart = ''Multipart''"
| "PayloadType_debug Control = ''Control''"
| "PayloadType_debug RawCustom = ''RawCustom''"

section \<open>FmtBuf keeps a truncated text\<close>

text \<open>The buffer that holds the text \<open>s\<close> as far as it fits: the abstract state of a \<open>FmtBuf\<close>.\<close>

definition fb_of :: "nat \<Rightarrow> u8 list \<Rightarrow> FmtBuf" where
  "fb_of N s = \<lparr>fb_buf = take N s @ replicate (N - length s) 0, fb_pos = min N (length s)\<rparr>"

named_theorems fmtbuf \<open>the operations of FmtBuf on the text it holds\<close>

lemma FmtBuf_new_eq [fmtbuf]: "FmtBuf_new N = fb_of N []"
  by (simp add: FmtBuf_new_def fb_of_def)

lemma as_bytes_fb [fmtbuf]: "as_bytes (fb_of N s) = Some (take N s)"
  by (simp add: as_bytes_def fb_of_def slice_def min_def)

lemma fb_push_fb [fmtbuf]: "fb_push (fb_of N s) x = Some (fb_of N (s @ [x]))"
proof (cases "length s < N")
  case True
  then obtain k where k: "N = length s + Suc k" by (metis less_iff_Suc_add add_Suc_right)
  then show ?thesis by (simp add: fb_push_def fb_of_def put_append)
next
  case False
  then show ?thesis by (simp add: fb_push_def fb_of_def min_def)
qed

lemma copy_at_end [simp]: "copy_at xs (length xs) (length xs) [] = Some xs"
  by (simp add: copy_at_def)

lemma write_str_fb [fmtbuf]: "write_str (fb_of N s) t = Some (fb_of N (s @ t))"
proof (cases "length s \<le> N")
  case True
  then obtain k where N: "N = length s + k" by (auto dest: le_Suc_ex)
  show ?thesis
  proof (cases "length t \<le> k")
    case True
    with N show ?thesis
      by (simp add: write_str_def fb_of_def slice_def copy_at_append Let_def)
  next
    case False
    have "copy_at (s @ replicate k 0) (length s) (length s + length (take k t)) (take k t) = Some (s @ take k t)"
      using False by (subst copy_at_append) simp
    with False N show ?thesis
      by (simp add: write_str_def fb_of_def slice_def Let_def min_def)
  qed
next
  case False
  then show ?thesis by (simp add: write_str_def fb_of_def slice_def copy_at_def min_def)
qed

lemma write_fmt_fb [fmtbuf]: "write_fmt (fb_of N s) ts = Some (fb_of N (s @ concat ts))"
  by (induction ts arbitrary: s) (simp_all add: fmtbuf)

lemma push_all_fb [fmtbuf]: "push_all (fb_of N s) xs = Some (fb_of N (s @ xs))"
  by (induction xs arbitrary: s) (simp_all add: fmtbuf)

lemma format_response_fb [fmtbuf]: "format_response N body = Some (fb_of N (NODE_NAME @ [0x3A, 0x20] @ body))"
  by (simp add: format_response_def fmtbuf)

declare write_fmt.simps [simp del] push_all.simps [simp del]

section \<open>The serial port, again\<close>

lemma chunks_Nil [simp]: "chunks n [] = []"
  by (simp add: chunks.simps)

lemma concat_chunks: "0 < n \<Longrightarrow> concat (chunks n xs) = xs"
  by (induction n xs rule: chunks.induct) (subst chunks.simps, simp)

lemma length_chunks: "c \<in> set (chunks n xs) \<Longrightarrow> c \<noteq> [] \<and> length c \<le> n"
proof (induction n xs rule: chunks.induct)
  case (1 n xs)
  then show ?case by (subst (asm) chunks.simps) (auto split: if_splits)
qed

section \<open>The build time\<close>

lemma parse_loop_append: "parse_loop (xs @ ys) r = parse_loop ys (parse_loop xs r)"
  by (induction xs r rule: parse_loop.induct) simp_all

lemma digit_byte:
  assumes "n < 10"
  shows "ucast (of_char (hex_digit n) - 0x30 :: u8) = (of_nat n :: u32)"
proof -
  have "\<forall>n \<in> set [0..<10]. ucast (of_char (hex_digit n) - 0x30 :: u8) = (of_nat n :: u32)" by code_simp
  with assms show ?thesis by simp
qed

lemma parse_fmt_nat: "const_parse_u32 (bytes_of (fmt_nat n)) = of_nat n"
proof (induction n rule: fmt_nat.induct)
  case (1 n)
  show ?case
  proof (cases "n < 10")
    case True
    then show ?thesis
      by (subst fmt_nat.simps) (simp add: const_parse_u32_def bytes_of_def digit_byte)
  next
    case False
    have "const_parse_u32 (bytes_of (fmt_nat n)) = of_nat (n div 10) * 10 + of_nat (n mod 10)"
      using 1 [OF False] digit_byte [of "n mod 10"] False
      by (subst fmt_nat.simps) (simp add: const_parse_u32_def parse_loop_append bytes_of_def)
    also have "\<dots> = (of_nat (n div 10 * 10 + n mod 10) :: u32)"
      by (simp only: of_nat_add of_nat_mult of_nat_numeral)
    finally show ?thesis by (simp only: div_mult_mod_eq)
  qed
qed

end
