(* ===== verification/Responder.thy ===== *)
theory Responder
  imports Dispatcher Grp_Txt Dedup Console
begin

text \<open>
  The task \<open>user_task\<close> of the firmware (\<open>boards/rak4631/src/main.rs\<close>), which answers commands on the channel
  \<open>#meshcore-rs\<close>: start-up with the greeting, one iteration of its loop per received packet, the command parser and the answers; and the board's random
  generator. A function gives \<^const>\<open>None\<close> for a panic. What the task puts on \<open>TX_CHANNEL\<close> is part of the result,
  what it prints is the list of serial packets \<open>us_cdc\<close>. The debugger log (\<open>defmt\<close>) has no effect.
\<close>

section \<open>The board's random generator\<close>

record SimpleRng =
  rng_state :: u32

definition SimpleRng_new :: "u32 \<Rightarrow> SimpleRng" where
  "SimpleRng_new seed' = \<lparr>rng_state = (if seed' = 0 then 1 else seed')\<rparr>"

fun simple_random :: "nat \<Rightarrow> SimpleRng \<Rightarrow> u8 list \<times> SimpleRng" where
  "simple_random 0 g = ([], g)"
| "simple_random (Suc n) g =
     (let st = rng_state g * 1103515245 + 12345;
          (bytes, g) = simple_random n (g\<lparr>rng_state := st\<rparr>)
      in (ucast (drop_bit 16 st) # bytes, g))"

interpretation simple_rng: random_source simple_random
proof
  show "length (fst (simple_random n g)) = n" for n g
    by (induction n g rule: simple_random.induct) (simp_all add: Let_def case_prod_beta)
qed

section \<open>The channel\<close>

definition derive_channel_key :: "crypto \<Rightarrow> u8 list \<Rightarrow> (u8 list \<times> u8) option" where
  "derive_channel_key c name = do {
     let secret = replicate 32 0;
     h \<leftarrow> slice (sha256 c name) 0 16;
     secret \<leftarrow> copy_at secret 0 16 h;
     key \<leftarrow> slice secret 0 16;
     channel_hash \<leftarrow> idx (sha256 c key) 0;
     Some (secret, channel_hash)
   }"

section \<open>Start-up\<close>

text \<open>The locals of the task, and the clock behind \<open>rtc.lock().await\<close>, which no other task uses.\<close>

record user =
  us_cdc :: "u8 list list"
  us_rtc :: VolatileRtcClock
  us_secret :: "u8 list"
  us_hash :: u8
  us_dedup :: PacketDedup
  us_boot_time :: instant
  us_pkt_count :: u32

definition read_rtc :: "('r, 'g, 'w) platform \<Rightarrow> VolatileRtcClock \<Rightarrow> 'w \<Rightarrow> (u32 \<times> 'w) option" where
  "read_rtc pf rtc w = (case ck_now (pf_clock pf) w of (now, w) \<Rightarrow> do {
     t \<leftarrow> rtc_get_time (pf_time pf) now rtc;
     Some (t, w)
   })"

text \<open>A log line: \<open>FmtBuf::<N>::new()\<close>, the \<open>write!\<close> calls on it, \<open>cdc_write\<close>.\<close>

definition log_line :: "nat \<Rightarrow> u8 list list \<Rightarrow> u8 list list \<Rightarrow> u8 list list option" where
  "log_line N pieces cdc = do {
     out \<leftarrow> write_fmt (FmtBuf_new N) pieces;
     data \<leftarrow> as_bytes out;
     Some (cdc_write cdc data)
   }"

definition crlf :: "u8 list" where
  "crlf = [0x0D, 0x0A]"

definition user_boot ::
    "('r, 'g, 'w) platform \<Rightarrow> crypto \<Rightarrow> u32 \<Rightarrow> VolatileRtcClock \<Rightarrow> 'w \<Rightarrow> (user \<times> TxRequest option \<times> 'w) option" where
  "user_boot pf c BUILD_EPOCH rtc w = do {
     let w = ck_after (pf_clock pf) (dur_from_millis (pf_time pf) 500) w;
     let cdc = cdc_write [] (crlf @ bytes_of ''=== RAK4631 Channel Responder ==='' @ crlf);
     let cdc = cdc_write cdc (bytes_of ''910.525 MHz / SF7 / BW62.5kHz / CR4_5 / preamble=16'' @ crlf);
     (epoch, w) \<leftarrow> read_rtc pf rtc w;
     cdc \<leftarrow> log_line 80 [bytes_of ''RTC epoch: '', fmt_u32 epoch, bytes_of '' (build: '', fmt_u32 BUILD_EPOCH, bytes_of '')'' @ crlf] cdc;
     (channel_secret, channel_hash) \<leftarrow> derive_channel_key c (bytes_of ''#meshcore-rs'');
     cdc \<leftarrow> log_line 64 [bytes_of ''Channel: #meshcore-rs (hash=0x'', fmt_hex channel_hash, bytes_of '')'' @ crlf @ crlf] cdc;
     let dedup = PacketDedup_new 128;
     (ts, w) \<leftarrow> read_rtc pf rtc w;
     greeting \<leftarrow> format_response 128 (bytes_of ''online'');
     msg \<leftarrow> as_bytes greeting;
     r \<leftarrow> encode_grp_txt (pf_bytes pf) c channel_secret channel_hash ts msg;
     (cdc, dedup, req) \<leftarrow> (case r of
         None \<Rightarrow> Some (cdc, dedup, None)
       | Some pkt \<Rightarrow> do {
           cdc \<leftarrow> log_line 64 [bytes_of ''TX greeting: len='', fmt_usize (wire_len pkt), crlf] cdc;
           (_, dedup) \<leftarrow> has_seen (sha256 c) dedup pkt;
           Some (cdc, dedup, Some \<lparr>req_packet = pkt, req_priority = 0, delay_ms = 0\<rparr>)
         });
     let cdc = cdc_write cdc (bytes_of ''Listening for commands...'' @ crlf @ crlf);
     let (boot_time, w) = ck_now (pf_clock pf) w;
     Some (\<lparr>us_cdc = cdc, us_rtc = rtc, us_secret = channel_secret, us_hash = channel_hash, us_dedup = dedup,
       us_boot_time = boot_time, us_pkt_count = 0\<rparr>, req, w)
   }"

section \<open>Commands\<close>

text \<open>The command follows the first \<open>": "\<close> of the message.\<close>

definition command_of :: "u8 list \<Rightarrow> u8 list option" where
  "command_of msg =
     (case str_find (bytes_of '': '') msg of
        Some pos \<Rightarrow> do { rest \<leftarrow> slice msg (pos + 2) (length msg); Some (trim_start rest) }
      | None \<Rightarrow> Some (trim_start msg))"

fun write_hex :: "FmtBuf \<Rightarrow> u8 list \<Rightarrow> FmtBuf option" where
  "write_hex buf [] = Some buf"
| "write_hex buf (b # bs) = do { buf \<leftarrow> write_fmt buf [fmt_hex b]; write_hex buf bs }"

text \<open>The loop over the path hashes: \<open>n\<close> iterations are left, the next one is number \<open>i\<close>.\<close>

fun path_loop :: "nat \<Rightarrow> nat \<Rightarrow> nat \<Rightarrow> u8 list \<Rightarrow> FmtBuf \<Rightarrow> FmtBuf option" where
  "path_loop 0 i hash_size path_bytes buf = Some buf"
| "path_loop (Suc n) i hash_size path_bytes buf = do {
     buf \<leftarrow> (if i > 0 then write_fmt buf [bytes_of '',''] else Some buf);
     let start = i * hash_size;
     let end' = min (start + hash_size) (length path_bytes);
     bs \<leftarrow> slice path_bytes start end';
     buf \<leftarrow> write_hex buf bs;
     path_loop n (i + 1) hash_size path_bytes buf
   }"

definition build_response ::
    "('r, 'g, 'w) platform \<Rightarrow> user \<Rightarrow> Packet \<Rightarrow> u8 list \<Rightarrow> 'w \<Rightarrow> (bool \<times> FmtBuf \<times> 'w) option" where
  "build_response pf u pkt body w =
     (let resp_buf = FmtBuf_new 160;
          node = (if utf8_valid NODE_NAME then NODE_NAME else bytes_of ''?'')
      in if starts_with body (bytes_of ''!help'') then do {
           resp_buf \<leftarrow> write_fmt resp_buf [node, bytes_of '': !help !ping !status !path''];
           Some (True, resp_buf, w)
         }
         else if starts_with body (bytes_of ''!ping'') then do {
           resp_buf \<leftarrow> push_all resp_buf NODE_NAME;
           resp_buf \<leftarrow> write_fmt resp_buf [bytes_of '': pong''];
           Some (True, resp_buf, w)
         }
         else if starts_with body (bytes_of ''!status'') then do {
           let (now, w) = ck_now (pf_clock pf) w;
           elapsed \<leftarrow> inst_sub (pf_time pf) now (us_boot_time u);
           let uptime_secs = dur_as_secs (pf_time pf) elapsed;
           resp_buf \<leftarrow> write_fmt resp_buf [node, bytes_of '': up '', fmt_u64 uptime_secs, bytes_of ''s, rx='',
             fmt_u32 (us_pkt_count u), bytes_of '' tx='', fmt_u32 0];
           Some (True, resp_buf, w)
         }
         else if starts_with body (bytes_of ''!path'') then do {
           resp_buf \<leftarrow> write_fmt resp_buf [node, bytes_of '': path hashes='', fmt_u8 (path_hash_count pkt), bytes_of ''/'',
             fmt_u8 (path_hash_size pkt), bytes_of ''B [''];
           resp_buf \<leftarrow> path_loop (unat (path_hash_count pkt)) 0 (unat (path_hash_size pkt)) (path pkt) resp_buf;
           resp_buf \<leftarrow> write_fmt resp_buf [bytes_of '']''];
           Some (True, resp_buf, w)
         }
         else Some (False, resp_buf, w))"

section \<open>One iteration of the loop\<close>

text \<open>The log lines of a new packet.\<close>

definition log_packet :: "u32 \<Rightarrow> RxPacket \<Rightarrow> u8 list list \<Rightarrow> u8 list list option" where
  "log_packet pkt_count rxp cdc = do {
     let pkt = rx_packet rxp;
     out \<leftarrow> write_fmt (FmtBuf_new 128) [bytes_of ''['', fmt_u32 pkt_count, bytes_of ''] rssi='', fmt_f32 0 (rx_rssi rxp),
       bytes_of '' snr='', fmt_f32 1 (rx_snr rxp)];
     out \<leftarrow> (case parsed_header pkt of
         Inr hdr \<Rightarrow> write_fmt out [bytes_of '' '', bytes_of (RouteType_debug (hdr_route_type hdr)), bytes_of ''/'',
           bytes_of (PayloadType_debug (hdr_payload_type hdr))]
       | Inl _ \<Rightarrow> write_fmt out [bytes_of '' hdr=0x'', fmt_hex (header pkt)]);
     out \<leftarrow> write_fmt out [bytes_of '' payload='', fmt_usize (length (payload pkt)), bytes_of ''B'' @ crlf];
     data \<leftarrow> as_bytes out;
     Some (cdc_write cdc data)
   }"

text \<open>The answer to a message: encode, log, register against the own echo, submit.\<close>

definition send_reply ::
    "('r, 'g, 'w) platform \<Rightarrow> crypto \<Rightarrow> user \<Rightarrow> FmtBuf \<Rightarrow> 'w \<Rightarrow> (user \<times> TxRequest option \<times> 'w) option" where
  "send_reply pf c u resp_buf w = do {
     (ts, w) \<leftarrow> read_rtc pf (us_rtc u) w;
     msg \<leftarrow> as_bytes resp_buf;
     r \<leftarrow> encode_grp_txt (pf_bytes pf) c (us_secret u) (us_hash u) ts msg;
     case r of
       None \<Rightarrow> Some (u, None, w)
     | Some reply \<Rightarrow> do {
         cdc \<leftarrow> log_line 200 [bytes_of ''  TX reply: '', if utf8_valid msg then msg else bytes_of ''?'', bytes_of '' (len='',
           fmt_usize (wire_len reply), bytes_of '')'' @ crlf] (us_cdc u);
         (_, dedup) \<leftarrow> has_seen (sha256 c) (us_dedup u) reply;
         Some (u\<lparr>us_cdc := cdc, us_dedup := dedup\<rparr>, Some \<lparr>req_packet = reply, req_priority = 0, delay_ms = 0\<rparr>, w)
       }
   }"

definition user_step ::
    "('r, 'g, 'w) platform \<Rightarrow> crypto \<Rightarrow> user \<times> 'w \<Rightarrow> RxPacket \<Rightarrow> (user \<times> TxRequest option \<times> 'w) option" where
  "user_step pf c = (\<lambda>(u, w) rxp. do {
     let u = u\<lparr>us_pkt_count := us_pkt_count u + 1\<rparr>;
     let pkt = rx_packet rxp;
     (seen, dedup) \<leftarrow> has_seen (sha256 c) (us_dedup u) pkt;
     let u = u\<lparr>us_dedup := dedup\<rparr>;
     if seen then do {
       cdc \<leftarrow> log_line 64 [bytes_of ''['', fmt_u32 (us_pkt_count u), bytes_of ''] dup (flood='', fmt_u32 (flood_dups dedup),
         bytes_of '' direct='', fmt_u32 (direct_dups dedup), bytes_of '')'' @ crlf] (us_cdc u);
       Some (u\<lparr>us_cdc := cdc\<rparr>, None, w)
     }
     else do {
       cdc \<leftarrow> log_packet (us_pkt_count u) rxp (us_cdc u);
       let u = u\<lparr>us_cdc := cdc\<rparr>;
       let is_grp_txt = result_unwrap_or (result_map (\<lambda>pt. pt = GrpTxt) (payload_type pkt)) False;
       if \<not> is_grp_txt \<or> \<not> matches_channel (payload pkt) (us_hash u) then Some (u, None, w)
       else do {
         (decoded, _) \<leftarrow> decode_grp_txt c (us_secret u) (payload pkt) (replicate 256 0);
         case decoded of
           None \<Rightarrow> Some (u\<lparr>us_cdc := cdc_write (us_cdc u) (bytes_of ''  (decrypt failed)'' @ crlf)\<rparr>, None, w)
         | Some d \<Rightarrow> do {
             cdc \<leftarrow> log_line 200 [bytes_of ''  msg: '', message d, crlf] (us_cdc u);
             let u = u\<lparr>us_cdc := cdc\<rparr>;
             body \<leftarrow> command_of (message d);
             (has_response, resp_buf, w) \<leftarrow> build_response pf u pkt body w;
             if has_response then send_reply pf c u resp_buf w else Some (u, None, w)
           }
       }
     }
   })"

section \<open>What the pieces compute\<close>

lemma log_line_eq [simp]: "log_line N pieces cdc = Some (cdc_write cdc (take N (concat pieces)))"
  by (simp add: log_line_def fmtbuf)

lemma log_packet_total: "\<exists>out. log_packet n rxp cdc = Some out"
  by (simp add: log_packet_def fmtbuf Let_def split: sum.split)

text \<open>The body of a message, and the text of the answer to it; \<open>up\<close> is the uptime in seconds.\<close>

definition message_body :: "u8 list \<Rightarrow> u8 list" where
  "message_body msg = (case str_find (bytes_of '': '') msg of
     Some i \<Rightarrow> trim_start (drop (i + 2) msg) | None \<Rightarrow> trim_start msg)"

lemma command_of_eq: "command_of msg = Some (message_body msg)"
  using str_find_Some [of "bytes_of '': ''" msg]
  by (auto simp: command_of_def message_body_def slice_def split: option.split)

definition hash_text :: "nat \<Rightarrow> u8 list \<Rightarrow> nat \<Rightarrow> u8 list" where
  "hash_text hash_size path_bytes i =
     (if i > 0 then bytes_of '','' else []) @ concat (map fmt_hex (take hash_size (drop (i * hash_size) path_bytes)))"

definition path_text :: "Packet \<Rightarrow> u8 list" where
  "path_text p = fmt_u8 (path_hash_count p) @ bytes_of ''/'' @ fmt_u8 (path_hash_size p) @ bytes_of ''B ['' @
     concat (map (hash_text (unat (path_hash_size p)) (path p)) [0..<unat (path_hash_count p)]) @ bytes_of '']''"

definition reply_text :: "u64 \<Rightarrow> u32 \<Rightarrow> Packet \<Rightarrow> u8 list \<Rightarrow> u8 list option" where
  "reply_text up cnt pkt body =
     (if starts_with body (bytes_of ''!help'') then Some (NODE_NAME @ bytes_of '': !help !ping !status !path'')
      else if starts_with body (bytes_of ''!ping'') then Some (NODE_NAME @ bytes_of '': pong'')
      else if starts_with body (bytes_of ''!status'') then
        Some (NODE_NAME @ bytes_of '': up '' @ fmt_u64 up @ bytes_of ''s, rx='' @ fmt_u32 cnt @ bytes_of '' tx='' @ fmt_u32 0)
      else if starts_with body (bytes_of ''!path'') then Some (NODE_NAME @ bytes_of '': path hashes='' @ path_text pkt)
      else None)"

lemma write_hex_eq: "write_hex (fb_of N s) bs = Some (fb_of N (s @ concat (map fmt_hex bs)))"
  by (induction bs arbitrary: s) (simp_all add: fmtbuf)

lemma path_loop_eq:
  assumes "(i + n) * sz \<le> length bytes"
  shows "path_loop n i sz bytes (fb_of N s) = Some (fb_of N (s @ concat (map (hash_text sz bytes) [i..<i + n])))"
  using assms
proof (induction n arbitrary: i s)
  case (Suc n)
  have le: "i * sz + sz \<le> length bytes"
    using Suc.prems by (simp add: add_mult_distrib)
  then have m: "min (i * sz + sz) (length bytes) = i * sz + sz" by simp
  have sl: "slice bytes (i * sz) (i * sz + sz) = Some (take sz (drop (i * sz) bytes))"
    using le by (simp add: slice_def)
  have "path_loop n (i + 1) sz bytes (fb_of N (s @ hash_text sz bytes i)) =
      Some (fb_of N ((s @ hash_text sz bytes i) @ concat (map (hash_text sz bytes) [i + 1..<i + 1 + n])))"
    by (rule Suc.IH) (use Suc.prems in simp)
  moreover have "path_loop (Suc n) i sz bytes (fb_of N s) = path_loop n (i + 1) sz bytes (fb_of N (s @ hash_text sz bytes i))"
    by (simp add: m sl write_hex_eq fmtbuf hash_text_def Let_def)
  moreover have "[i..<i + Suc n] = i # [i + 1..<i + 1 + n]" by (simp add: upt_conv_Cons)
  ultimately show ?case by simp
qed simp

lemma node_valid: "utf8_valid NODE_NAME"
  by (rule utf8_valid_ascii) (simp add: NODE_NAME_def bytes_of_def)

lemma wf_path_bytes: "wf_packet p \<Longrightarrow> (0 + unat (path_hash_count p)) * unat (path_hash_size p) \<le> length (path p)"
  by (simp add: wf_packet_def path_byte_len_def)

lemma build_response_eq:
  assumes "platform_ok pf" "wf_packet pkt" "us_boot_time u \<le> ck_time (pf_clock pf) w"
  shows "\<exists>up w'. build_response pf u pkt body w =
      Some (case reply_text up (us_pkt_count u) pkt body of
        None \<Rightarrow> (False, fb_of 160 [], w') | Some t \<Rightarrow> (True, fb_of 160 t, w')) \<and>
    ck_time (pf_clock pf) w \<le> ck_time (pf_clock pf) w' \<and> (\<exists>n \<le> 1. w' = reads (pf_clock pf) n w)"
proof -
  obtain now w1 where n: "ck_now (pf_clock pf) w = (now, w1)" by fastforce
  note t = clock_okD [OF platform_okD(7) [OF assms(1)] n]
  then have el: "inst_sub (pf_time pf) now (us_boot_time u) = Some (now - us_boot_time u)"
    using assms(3) by (simp add: time_okD(2) [OF platform_okD(6) [OF assms(1)]])
  let ?up = "dur_as_secs (pf_time pf) (now - us_boot_time u)"
  let ?r = "\<lambda>w'. Some (case reply_text ?up (us_pkt_count u) pkt body of
        None \<Rightarrow> (False, fb_of 160 [], w') | Some t \<Rightarrow> (True, fb_of 160 t, w'))"
  have "build_response pf u pkt body w = ?r w \<or> build_response pf u pkt body w = ?r w1"
    using n el path_loop_eq [OF wf_path_bytes [OF assms(2)]]
    by (simp add: build_response_def reply_text_def path_text_def fmtbuf node_valid Let_def)
  moreover have "ck_time (pf_clock pf) w \<le> ck_time (pf_clock pf) w1" using t by simp
  moreover have "w = reads (pf_clock pf) 0 w" "w1 = reads (pf_clock pf) 1 w" using n by simp_all
  ultimately show ?thesis by (metis le_numeral_extra(3) order.refl zero_le_one)
qed

lemma read_rtc_eq:
  assumes "platform_ok pf" "base_instant rtc \<le> ck_time (pf_clock pf) w"
  shows "\<exists>ts w'. read_rtc pf rtc w = Some (ts, w') \<and> ck_time (pf_clock pf) w \<le> ck_time (pf_clock pf) w' \<and>
    w' = reads (pf_clock pf) 1 w"
proof -
  obtain now w1 where n: "ck_now (pf_clock pf) w = (now, w1)" by fastforce
  note t = clock_okD [OF platform_okD(7) [OF assms(1)] n]
  then show ?thesis
    using n assms(2) by (simp add: read_rtc_def rtc_get_time_def time_okD(2) [OF platform_okD(6) [OF assms(1)]])
qed

section \<open>Answers are printable\<close>

definition printable :: "u8 \<Rightarrow> bool" where
  "printable b \<longleftrightarrow> 0x20 \<le> b \<and> b < 0x7F"

lemma printable_hex_digit: "n < 16 \<Longrightarrow> printable (of_char (hex_digit n))"
proof -
  have "\<forall>n \<in> set [0..<16]. printable (of_char (hex_digit n))" by code_simp
  then show "n < 16 \<Longrightarrow> printable (of_char (hex_digit n))" by simp
qed

lemma printable_fmt_nat: "list_all printable (bytes_of (fmt_nat n))"
proof (induction n rule: fmt_nat.induct)
  case (1 n)
  then show ?case
    by (subst fmt_nat.simps) (auto simp: bytes_of_def printable_hex_digit)
qed

lemma printable_fmt_hex: "list_all printable (fmt_hex b)"
proof -
  have "unat b div 16 < 16" using unsigned_less [of b, where ?'a = nat] by simp
  then show ?thesis by (simp add: fmt_hex_def fmt_02x_def bytes_of_def printable_hex_digit)
qed

lemma printable_hashes: "list_all printable (concat (map (hash_text sz bytes) is))"
proof -
  have "list_all printable (concat (map fmt_hex bs))" for bs
    by (induction bs) (simp_all add: printable_fmt_hex)
  then have "list_all printable (hash_text sz bytes i)" for i
    by (simp add: hash_text_def bytes_of_def printable_def)
  then show ?thesis by (induction "is") simp_all
qed

lemma reply_text_printable:
  assumes "reply_text up cnt pkt body = Some t"
  shows "list_all printable t \<and> t \<noteq> []"
proof -
  have lits: "list_all printable NODE_NAME" "list_all printable (bytes_of '': !help !ping !status !path'')"
    "list_all printable (bytes_of '': pong'')" "list_all printable (bytes_of '': up '')" "list_all printable (bytes_of ''s, rx='')"
    "list_all printable (bytes_of '' tx='')" "list_all printable (bytes_of '': path hashes='')" "list_all printable (bytes_of ''/'')"
    "list_all printable (bytes_of ''B ['')" "list_all printable (bytes_of '']'')" "NODE_NAME \<noteq> []"
    by (simp_all add: NODE_NAME_def bytes_of_def printable_def)
  with assms show ?thesis
    by (auto simp: reply_text_def path_text_def printable_hashes printable_fmt_nat fmt_u8_def fmt_u32_def fmt_u64_def
        simp del: bytes_of_append split: if_splits)
qed

lemma printable_text:
  assumes "list_all printable t"
  shows "utf8_valid (take n t)" and "take n t = [] \<or> last (take n t) \<noteq> 0"
proof -
  have p: "list_all printable (take n t)"
    using assms by (auto simp: list_all_iff dest: in_set_takeD)
  then have "list_all (\<lambda>b. b < 0x80) (take n t)"
    by (auto simp: list_all_iff printable_def intro: order.strict_trans)
  then show "utf8_valid (take n t)" by (rule utf8_valid_ascii)
  show "take n t = [] \<or> last (take n t) \<noteq> 0"
  proof (cases "take n t = []")
    case False
    then have "last (take n t) \<in> set (take n t)" by (rule last_in_set)
    with p have "printable (last (take n t))" by (simp add: list_all_iff)
    then show ?thesis by (auto simp: printable_def)
  qed simp
qed

section \<open>The invariant of the task\<close>

definition user_ok :: "('r, 'g, 'w) platform \<Rightarrow> user \<Rightarrow> 'w \<Rightarrow> bool" where
  "user_ok pf u w \<longleftrightarrow> ring_ok (us_dedup u) \<and> length (hashes (us_dedup u)) = 128 \<and> length (us_secret u) = 32 \<and>
     us_boot_time u \<le> ck_time (pf_clock pf) w \<and> base_instant (us_rtc u) \<le> ck_time (pf_clock pf) w"

lemma user_ok_later: "user_ok pf u w \<Longrightarrow> ck_time (pf_clock pf) w \<le> ck_time (pf_clock pf) w' \<Longrightarrow> user_ok pf u w'"
  by (auto simp: user_ok_def)

text \<open>The request the task submits for a text: it is cut to the 160 bytes of the response buffer.\<close>

definition reply_request :: "crypto \<Rightarrow> user \<Rightarrow> u32 \<Rightarrow> u8 list \<Rightarrow> TxRequest" where
  "reply_request c u ts t =
     \<lparr>req_packet = grp_packet c (us_secret u) (us_hash u) ts (take 160 t), req_priority = 0, delay_ms = 0\<rparr>"

lemma reply_request_wf: "crypto_ok c \<Longrightarrow> length (us_secret u) = 32 \<Longrightarrow> wf_packet (req_packet (reply_request c u ts t))"
  by (simp add: reply_request_def wf_grp_packet)

lemma send_reply_eq:
  assumes "platform_ok pf" "crypto_ok c" "user_ok pf u w"
  shows "\<exists>ts cdc seen dedup w'. send_reply pf c u (fb_of 160 t) w =
      Some (u\<lparr>us_cdc := cdc, us_dedup := dedup\<rparr>, Some (reply_request c u ts t), w') \<and>
    has_seen (sha256 c) (us_dedup u) (req_packet (reply_request c u ts t)) = Some (seen, dedup) \<and>
    ck_time (pf_clock pf) w \<le> ck_time (pf_clock pf) w' \<and> w' = reads (pf_clock pf) 1 w"
proof -
  obtain ts w' where r: "read_rtc pf (us_rtc u) w = Some (ts, w')"
    and t: "ck_time (pf_clock pf) w \<le> ck_time (pf_clock pf) w'" "w' = reads (pf_clock pf) 1 w"
    using read_rtc_eq [OF assms(1)] assms(3) unfolding user_ok_def by blast
  have e: "encode_grp_txt (pf_bytes pf) c (us_secret u) (us_hash u) ts (take 160 t) =
      Some (Some (grp_packet c (us_secret u) (us_hash u) ts (take 160 t)))"
    using assms(3) encode_grp_txt_eq [OF platform_okD(1) [OF assms(1)] assms(2)] by (auto simp: user_ok_def min_def)
  obtain seen dedup where h: "has_seen (sha256 c) (us_dedup u) (grp_packet c (us_secret u) (us_hash u) ts (take 160 t)) = Some (seen, dedup)"
    using assms(3) has_seen_iff [of "us_dedup u"] unfolding user_ok_def by blast
  have send: "send_reply pf c u (fb_of 160 t) w = Some (u\<lparr>us_cdc := cdc_write (us_cdc u) (take 200 (concat [bytes_of ''  TX reply: '',
      if utf8_valid (take 160 t) then take 160 t else bytes_of ''?'', bytes_of '' (len='',
      fmt_usize (wire_len (grp_packet c (us_secret u) (us_hash u) ts (take 160 t))), bytes_of '')'' @ crlf])),
      us_dedup := dedup\<rparr>, Some (reply_request c u ts t), w')"
    using r e h by (simp add: send_reply_def fmtbuf reply_request_def)
  show ?thesis
    by (rule exI [of _ ts], rule exI, rule exI [of _ seen], rule exI [of _ dedup], rule exI [of _ w'], rule conjI, rule send,
        intro conjI, use h in \<open>simp add: reply_request_def\<close>, rule t(1), rule t(2))
qed

section \<open>One iteration, on every branch\<close>

text \<open>The answer to a new packet, if any: a group text on the channel that decrypts and whose body is a command.\<close>

definition answer :: "crypto \<Rightarrow> user \<Rightarrow> u64 \<Rightarrow> Packet \<Rightarrow> u8 list option" where
  "answer c u up p =
     (if payload_type p = Inr GrpTxt \<and> matches_channel (payload p) (us_hash u)
      then case open_grp_txt c (us_secret u) (payload p) of
          None \<Rightarrow> None
        | Some d \<Rightarrow> reply_text up (us_pkt_count u + 1) p (message_body (message d))
      else None)"

lemma is_grp_txt_iff: "result_unwrap_or (result_map (\<lambda>pt. pt = GrpTxt) r) False \<longleftrightarrow> r = Inr GrpTxt"
  by (cases r) auto

lemma answer_fields [simp]:
  "us_secret (u\<lparr>us_cdc := x, us_dedup := y\<rparr>) = us_secret u"
  "reply_request c (u\<lparr>us_pkt_count := n, us_dedup := y, us_cdc := x\<rparr>) = reply_request c u"
  by (simp_all add: reply_request_def fun_eq_iff)

lemma user_step_old:
  assumes "platform_ok pf" "user_ok pf u w" "packet_hash (sha256 c) (rx_packet rxp) \<in> set (hashes (us_dedup u))"
  shows "\<exists>cdc dedup. user_step pf c (u, w) rxp =
      Some (u\<lparr>us_pkt_count := us_pkt_count u + 1, us_dedup := dedup, us_cdc := cdc\<rparr>, None, w) \<and>
    has_seen (sha256 c) (us_dedup u) (rx_packet rxp) = Some (True, dedup)"
proof -
  obtain dedup where "has_seen (sha256 c) (us_dedup u) (rx_packet rxp) = Some (True, dedup)"
    using assms(3) has_seen_old by blast
  then show ?thesis
    by - (rule exI, rule exI [of _ dedup], auto simp: user_step_def Let_def)
qed

lemma user_step_new:
  assumes pf: "platform_ok pf" and c: "crypto_ok c" and u: "user_ok pf u w" and wf: "rx_wf rxp"
    and new: "packet_hash (sha256 c) (rx_packet rxp) \<notin> set (hashes (us_dedup u))"
  shows "\<exists>up ts dedup cdc dedup' w'.
    has_seen (sha256 c) (us_dedup u) (rx_packet rxp) = Some (False, dedup) \<and>
    (\<exists>n \<le> 2. w' = reads (pf_clock pf) n w) \<and>
    (case answer c u up (rx_packet rxp) of
       None \<Rightarrow> dedup' = dedup
     | Some t \<Rightarrow> \<exists>seen. has_seen (sha256 c) dedup (req_packet (reply_request c u ts t)) = Some (seen, dedup')) \<and>
    user_step pf c (u, w) rxp =
      Some (u\<lparr>us_pkt_count := us_pkt_count u + 1, us_dedup := dedup', us_cdc := cdc\<rparr>,
        map_option (reply_request c u ts) (answer c u up (rx_packet rxp)), w')"
proof -
  let ?p = "rx_packet rxp"
  have wf': "wf_packet ?p" using wf by (simp add: rx_wf_def)
  have ring: "ring_ok (us_dedup u)" "length (hashes (us_dedup u)) = 128" "length (us_secret u) = 32"
    using u by (simp_all add: user_ok_def)
  obtain dedup where seen: "has_seen (sha256 c) (us_dedup u) ?p = Some (False, dedup)"
    and dedup: "ring_ok dedup" "length (hashes dedup) = 128"
    by (rule has_seen_cases [OF ring(1), of "sha256 c" ?p]) (use new ring(2) in auto)
  obtain log where log: "log_packet (us_pkt_count u + 1) rxp (us_cdc u) = Some log"
    using log_packet_total by blast
  let ?u1 = "u\<lparr>us_pkt_count := us_pkt_count u + 1, us_dedup := dedup, us_cdc := log\<rparr>"
  obtain scratch where dec: "decode_grp_txt c (us_secret u) (payload ?p) (replicate 256 0) =
      Some (open_grp_txt c (us_secret u) (payload ?p), scratch)"
    using decode_grp_txt_eq [OF c ring(3), of "payload ?p" "replicate 256 0"] wf' by (auto simp: wf_packet_def MAX_PACKET_PAYLOAD_def)
  show ?thesis
  proof (cases "payload_type ?p = Inr GrpTxt \<and> matches_channel (payload ?p) (us_hash u)")
    case False
    then have "user_step pf c (u, w) rxp = Some (?u1, None, w)" "answer c u 0 ?p = None"
      using seen log by (auto simp: user_step_def is_grp_txt_iff answer_def Let_def)
    then show ?thesis
      using seen by (intro exI [of _ 0] exI [of _ dedup] exI [of _ log] exI [of _ w] exI) (simp, intro exI [of _ 0], simp)
  next
    case chan: True
    show ?thesis
    proof (cases "open_grp_txt c (us_secret u) (payload ?p)")
      case None
      then have "\<exists>cdc. user_step pf c (u, w) rxp = Some (?u1\<lparr>us_cdc := cdc\<rparr>, None, w)" "answer c u 0 ?p = None"
        using seen log chan dec by (auto simp: user_step_def is_grp_txt_iff answer_def Let_def)
      then show ?thesis
        using seen by (auto intro!: exI [of _ 0] exI [of _ dedup] exI [of _ w] exI [of _ "0 :: nat"])
    next
      case (Some d)
      let ?line = "cdc_write log (take 200 (concat [bytes_of ''  msg: '', message d, crlf]))"
      let ?u2 = "u\<lparr>us_pkt_count := us_pkt_count u + 1, us_dedup := dedup, us_cdc := ?line\<rparr>"
      have bt: "us_boot_time ?u2 \<le> ck_time (pf_clock pf) w" using u by (simp add: user_ok_def)
      obtain up w1 where b: "build_response pf ?u2 ?p (message_body (message d)) w =
          Some (case reply_text up (us_pkt_count ?u2) ?p (message_body (message d)) of
            None \<Rightarrow> (False, fb_of 160 [], w1) | Some t \<Rightarrow> (True, fb_of 160 t, w1))"
        and t1: "ck_time (pf_clock pf) w \<le> ck_time (pf_clock pf) w1" and n1: "\<exists>n \<le> 1. w1 = reads (pf_clock pf) n w"
        using build_response_eq [OF pf wf' bt] by blast
      have ans: "answer c u up ?p = reply_text up (us_pkt_count ?u2) ?p (message_body (message d))"
        using chan Some by (simp add: answer_def)
      have step: "user_step pf c (u, w) rxp =
          (case answer c u up ?p of None \<Rightarrow> Some (?u2, None, w1) | Some t \<Rightarrow> send_reply pf c ?u2 (fb_of 160 t) w1)"
        using seen log chan dec Some b
        by (simp add: user_step_def is_grp_txt_iff command_of_eq ans Let_def split: option.split)
      show ?thesis
      proof (cases "answer c u up ?p")
        case None
        then show ?thesis
          using step seen n1
          by (intro exI [of _ up] exI [of _ dedup] exI [of _ w1] exI) (auto intro: exI [of _ "0 :: nat"] exI [of _ "1 :: nat"] simp: le_Suc_eq)
      next
        case (Some t)
        have "user_ok pf ?u2 w1"
          using u t1 dedup by (auto simp: user_ok_def)
        from send_reply_eq [OF pf c this, of t] obtain ts cdc sn dedup' w2 where
          sr: "send_reply pf c ?u2 (fb_of 160 t) w1 = Some (?u2\<lparr>us_cdc := cdc, us_dedup := dedup'\<rparr>, Some (reply_request c ?u2 ts t), w2)"
          and sn: "has_seen (sha256 c) dedup (req_packet (reply_request c ?u2 ts t)) = Some (sn, dedup')"
          and n2: "w2 = reads (pf_clock pf) 1 w1" by auto
        obtain n where "n \<le> 1" "w2 = reads (pf_clock pf) (n + 1) w" using n1 n2 reads_add by metis
        then have n3: "\<exists>n \<le> 2. w2 = reads (pf_clock pf) n w" by (intro exI [of _ "n + 1"]) simp
        have rq: "reply_request c ?u2 ts t = reply_request c u ts t" by simp
        show ?thesis
          using step seen n3 sn sr Some unfolding rq
          by (intro exI [of _ up] exI [of _ ts] exI [of _ dedup] exI [of _ cdc] exI [of _ dedup'] exI [of _ w2]) auto
      qed
    qed
  qed
qed

section \<open>Runs\<close>

fun user_run ::
    "('r, 'g, 'w) platform \<Rightarrow> crypto \<Rightarrow> user \<times> 'w \<Rightarrow> RxPacket list \<Rightarrow> (user \<times> TxRequest option list \<times> 'w) option" where
  "user_run pf c (u, w) [] = Some (u, [], w)"
| "user_run pf c (u, w) (rxp # rest) = do {
     (u, req, w) \<leftarrow> user_step pf c (u, w) rxp;
     (u, reqs, w) \<leftarrow> user_run pf c (u, w) rest;
     Some (u, req # reqs, w)
   }"

text \<open>Per packet the table sees the packet and at most one answer.\<close>

lemma user_step_cases:
  assumes "platform_ok pf" "crypto_ok c" "user_ok pf u w" "rx_wf rxp"
  shows "\<exists>u' req w' up ts ps bs. user_step pf c (u, w) rxp = Some (u', req, w') \<and> user_ok pf u' w' \<and>
    us_pkt_count u' = us_pkt_count u + 1 \<and> us_secret u' = us_secret u \<and> us_hash u' = us_hash u \<and>
    req = (if packet_hash (sha256 c) (rx_packet rxp) \<in> set (hashes (us_dedup u)) then None
      else map_option (reply_request c u ts) (answer c u up (rx_packet rxp))) \<and>
    ps = rx_packet rxp # (case req of None \<Rightarrow> [] | Some r \<Rightarrow> [req_packet r]) \<and>
    seen_run (sha256 c) (us_dedup u) ps = Some (bs, us_dedup u') \<and> ck_time (pf_clock pf) w \<le> ck_time (pf_clock pf) w' \<and>
    (\<exists>n \<le> 2. w' = reads (pf_clock pf) n w)"
proof -
  let ?p = "rx_packet rxp"
  have u: "ring_ok (us_dedup u)" "length (hashes (us_dedup u)) = 128" using assms(3) by (simp_all add: user_ok_def)
  have ok: "user_ok pf (u\<lparr>us_pkt_count := n, us_dedup := d, us_cdc := cdc\<rparr>) w'"
    if "seen_run (sha256 c) (us_dedup u) ps = Some (bs, d)" "ck_time (pf_clock pf) w \<le> ck_time (pf_clock pf) w'" for n d cdc w' ps bs
    using that seen_run_fifo [OF u(1), of "sha256 c" ps] u(2) assms(3) by (auto simp: user_ok_def)
  show ?thesis
  proof (cases "packet_hash (sha256 c) ?p \<in> set (hashes (us_dedup u))")
    case True
    from user_step_old [OF assms(1,3) this] obtain cdc d where
      s: "user_step pf c (u, w) rxp = Some (u\<lparr>us_pkt_count := us_pkt_count u + 1, us_dedup := d, us_cdc := cdc\<rparr>, None, w)"
      and h: "has_seen (sha256 c) (us_dedup u) ?p = Some (True, d)" by blast
    have r: "seen_run (sha256 c) (us_dedup u) [?p] = Some ([True], d)" using h by simp
    have "\<exists>n \<le> 2. w = reads (pf_clock pf) n w" by (rule exI [of _ 0]) simp
    with ok [OF r order.refl] s r True show ?thesis by auto
  next
    case False
    from user_step_new [OF assms False] obtain up ts d cdc d' w' where
      h: "has_seen (sha256 c) (us_dedup u) ?p = Some (False, d)" and n: "\<exists>n \<le> 2. w' = reads (pf_clock pf) n w"
      and a: "case answer c u up ?p of None \<Rightarrow> d' = d
        | Some t \<Rightarrow> \<exists>seen. has_seen (sha256 c) d (req_packet (reply_request c u ts t)) = Some (seen, d')"
      and s: "user_step pf c (u, w) rxp = Some (u\<lparr>us_pkt_count := us_pkt_count u + 1, us_dedup := d', us_cdc := cdc\<rparr>,
        map_option (reply_request c u ts) (answer c u up ?p), w')" by blast
    obtain bs where r: "seen_run (sha256 c) (us_dedup u)
        (?p # (case map_option (reply_request c u ts) (answer c u up ?p) of None \<Rightarrow> [] | Some r \<Rightarrow> [req_packet r])) = Some (bs, d')"
      using h a by (cases "answer c u up ?p") auto
    have t: "ck_time (pf_clock pf) w \<le> ck_time (pf_clock pf) w'"
      using n reads_later [OF platform_okD(7) [OF assms(1)]] by auto
    define u' where "u' = u\<lparr>us_pkt_count := us_pkt_count u + 1, us_dedup := d', us_cdc := cdc\<rparr>"
    have u': "us_dedup u' = d'" "us_pkt_count u' = us_pkt_count u + 1" "us_secret u' = us_secret u" "us_hash u' = us_hash u"
      by (simp_all add: u'_def)
    have o: "user_ok pf u' w'" unfolding u'_def by (rule ok [OF r t])
    let ?req = "map_option (reply_request c u ts) (answer c u up ?p)"
    show ?thesis
    proof (rule exI [of _ u'], rule exI [of _ ?req], rule exI [of _ w'], rule exI [of _ up], rule exI [of _ ts],
        rule exI [of _ "?p # (case ?req of None \<Rightarrow> [] | Some r \<Rightarrow> [req_packet r])"], rule exI [of _ bs], intro conjI)
      show "seen_run (sha256 c) (us_dedup u) (?p # (case ?req of None \<Rightarrow> [] | Some r \<Rightarrow> [req_packet r])) = Some (bs, us_dedup u')"
        unfolding u' by (rule r)
    qed (use s o u' t n False in \<open>simp_all add: u'_def\<close>)
  qed
qed

lemma user_run_seen:
  assumes "platform_ok pf" "crypto_ok c" "user_ok pf u w" "\<forall>p \<in> set rxs. rx_wf p"
  shows "\<exists>u' reqs w' ps bs. user_run pf c (u, w) rxs = Some (u', reqs, w') \<and> user_ok pf u' w' \<and> length ps \<le> 2 * length rxs \<and>
    seen_run (sha256 c) (us_dedup u) ps = Some (bs, us_dedup u')"
  using assms(3,4)
proof (induction rxs arbitrary: u w)
  case (Cons p rxs)
  have "rx_wf p" using Cons.prems by simp
  from user_step_cases [OF assms(1,2) Cons.prems(1) this] obtain u1 req w1 ps bs where
    s: "user_step pf c (u, w) p = Some (u1, req, w1)" "user_ok pf u1 w1"
    and ps: "ps = rx_packet p # (case req of None \<Rightarrow> [] | Some r \<Rightarrow> [req_packet r])"
    and sr: "seen_run (sha256 c) (us_dedup u) ps = Some (bs, us_dedup u1)" by blast
  from Cons.IH [OF s(2)] Cons.prems obtain u2 reqs w2 qs cs where
    r: "user_run pf c (u1, w1) rxs = Some (u2, reqs, w2)" "user_ok pf u2 w2" "length qs \<le> 2 * length rxs"
    and qr: "seen_run (sha256 c) (us_dedup u1) qs = Some (cs, us_dedup u2)" by auto
  have "seen_run (sha256 c) (us_dedup u) (ps @ qs) = Some (bs @ cs, us_dedup u2)"
    using sr qr by (simp add: seen_run_append)
  moreover have "length (ps @ qs) \<le> 2 * length (p # rxs)" using r(3) by (simp add: ps split: option.split)
  ultimately show ?case
    using s r
    by (intro exI [of _ u2] exI [of _ "req # reqs"] exI [of _ w2] exI [of _ "ps @ qs"] exI [of _ "bs @ cs"]) simp
qed auto

section \<open>Properties\<close>

text \<open>
  C16: One iteration of the responder's loop, on every branch and without a panic, for every well-formed packet: a packet whose hash is in the table is only
  counted; a new one is answered exactly when it is a group text on the channel that decrypts to a command, by a well-formed request that
  carries the sealed answer, cut to 160 bytes of printable text. The invariant of the task is kept, and the table has seen the packet and the answer.
\<close>
theorem responder_step:
  assumes "platform_ok pf" "crypto_ok c" "user_ok pf u w" "rx_wf rxp"
  shows "\<exists>u' req w' up ts ps bs. user_step pf c (u, w) rxp = Some (u', req, w') \<and> user_ok pf u' w' \<and>
    us_pkt_count u' = us_pkt_count u + 1 \<and>
    req = (if packet_hash (sha256 c) (rx_packet rxp) \<in> set (hashes (us_dedup u)) then None
      else map_option (reply_request c u ts) (answer c u up (rx_packet rxp))) \<and>
    (\<forall>r. req = Some r \<longrightarrow> wf_packet (req_packet r)) \<and>
    (\<forall>t. answer c u up (rx_packet rxp) = Some t \<longrightarrow> list_all printable t) \<and>
    ps = rx_packet rxp # (case req of None \<Rightarrow> [] | Some r \<Rightarrow> [req_packet r]) \<and>
    seen_run (sha256 c) (us_dedup u) ps = Some (bs, us_dedup u')"
proof -
  from user_step_cases [OF assms] obtain u' req w' up ts ps bs where
    s: "user_step pf c (u, w) rxp = Some (u', req, w')" "user_ok pf u' w'" "us_pkt_count u' = us_pkt_count u + 1"
    and req: "req = (if packet_hash (sha256 c) (rx_packet rxp) \<in> set (hashes (us_dedup u)) then None
      else map_option (reply_request c u ts) (answer c u up (rx_packet rxp)))"
    and ps: "ps = rx_packet rxp # (case req of None \<Rightarrow> [] | Some r \<Rightarrow> [req_packet r])"
      "seen_run (sha256 c) (us_dedup u) ps = Some (bs, us_dedup u')" by blast
  have wf: "\<forall>r. req = Some r \<longrightarrow> wf_packet (req_packet r)"
    using req assms(3) reply_request_wf [OF assms(2)] by (auto simp: user_ok_def split: if_splits)
  have pr: "\<forall>t. answer c u up (rx_packet rxp) = Some t \<longrightarrow> list_all printable t"
    using reply_text_printable by (auto simp: answer_def split: if_splits option.splits)
  show ?thesis using s req wf pr ps by blast
qed

text \<open>
  C17: The responder does not talk to itself: when a copy of its own answer comes back, whatever path it took, after at most 63 further packets, the
  copy is taken for a duplicate and not answered (provided the answer's hash was not in the table already when it was sent).
\<close>
theorem own_echo_ignored:
  assumes "platform_ok pf" "crypto_ok c" "user_ok pf u w" "rx_wf rxp"
    and "user_step pf c (u, w) rxp = Some (u1, Some req, w1)"
    and "packet_hash (sha256 c) (req_packet req) \<notin> insert (packet_hash (sha256 c) (rx_packet rxp)) (set (hashes (us_dedup u)))"
    and "user_run pf c (u1, w1) rxs = Some (u2, reqs, w2)" "\<forall>p \<in> set rxs. rx_wf p" "length rxs \<le> 63"
    and "packet_hash (sha256 c) (rx_packet echo) = packet_hash (sha256 c) (req_packet req)"
  shows "\<exists>u3. user_step pf c (u2, w2) echo = Some (u3, None, w2)"
proof -
  from user_step_cases [OF assms(1-4)] assms(5) obtain ps bs where
    u1: "user_ok pf u1 w1" and ps: "ps = [rx_packet rxp, req_packet req]"
    and sr: "seen_run (sha256 c) (us_dedup u) ps = Some (bs, us_dedup u1)" by auto
  then obtain b1 d1 b2 where h1: "has_seen (sha256 c) (us_dedup u) (rx_packet rxp) = Some (b1, d1)"
    and h2: "has_seen (sha256 c) d1 (req_packet req) = Some (b2, us_dedup u1)"
    by (auto simp: bind_eq_Some_conv)
  have u: "ring_ok (us_dedup u)" "length (hashes (us_dedup u)) = 128" using assms(3) by (simp_all add: user_ok_def)
  have d1: "ring_ok d1" "length (hashes d1) = 128" "set (fifo d1) \<subseteq> insert (packet_hash (sha256 c) (rx_packet rxp)) (set (fifo (us_dedup u)))"
    using has_seen_keeps [OF u(1) h1] u(2) by auto
  then have "packet_hash (sha256 c) (req_packet req) \<notin> set (fifo d1)" using assms(6) by auto
  then have "b2 = False" using has_seen_iff [OF d1(1)] h2 by blast
  with h2 have new: "has_seen (sha256 c) d1 (req_packet req) = Some (False, us_dedup u1)" by simp
  from user_run_seen [OF assms(1,2) u1 assms(8)] assms(7) obtain qs cs where
    u2: "user_ok pf u2 w2" and qs: "length qs \<le> 2 * length rxs"
    and qr: "seen_run (sha256 c) (us_dedup u1) qs = Some (cs, us_dedup u2)" by auto
  have "length qs < length (hashes d1)" using qs assms(9) d1(2) by simp
  from seen_remembered [OF d1(1) new this qr]
  have "packet_hash (sha256 c) (rx_packet echo) \<in> set (hashes (us_dedup u2))"
    using has_seen_iff [of "us_dedup u2" "sha256 c" "req_packet req" True] u2 assms(10) by (auto simp: user_ok_def)
  from user_step_old [OF assms(1) u2 this] show ?thesis by blast
qed

text \<open>
  Two responders answer each other's help texts: the answer to \<open>!help\<close>, received by any node with the same channel key that has not seen it, is itself
  taken for the command \<open>!help\<close> and answered with the same text again.
\<close>
theorem help_answers_help:
  assumes "platform_ok pf" "crypto_ok c" "user_ok pf u w"
    and "htext = bytes_of ''rak4631: !help !ping !status !path''"
    and "p = grp_packet c (us_secret u) (us_hash u) ts htext"
    and "packet_hash (sha256 c) p \<notin> set (hashes (us_dedup u))"
  shows "\<exists>u' ts' w'. user_step pf c (u, w) \<lparr>rx_packet = p, rx_rssi = rssi, rx_snr = s\<rparr> =
    Some (u', Some \<lparr>req_packet = grp_packet c (us_secret u) (us_hash u) ts' htext, req_priority = 0, delay_ms = 0\<rparr>, w')"
proof -
  have s: "length (us_secret u) = 32" using assms(3) by (simp add: user_ok_def)
  have h: "utf8_valid htext" "length htext \<le> 160" "last htext \<noteq> 0" "starts_with (message_body htext) (bytes_of ''!help'')"
    unfolding assms(4) by (code_simp+)
  have wf: "rx_wf \<lparr>rx_packet = p, rx_rssi = rssi, rx_snr = s\<rparr>"
    using wf_grp_packet [OF assms(2) s, of htext] h(2) by (simp add: rx_wf_def assms(5))
  have pt: "payload_type p = Inr GrpTxt"
    unfolding assms(5) grp_packet_def by (simp add: payload_type_def parsed_header_def) code_simp
  have "open_grp_txt c (us_secret u) (payload p) = Some \<lparr>timestamp = ts, tx_type = 0, message = htext\<rparr>"
    unfolding assms(5) using h open_grp_packet [OF assms(2) s h(1)] by simp
  then have "answer c u up p = reply_text up (us_pkt_count u + 1) p (message_body htext)" for up
    using pt by (simp add: answer_def assms(5) matches_channel_def grp_packet_def)
  then have a: "answer c u up p = Some htext" for up
    using h(4) by (simp add: reply_text_def assms(4) NODE_NAME_def flip: bytes_of_append)
  from user_step_cases [OF assms(1-3) wf] assms(6) a h(2) show ?thesis
    by (auto simp: reply_request_def)
qed

section \<open>Concrete inputs\<close>

text \<open>A digest that gives away the length of its input, and a task on the channel with hash 7.\<close>

definition demo_crypto :: crypto where
  "demo_crypto = toy_crypto\<lparr>sha256 := (\<lambda>m. take 32 (of_nat (length m) # replicate 32 0))\<rparr>"

lemma demo_crypto_ok: "crypto_ok demo_crypto"
  using toy_crypto_ok by (simp add: demo_crypto_def crypto_ok_def)

definition demo_user :: user where
  "demo_user = \<lparr>us_cdc = [], us_rtc = VolatileRtcClock_new 0 1000, us_secret = replicate 32 1, us_hash = 7,
     us_dedup = PacketDedup_new 128, us_boot_time = 0, us_pkt_count = 0\<rparr>"

lemma demo_user_simps [simp]:
  "us_secret demo_user = replicate 32 1" "us_hash demo_user = 7" "us_dedup demo_user = PacketDedup_new 128" "us_pkt_count demo_user = 0"
  by (simp_all add: demo_user_def)

lemma demo_user_ok: "user_ok (demo_platform n m) demo_user w"
  using PacketDedup_new_ok [of 128]
  by (simp add: user_ok_def demo_user_def VolatileRtcClock_new_def) (simp add: PacketDedup_new_def)

text \<open>A group text on the channel as it is received.\<close>

definition demo_rx :: "string \<Rightarrow> RxPacket" where
  "demo_rx s = \<lparr>rx_packet = grp_packet demo_crypto (replicate 32 1) 7 5 (bytes_of s), rx_rssi = f32_zero, rx_snr = f32_zero\<rparr>"

lemma demo_rx_wf: "length s \<le> 171 \<Longrightarrow> rx_wf (demo_rx s)"
  by (simp add: rx_wf_def demo_rx_def wf_grp_packet demo_crypto_ok)

lemma demo_hash:
  "packet_hash (sha256 demo_crypto) (grp_packet demo_crypto (replicate 32 1) h ts msg) =
    of_nat (4 + padded_len (5 + length msg)) # replicate 7 0"
proof -
  have "length (sealed demo_crypto (replicate 32 1) (grp_plaintext ts msg)) = 2 + padded_len (5 + length msg)"
    using length_sealed [OF demo_crypto_ok, of "replicate 32 1" "grp_plaintext ts msg"] by (simp add: grp_plaintext_def)
  then show ?thesis
    by (simp add: packet_hash_def grp_packet_def demo_crypto_def MAX_HASH_SIZE_def Let_def take_Cons' min_def)
qed

lemma grp_packet_type: "payload_type (grp_packet c secret h ts msg) = Inr GrpTxt"
  unfolding grp_packet_def by (simp add: payload_type_def parsed_header_def) code_simp

lemma demo_fresh:
  assumes "(of_nat (4 + padded_len (5 + length msg)) :: u8) \<noteq> 0"
  shows "packet_hash (sha256 demo_crypto) (grp_packet demo_crypto (replicate 32 1) h ts msg) \<notin> set (hashes (us_dedup demo_user))"
proof -
  have "set (hashes (us_dedup demo_user)) = {ZERO_HASH}" by (simp add: PacketDedup_new_def)
  moreover have "hd ZERO_HASH = 0" by (simp add: ZERO_HASH_def MAX_HASH_SIZE_def hd_replicate)
  ultimately show ?thesis using assms unfolding demo_hash by (metis list.sel(1) singletonD)
qed

lemma demo_answer:
  assumes "utf8_valid (bytes_of s)" "bytes_of s = [] \<or> last (bytes_of s) \<noteq> 0"
  shows "answer demo_crypto demo_user up (rx_packet (demo_rx s)) = reply_text up 1 (rx_packet (demo_rx s)) (message_body (bytes_of s))"
proof -
  let ?p = "grp_packet demo_crypto (replicate 32 1) 7 5 (bytes_of s)"
  have "open_grp_txt demo_crypto (replicate 32 1) (payload ?p) = Some \<lparr>timestamp = 5, tx_type = 0, message = bytes_of s\<rparr>"
    by (rule open_grp_packet [OF demo_crypto_ok _ assms]) simp
  moreover have "matches_channel (payload ?p) 7" by (simp add: matches_channel_def grp_packet_def)
  ultimately show ?thesis by (simp add: answer_def demo_rx_def grp_packet_type)
qed


lemma demo_ping: "answer demo_crypto demo_user up (rx_packet (demo_rx ''abcd: !ping'')) = Some (bytes_of ''rak4631: pong'')"
proof -
  have "answer demo_crypto demo_user up (rx_packet (demo_rx ''abcd: !ping'')) =
      reply_text up 1 (rx_packet (demo_rx ''abcd: !ping'')) (message_body (bytes_of ''abcd: !ping''))"
    by (rule demo_answer) code_simp+
  moreover have "message_body (bytes_of ''abcd: !ping'') = bytes_of ''!ping''" by code_simp
  moreover have "starts_with (bytes_of ''!ping'') (bytes_of ''!ping'')" "\<not> starts_with (bytes_of ''!ping'') (bytes_of ''!help'')"
    by code_simp+
  ultimately show ?thesis by (simp add: reply_text_def NODE_NAME_def flip: bytes_of_append)
qed

lemma demo_ping_fresh: "packet_hash (sha256 demo_crypto) (rx_packet (demo_rx ''abcd: !ping'')) \<notin> set (hashes (us_dedup demo_user))"
  unfolding demo_rx_def RxPacket.select_convs by (rule demo_fresh) code_simp

lemma responder_step_witness:
  "\<exists>u' ts w'. user_step (demo_platform 4 4) demo_crypto (demo_user, (0, 0)) (demo_rx ''abcd: !ping'') =
    Some (u', Some (reply_request demo_crypto demo_user ts (bytes_of ''rak4631: pong'')), w')"
proof -
  have "rx_wf (demo_rx ''abcd: !ping'')" by (rule demo_rx_wf) simp
  from responder_step [OF demo_platform_ok demo_crypto_ok demo_user_ok this, of 4 4 "(0, 0)"] demo_ping demo_ping_fresh
  show ?thesis by fastforce
qed

lemma own_echo_ignored_witness:
  "\<exists>u1 req w1 u3. user_step (demo_platform 4 4) demo_crypto (demo_user, (0, 0)) (demo_rx ''abcd: !ping'') = Some (u1, Some req, w1) \<and>
    user_step (demo_platform 4 4) demo_crypto (u1, w1) \<lparr>rx_packet = req_packet req, rx_rssi = f32_zero, rx_snr = f32_zero\<rparr> = Some (u3, None, w1)"
proof -
  let ?rx = "demo_rx ''abcd: !ping''" and ?pf = "demo_platform 4 4"
  have wf: "rx_wf ?rx" by (rule demo_rx_wf) simp
  from user_step_cases [OF demo_platform_ok demo_crypto_ok demo_user_ok wf, of 4 4 "(0, 0)"] demo_ping demo_ping_fresh
  obtain u1 ts w1 where s: "user_step ?pf demo_crypto (demo_user, (0, 0)) ?rx =
      Some (u1, Some (reply_request demo_crypto demo_user ts (bytes_of ''rak4631: pong'')), w1)" (is "_ = Some (_, Some ?req, _)")
    by fastforce
  have q: "req_packet ?req = grp_packet demo_crypto (replicate 32 1) 7 ts (bytes_of ''rak4631: pong'')"
    by (simp add: reply_request_def)
  have "of_nat (4 + padded_len (5 + length (bytes_of ''rak4631: pong''))) \<noteq> (0 :: u8)"
    "of_nat (4 + padded_len (5 + length (bytes_of ''rak4631: pong''))) \<noteq> (of_nat (4 + padded_len (5 + length (bytes_of ''abcd: !ping''))) :: u8)"
    by code_simp+
  then have n: "packet_hash (sha256 demo_crypto) (req_packet ?req) \<notin>
      insert (packet_hash (sha256 demo_crypto) (rx_packet ?rx)) (set (hashes (us_dedup demo_user)))"
    using demo_fresh [of "bytes_of ''rak4631: pong''" 7 ts] unfolding q demo_rx_def RxPacket.select_convs demo_hash
    by (metis insertE list.inject)
  from own_echo_ignored [OF demo_platform_ok demo_crypto_ok demo_user_ok wf s n, of "[]" u1 "[]" w1
      "\<lparr>rx_packet = req_packet ?req, rx_rssi = f32_zero, rx_snr = f32_zero\<rparr>"]
  obtain u3 where "user_step ?pf demo_crypto (u1, w1) \<lparr>rx_packet = req_packet ?req, rx_rssi = f32_zero, rx_snr = f32_zero\<rparr> = Some (u3, None, w1)"
    by auto
  with s show ?thesis by blast
qed

lemma help_answers_help_witness:
  "\<exists>u' ts' w'. user_step (demo_platform 4 4) demo_crypto (demo_user, (0, 0)) (demo_rx ''rak4631: !help !ping !status !path'') =
    Some (u', Some \<lparr>req_packet = grp_packet demo_crypto (replicate 32 1) 7 ts' (bytes_of ''rak4631: !help !ping !status !path''),
      req_priority = 0, delay_ms = 0\<rparr>, w')"
proof -
  have "of_nat (4 + padded_len (5 + length (bytes_of ''rak4631: !help !ping !status !path''))) \<noteq> (0 :: u8)" by code_simp
  from help_answers_help [OF demo_platform_ok demo_crypto_ok demo_user_ok refl refl,
      where ts = 5 and w = "(0, 0)" and rssi = f32_zero and s = f32_zero]
    demo_fresh [OF this, of 7 5]
  show ?thesis by (simp add: demo_rx_def)
qed

section \<open>Start-up returns\<close>

lemma derive_channel_key_eq:
  assumes "crypto_ok c"
  shows "derive_channel_key c name =
    (let key = take 16 (sha256 c name) in Some (key @ replicate 16 0, hd (sha256 c key)))"
proof -
  have l: "length (sha256 c m) = 32" for m using assms by (simp add: crypto_ok_def)
  have "take 16 (sha256 c name) @ replicate 16 0 \<noteq> []" "sha256 c (take 16 (sha256 c name)) \<noteq> []"
    using l [of "take 16 (sha256 c name)"] by auto
  then show ?thesis
    by (simp add: derive_channel_key_def slice_def copy_at_def l Let_def idx_def hd_conv_nth)
qed

lemma user_boot_total:
  assumes pf: "platform_ok pf" and c: "crypto_ok c" and b: "base_instant rtc \<le> ck_time (pf_clock pf) w"
  shows "\<exists>u req w' ts. user_boot pf c BUILD_EPOCH rtc w = Some (u, Some req, w') \<and> user_ok pf u w' \<and>
    ck_time (pf_clock pf) w \<le> ck_time (pf_clock pf) w' \<and> us_pkt_count u = 0 \<and>
    us_secret u = take 16 (sha256 c (bytes_of ''#meshcore-rs'')) @ replicate 16 0 \<and>
    us_hash u = hd (sha256 c (take 16 (sha256 c (bytes_of ''#meshcore-rs'')))) \<and>
    w' = reads (pf_clock pf) 3 (ck_after (pf_clock pf) (dur_from_millis (pf_time pf) 500) w) \<and>
    req = \<lparr>req_packet = grp_packet c (us_secret u) (us_hash u) ts (NODE_NAME @ bytes_of '': online''), req_priority = 0, delay_ms = 0\<rparr>"
proof -
  let ?ck = "pf_clock pf" and ?w0 = "ck_after (pf_clock pf) (dur_from_millis (pf_time pf) 500) w"
  have t0: "ck_time ?ck w \<le> ck_time ?ck ?w0"
    using clock_ok_after [OF platform_okD(7) [OF pf], of w] saturating_add_ge by (meson order.trans)
  obtain e w1 where r1: "read_rtc pf rtc ?w0 = Some (e, w1)" and t1: "ck_time ?ck ?w0 \<le> ck_time ?ck w1" and k1: "w1 = reads ?ck 1 ?w0"
    using read_rtc_eq [OF pf order.trans [OF b t0]] by blast
  obtain ts w2 where r2: "read_rtc pf rtc w1 = Some (ts, w2)" and t2: "ck_time ?ck w1 \<le> ck_time ?ck w2" and k2: "w2 = reads ?ck 1 w1"
    using read_rtc_eq [OF pf order.trans [OF b order.trans [OF t0 t1]]] by blast
  obtain bt w3 where n: "ck_now ?ck w2 = (bt, w3)" by fastforce
  note t3 = clock_okD [OF platform_okD(7) [OF pf] n]
  define key where "key = take 16 (sha256 c (bytes_of ''#meshcore-rs''))"
  have l: "length (key @ replicate 16 0) = 32" using c by (simp add: key_def crypto_ok_def)
  let ?h = "hd (sha256 c key)" and ?msg = "NODE_NAME @ bytes_of '': online''"
  let ?p = "grp_packet c (key @ replicate 16 0) ?h ts ?msg"
  have m: "take 128 (NODE_NAME @ [0x3A, 0x20] @ bytes_of ''online'') = ?msg"
    by (simp add: NODE_NAME_def bytes_of_def)
  have "length ?msg \<le> 171" by (simp add: NODE_NAME_def)
  then have enc: "encode_grp_txt (pf_bytes pf) c (key @ replicate 16 0) ?h ts ?msg = Some (Some ?p)"
    using encode_grp_txt_eq [OF platform_okD(1) [OF pf] c l] by simp
  have ring: "ring_ok (PacketDedup_new 128)" by (simp add: PacketDedup_new_ok)
  obtain seen d where h: "has_seen (sha256 c) (PacketDedup_new 128) ?p = Some (seen, d)"
    using has_seen_iff [OF ring] by blast
  have d: "ring_ok d" "length (hashes d) = 128"
    using has_seen_keeps [OF ring h] by (simp_all add: PacketDedup_new_def)
  have k: "derive_channel_key c (bytes_of ''#meshcore-rs'') = Some (key @ replicate 16 0, ?h)"
    unfolding derive_channel_key_eq [OF c] Let_def key_def ..
  have "\<exists>cdc. user_boot pf c BUILD_EPOCH rtc w = Some (\<lparr>us_cdc = cdc, us_rtc = rtc, us_secret = key @ replicate 16 0, us_hash = ?h,
      us_dedup = d, us_boot_time = bt, us_pkt_count = 0\<rparr>, Some \<lparr>req_packet = ?p, req_priority = 0, delay_ms = 0\<rparr>, w3)"
    using m by (simp add: user_boot_def Let_def r1 k r2 fmtbuf enc h n)
  moreover have "ck_time ?ck w \<le> ck_time ?ck w3" "bt \<le> ck_time ?ck w3" "base_instant rtc \<le> ck_time ?ck w3"
    using t0 t1 t2 t3 b by auto
  moreover have "w3 = reads ?ck 3 ?w0" using n by (simp add: k1 k2 numeral_3_eq_3)
  ultimately show ?thesis
    using d l by (fastforce simp: user_ok_def key_def)
qed

end
