(* ===== verification/Progress.thy ===== *)
theory Progress
  imports Dispatcher
begin

text \<open>
  The dispatcher never panics: as long as the 64-bit tick count leaves room for one more delay, the requests handed to it are well-formed packets
  and the radio driver keeps its contract, every iteration of the loop and every branch of its \<open>select\<close> returns. And what it does when the budget
  is exhausted: it spins.
\<close>

section \<open>Time left\<close>

text \<open>
  The additions of the loop overflow only when the 64-bit tick count is about to end. \<open>time_left pf k w\<close>: the next \<open>k\<close> readings of the clock
  leave room for the longest delay a request or the configuration can name.
\<close>

definition time_left :: "('r, 'g, 'w) platform \<Rightarrow> nat \<Rightarrow> 'w \<Rightarrow> bool" where
  "time_left pf k w \<longleftrightarrow> (\<forall>n \<le> k. unat (ck_time (pf_clock pf) (reads (pf_clock pf) n w)) +
     unat (dur_from_millis (pf_time pf) (ucast (- 1 :: u32))) < 2 ^ 64)"

lemma time_left_mono: "time_left pf k w \<Longrightarrow> n \<le> k \<Longrightarrow> time_left pf n w"
  by (simp add: time_left_def)

lemma time_left_now:
  assumes "platform_ok pf" "time_left pf (Suc k) w" "ck_now (pf_clock pf) w = (now, w1)"
  shows "time_left pf k w1"
    and "unat now + unat (dur_from_millis (pf_time pf) (ucast (ms :: u32))) < 2 ^ 64"
    and "ck_time (pf_clock pf) w \<le> ck_time (pf_clock pf) w1" and "now = ck_time (pf_clock pf) w1"
proof -
  note t = clock_okD [OF platform_okD(7) [OF assms(1)] assms(3)]
  show "time_left pf k w1"
    unfolding time_left_def
  proof (intro allI impI)
    fix n assume "n \<le> k"
    then show "unat (ck_time (pf_clock pf) (reads (pf_clock pf) n w1)) +
        unat (dur_from_millis (pf_time pf) (ucast (- 1 :: u32))) < 2 ^ 64"
      using assms(2)[unfolded time_left_def, rule_format, of "Suc n"] assms(3) by simp
  qed
  from t show "ck_time (pf_clock pf) w \<le> ck_time (pf_clock pf) w1" "now = ck_time (pf_clock pf) w1" by simp_all
  have "dur_from_millis (pf_time pf) (ucast ms) \<le> dur_from_millis (pf_time pf) (ucast (- 1 :: u32))"
    by (rule time_okD(7) [OF platform_okD(6) [OF assms(1)]]) simp
  moreover have "unat now + unat (dur_from_millis (pf_time pf) (ucast (- 1 :: u32))) < 2 ^ 64"
    using assms(2)[unfolded time_left_def, rule_format, of 1] assms(3) t by simp
  ultimately show "unat now + unat (dur_from_millis (pf_time pf) (ucast ms)) < 2 ^ 64"
    by (simp add: word_le_nat_alt)
qed

section \<open>The clock never runs back\<close>

lemma cad_loop_clock:
  assumes "clock_ok (pf_clock pf)" "cad_loop pf config deadline r g w = Some (clear, r', g', w')"
  shows "ck_time (pf_clock pf) w \<le> ck_time (pf_clock pf) w'"
proof -
  have "\<forall>clear r' g' w'. y = (clear, r', g', w') \<longrightarrow> clock_ok (pf_clock pf) \<longrightarrow> ck_time (pf_clock pf) w \<le> ck_time (pf_clock pf) w'"
    if "cad_loop pf config deadline r g w = Some y" for y
    using that
  proof (induction rule: cad_loop.raw_induct [rotated 1, consumes 1])
    case (1 f pf config deadline r g w y)
    obtain res r1 where ca: "rd_channel_active (pf_radio pf) r = (res, r1)" by fastforce
    obtain now w1 where n: "ck_now (pf_clock pf) w = (now, w1)" by fastforce
    obtain delay g1 where dl: "next_u32 (pf_random pf) g (cad_retry_min_ms config) (cad_retry_max_ms config) = (delay, g1)"
      by fastforce
    let ?w2 = "ck_after (pf_clock pf) (dur_from_millis (pf_time pf) (ucast delay)) w1"
    have t: "ck_time (pf_clock pf) w \<le> ck_time (pf_clock pf) w1" "ck_time (pf_clock pf) w \<le> ck_time (pf_clock pf) ?w2"
      if "clock_ok (pf_clock pf)"
    proof -
      show "ck_time (pf_clock pf) w \<le> ck_time (pf_clock pf) w1" using clock_okD [OF that n] by simp
      then show "ck_time (pf_clock pf) w \<le> ck_time (pf_clock pf) ?w2"
        using clock_ok_after [OF that, of w1] saturating_add_ge by (meson order.trans)
    qed
    show ?case
      using "1"(2) t "1"(1) [of pf config deadline r1 g1 ?w2 y]
      by (auto simp: ca n dl split: sum.splits if_splits)
  qed
  with assms show ?thesis by blast
qed

lemma wait_for_clear_channel_clock:
  assumes "clock_ok (pf_clock pf)" "wait_for_clear_channel pf d w = Some (clear, d', w')"
  shows "ck_time (pf_clock pf) w \<le> ck_time (pf_clock pf) w' \<and> dp_duty_cycle d' = dp_duty_cycle d \<and> dp_tx_queue d' = dp_tx_queue d \<and>
    dp_config d' = dp_config d"
proof -
  obtain now w1 where n: "ck_now (pf_clock pf) w = (now, w1)" by fastforce
  with assms(2) obtain deadline r g where c: "cad_loop pf (dp_config d) deadline (dp_radio d) (dp_rng d) w1 = Some (clear, r, g, w')"
    and d': "d' = d\<lparr>dp_radio := r, dp_rng := g\<rparr>"
    by (auto simp: wait_for_clear_channel_def bind_eq_Some_conv)
  have "ck_time (pf_clock pf) w \<le> ck_time (pf_clock pf) w1" using clock_okD [OF assms(1) n] by simp
  with cad_loop_clock [OF assms(1) c] show ?thesis by (simp add: d')
qed

lemma transmit_entry_clock:
  assumes "clock_ok (pf_clock pf)" "transmit_entry pf e (d, buf, w) = Some (d', buf', w')"
  shows "ck_time (pf_clock pf) w \<le> ck_time (pf_clock pf) w' \<and> last_refill (dp_duty_cycle d') = last_refill (dp_duty_cycle d) \<and>
    dp_tx_queue d' = dp_tx_queue d \<and> dp_config d' = dp_config d"
proof -
  obtain clear d1 w1 where wfc: "wait_for_clear_channel pf d w = Some (clear, d1, w1)"
    using assms(2) by (fastforce simp: transmit_entry_def bind_eq_Some_conv)
  note c = wait_for_clear_channel_clock [OF assms(1) wfc]
  obtain t1 w2 where n1: "ck_now (pf_clock pf) w1 = (t1, w2)" by fastforce
  obtain t2 w3 where n2: "ck_now (pf_clock pf) w2 = (t2, w3)" by fastforce
  have "ck_time (pf_clock pf) w1 \<le> ck_time (pf_clock pf) w3"
    using clock_okD [OF assms(1) n1] clock_okD [OF assms(1) n2] by simp
  moreover have "w' = w3 \<and> last_refill (dp_duty_cycle d') = last_refill (dp_duty_cycle d1) \<and> dp_tx_queue d' = dp_tx_queue d1 \<and>
      dp_config d' = dp_config d1"
  proof -
    from assms(2) wfc obtain n buf1 where wt: "write_to (te_packet e) buf = Some (n, buf1)"
      by (fastforce simp: transmit_entry_def bind_eq_Some_conv)
    with assms(2) wfc obtain data where sl: "slice buf1 0 n = Some data"
      by (cases "slice buf1 0 n") (simp_all add: transmit_entry_def case_prod_beta Let_def)
    from assms(2) wfc wt sl n1 n2 obtain el where "inst_sub (pf_time pf) t2 t1 = Some el"
      by (cases "inst_sub (pf_time pf) t2 t1") (simp_all add: transmit_entry_def case_prod_beta Let_def)
    with assms(2) wfc wt sl n1 n2 show ?thesis
      by (cases "fst (rd_send (pf_radio pf) data (dp_radio d1))") (auto simp: transmit_entry_def case_prod_beta deduct_def Let_def)
  qed
  ultimately show ?thesis using c by (metis order.trans)
qed

lemma refill_last: "refill tm dc now = Some dc' \<Longrightarrow> last_refill dc' = now"
  by (auto simp: refill_def bind_eq_Some_conv Let_def)

lemma set_swap_remove: "i < length xs \<Longrightarrow> set (butlast (xs[i := last xs])) \<subseteq> set xs"
  using mset_swap_remove [of i xs] by (metis diff_subset_eq_self set_mset_mset set_mset_mono)

lemma tx_pop_subset:
  assumes hv: "heapless_ok hv" and pop: "tx_pop_ready hv now q = Some (r, q')"
  shows "set (tx_entries q') \<subseteq> set (tx_entries q) \<and> (\<forall>e. r = Some e \<longrightarrow> e \<in> set (tx_entries q))"
proof -
  from pop obtain best where b: "tx_scan now (tx_entries q) 0 (tx_entries q) None = Some best"
    by (auto simp: tx_pop_ready_def bind_eq_Some_conv)
  show ?thesis
  proof (cases best)
    case None
    with pop b show ?thesis by (simp add: tx_pop_ready_def)
  next
    case (Some i)
    with pop b hv have "i < length (tx_entries q)" "r = Some (tx_entries q ! i)"
      "q' = q\<lparr>tx_entries := butlast ((tx_entries q)[i := last (tx_entries q)])\<rparr>"
      by (auto simp: tx_pop_ready_def split: if_splits)
    with set_swap_remove [of i "tx_entries q"] show ?thesis by simp
  qed
qed

lemma maybe_transmit_clock:
  assumes pf: "platform_ok pf" and mt: "maybe_transmit pf (d, buf, w) = Some (d', buf', w')"
  shows "ck_time (pf_clock pf) w \<le> ck_time (pf_clock pf) w' \<and> last_refill (dp_duty_cycle d') \<le> ck_time (pf_clock pf) w' \<and>
    set (tx_entries (dp_tx_queue d')) \<subseteq> set (tx_entries (dp_tx_queue d)) \<and> dp_config d' = dp_config d"
proof -
  note ck = platform_okD(7) [OF pf]
  obtain now w1 where n: "ck_now (pf_clock pf) w = (now, w1)" by fastforce
  note t = clock_okD [OF ck n]
  from mt n obtain dc ready q where rf: "refill (pf_time pf) (dp_duty_cycle d) now = Some dc"
    and pop: "tx_pop_ready (pf_tx pf) now (dp_tx_queue d) = Some (ready, q)"
    by (auto simp: maybe_transmit_def bind_eq_Some_conv)
  let ?d1 = "d\<lparr>dp_duty_cycle := dc, dp_tx_queue := q\<rparr>"
  note sub = tx_pop_subset [OF platform_okD(2) [OF pf] pop] and lr = refill_last [OF rf]
  show ?thesis
  proof (cases ready)
    case None
    with mt n rf pop t sub lr show ?thesis by (auto simp: maybe_transmit_def)
  next
    case (Some e)
    show ?thesis
    proof (cases "can_transmit dc (rd_estimate_airtime_ms (pf_radio pf) (dp_radio d) (wire_len (te_packet e)))")
      case True
      with mt n rf pop Some have te: "transmit_entry pf e (?d1, buf, w1) = Some (d', buf', w')"
        by (simp add: maybe_transmit_def)
      from transmit_entry_clock [OF ck te] t sub lr show ?thesis by auto
    next
      case False
      with mt n rf pop Some have "d' = ?d1\<lparr>dp_tx_queue := snd (tx_push_entry (pf_tx pf) (pf_TX_Q pf) q e)\<rparr>" "w' = w1"
        by (auto simp: maybe_transmit_def)
      then show ?thesis using sub Some lr t platform_okD(2) [OF pf] by (auto simp: tx_push_entry_def)
    qed
  qed
qed

section \<open>Every step returns\<close>

text \<open>What the requests and the queued entries must be, and the refill instant in the past.\<close>

definition live :: "('r, 'g, 'w) platform \<Rightarrow> ('r, 'g, 'w) system \<Rightarrow> bool" where
  "live pf s \<longleftrightarrow> last_refill (dp_duty_cycle (sy_dp s)) \<le> ck_time (pf_clock pf) (sy_clock s) \<and>
     (\<forall>e \<in> set (tx_entries (dp_tx_queue (sy_dp s))). wf_packet (te_packet e)) \<and>
     (\<forall>req \<in> set (sy_tx_in s). wf_packet (req_packet req)) \<and>
     0 < dur_from_millis (pf_time pf) (ucast (cad_retry_min_ms (dp_config (sy_dp s))))"

lemma wf_sendable: "wf_packet (te_packet e) \<Longrightarrow> sendable MAX_TRANS_UNIT e"
  using wf_wire_len_le [of "te_packet e"] by (simp add: sendable_def MAX_TRANS_UNIT_def wf_path_complete)

lemma tx_push_total:
  assumes "platform_ok pf" "time_left pf (Suc k) w" "ck_now (pf_clock pf) w = (now, w1)"
  shows "\<exists>r q'. tx_push (pf_tx pf) (pf_time pf) (pf_TX_Q pf) now q req = Some (r, q') \<and>
    te_packet ` set (tx_entries q') \<subseteq> insert (req_packet req) (te_packet ` set (tx_entries q))"
  using time_left_now(2) [OF assms, of "delay_ms req"]
  by (auto simp: tx_push_def time_okD(1) [OF platform_okD(6) [OF assms(1)]] heapless_okD [OF platform_okD(2) [OF assms(1)]] tx_is_full_def
      Let_def)

lemma drain_submissions_total:
  assumes "platform_ok pf" "length tx_in < fuel" "time_left pf (length tx_in + k) w"
  shows "\<exists>q' w'. drain_submissions fuel pf (tx_in, q, w) = Some ([], q', w') \<and> time_left pf k w' \<and>
    ck_time (pf_clock pf) w \<le> ck_time (pf_clock pf) w' \<and>
    te_packet ` set (tx_entries q') \<subseteq> req_packet ` set tx_in \<union> te_packet ` set (tx_entries q)"
  using assms(2,3)
proof (induction fuel arbitrary: tx_in q w)
  case (Suc fuel)
  have ch: "ch_try_receive (pf_tx_in pf) xs = (case xs of [] \<Rightarrow> None | x # ys \<Rightarrow> Some (x, ys))" for xs
    using platform_okD(4) [OF assms(1)] by simp
  show ?case
  proof (cases tx_in)
    case Nil
    with Suc.prems show ?thesis by (simp add: ch)
  next
    case (Cons req rest)
    obtain now w1 where n: "ck_now (pf_clock pf) w = (now, w1)" by fastforce
    have tl: "time_left pf (Suc (length rest + k)) w" using Suc.prems(2) Cons by simp
    obtain r q1 where p: "tx_push (pf_tx pf) (pf_time pf) (pf_TX_Q pf) now q req = Some (r, q1)"
      and s1: "te_packet ` set (tx_entries q1) \<subseteq> insert (req_packet req) (te_packet ` set (tx_entries q))"
      using tx_push_total [OF assms(1) tl n] by blast
    from Suc.IH [OF _ time_left_now(1) [OF assms(1) tl n]] Suc.prems(1) Cons obtain q2 w2 where
      d: "drain_submissions fuel pf (rest, q1, w1) = Some ([], q2, w2)" "time_left pf k w2"
        "ck_time (pf_clock pf) w1 \<le> ck_time (pf_clock pf) w2"
      and s2: "te_packet ` set (tx_entries q2) \<subseteq> req_packet ` set rest \<union> te_packet ` set (tx_entries q1)"
      by (metis Suc_less_eq length_Cons)
    have "ck_time (pf_clock pf) w \<le> ck_time (pf_clock pf) w2"
      using time_left_now(3) [OF assms(1) tl n] d(3) by (rule order.trans)
    moreover have "drain_submissions (Suc fuel) pf (tx_in, q, w) = Some ([], q2, w2)"
      using Cons p d(1) n by (simp add: ch)
    moreover have "te_packet ` set (tx_entries q2) \<subseteq> req_packet ` set tx_in \<union> te_packet ` set (tx_entries q)"
      using s1 s2 unfolding Cons by (simp, blast)
    ultimately show ?thesis using d(2) by blast
  qed
qed simp

lemma deliver_ready_total:
  assumes "platform_ok pf" "length (rx_entries q) < fuel"
  shows "\<exists>q' out'. deliver_ready fuel pf now (q, out) = Some (q', out')"
  using assms(2)
proof (induction fuel arbitrary: q out)
  case (Suc fuel)
  show ?case
  proof (cases "\<exists>e \<in> set (rx_entries q). rx_ready now e")
    case True
    then obtain e where "e \<in> set (rx_entries q)" "rx_ready now e" by blast
    from rx_pop_some [OF platform_okD(3,6) [OF assms(1)] this] obtain b q1 where
      p: "rx_pop_ready (pf_rx pf) (pf_time pf) now q = Some (Some (rde_packet b), q1)" "b \<in> set (rx_entries q)"
      and "mset (rx_entries q1) = mset (rx_entries q) - {#b#}" by blast
    then have "size (mset (rx_entries q1)) < size (mset (rx_entries q))"
      by (metis size_Diff1_less set_mset_mset)
    then have "length (rx_entries q1) < fuel" using Suc.prems by simp
    from Suc.IH [OF this] p show ?thesis by simp
  next
    case False
    then show ?thesis using rx_pop_none [OF platform_okD(3,6) [OF assms(1)], of q now] by simp
  qed
qed simp

lemma maybe_transmit_total:
  assumes pf: "platform_ok pf" and rnd: "random_source (pf_random pf)"
    and "length (tx_entries (dp_tx_queue d)) \<le> pf_TX_Q pf" "length buf = MAX_TRANS_UNIT"
    and "\<forall>e \<in> set (tx_entries (dp_tx_queue d)). wf_packet (te_packet e)"
    and "last_refill (dp_duty_cycle d) \<le> ck_time (pf_clock pf) w" "time_left pf 2 w"
    and "0 < dur_from_millis (pf_time pf) (ucast (cad_retry_min_ms (dp_config d)))"
  shows "\<exists>r. maybe_transmit pf (d, buf, w) = Some r"
proof -
  obtain now w1 where n: "ck_now (pf_clock pf) w = (now, w1)" by fastforce
  obtain t2 w2 where n2: "ck_now (pf_clock pf) w1 = (t2, w2)" by fastforce
  have tl: "time_left pf (Suc (Suc 0)) w" using assms(7) by (simp add: numeral_2_eq_2)
  have "cad_ok pf (dp_config d) w1"
    unfolding cad_ok_def using rnd assms(8) time_left_now(2) [OF pf time_left_now(1) [OF pf tl n] n2] n2 by simp
  moreover have "last_refill (dp_duty_cycle d) \<le> now"
    using assms(6) clock_okD(2) [OF platform_okD(7) [OF pf] n] by simp
  moreover have "\<forall>e \<in> set (tx_entries (dp_tx_queue d)). sendable (length buf) e"
    using assms(4,5) wf_sendable by simp
  ultimately show ?thesis using maybe_transmit_cases [OF pf assms(3) n] by blast
qed

section \<open>Liveness conditions are kept\<close>

lemma tx_pushD:
  assumes "heapless_ok hv" "tx_push hv tm N now q req = Some (r, q')"
  shows "te_packet ` set (tx_entries q') \<subseteq> insert (req_packet req) (te_packet ` set (tx_entries q))"
  using assms by (auto simp: tx_push_def bind_eq_Some_conv Let_def split: if_splits)

lemma drain_submissionsD:
  assumes "platform_ok pf" "drain_submissions n pf (tx_in, q, w) = Some (tx_in', q', w')"
  shows "set tx_in' \<subseteq> set tx_in \<and> ck_time (pf_clock pf) w \<le> ck_time (pf_clock pf) w' \<and>
    te_packet ` set (tx_entries q') \<subseteq> req_packet ` set tx_in \<union> te_packet ` set (tx_entries q)"
  using assms(2)
proof (induction n arbitrary: tx_in q w)
  case (Suc n)
  have ch: "ch_try_receive (pf_tx_in pf) xs = (case xs of [] \<Rightarrow> None | x # ys \<Rightarrow> Some (x, ys))" for xs
    using platform_okD(4) [OF assms(1)] by simp
  show ?case
  proof (cases tx_in)
    case Nil
    with Suc.prems show ?thesis by (simp add: ch)
  next
    case (Cons req rest)
    obtain now w1 where n: "ck_now (pf_clock pf) w = (now, w1)" by fastforce
    with Suc.prems(1) Cons obtain r q1 where p: "tx_push (pf_tx pf) (pf_time pf) (pf_TX_Q pf) now q req = Some (r, q1)"
      and d: "drain_submissions n pf (rest, q1, w1) = Some (tx_in', q', w')"
      by (auto simp: ch bind_eq_Some_conv)
    have "ck_time (pf_clock pf) w \<le> ck_time (pf_clock pf) w1" using clock_okD [OF platform_okD(7) [OF assms(1)] n] by simp
    with Suc.IH [OF d] tx_pushD [OF platform_okD(2) [OF assms(1)] p] show ?thesis
      unfolding Cons by simp (blast intro: order.trans)
  qed
qed simp

lemma loop_topE:
  assumes "loop_top pf s = Some t"
  obtains tx_in q w now w1 dq out d buf w2 where
    "drain_submissions (length (sy_tx_in s) + 1) pf (sy_tx_in s, dp_tx_queue (sy_dp s), sy_clock s) = Some (tx_in, q, w)"
    "ck_now (pf_clock pf) w = (now, w1)"
    "deliver_ready (rx_len (dp_rx_delay_queue (sy_dp s)) + 1) pf now (dp_rx_delay_queue (sy_dp s), sy_rx_out s) = Some (dq, out)"
    "maybe_transmit pf ((sy_dp s)\<lparr>dp_tx_queue := q, dp_rx_delay_queue := dq\<rparr>, sy_buf s, w1) = Some (d, buf, w2)"
    "t = s\<lparr>sy_dp := d, sy_tx_in := tx_in, sy_rx_out := out, sy_buf := buf, sy_clock := w2, sy_phase := Waiting (next_wake_time d)\<rparr>"
proof -
  from assms obtain tx_in q w where ds: "drain_submissions (length (sy_tx_in s) + 1) pf (sy_tx_in s, dp_tx_queue (sy_dp s), sy_clock s) = Some (tx_in, q, w)"
    by (auto simp: loop_top_def bind_eq_Some_conv Let_def simp del: drain_submissions.simps deliver_ready.simps)
  obtain now w1 where n: "ck_now (pf_clock pf) w = (now, w1)" by fastforce
  from assms ds n obtain dq out where dr: "deliver_ready (rx_len (dp_rx_delay_queue (sy_dp s)) + 1) pf now
      (dp_rx_delay_queue (sy_dp s), sy_rx_out s) = Some (dq, out)"
    by (auto simp: loop_top_def bind_eq_Some_conv Let_def simp del: drain_submissions.simps deliver_ready.simps)
  from assms ds n dr show ?thesis
    by (auto intro: that simp: loop_top_def bind_eq_Some_conv Let_def simp del: drain_submissions.simps deliver_ready.simps)
qed

lemma loop_top_live:
  assumes pf: "platform_ok pf" and s: "live pf s" and t: "loop_top pf s = Some t"
  shows "live pf t \<and> ck_time (pf_clock pf) (sy_clock s) \<le> ck_time (pf_clock pf) (sy_clock t)"
  using t
proof (rule loop_topE)
  fix tx_in q w now w1 dq out d buf w2
  let ?d1 = "(sy_dp s)\<lparr>dp_tx_queue := q, dp_rx_delay_queue := dq\<rparr>"
  assume ds: "drain_submissions (length (sy_tx_in s) + 1) pf (sy_tx_in s, dp_tx_queue (sy_dp s), sy_clock s) = Some (tx_in, q, w)"
    and n: "ck_now (pf_clock pf) w = (now, w1)"
    and mt: "maybe_transmit pf (?d1, sy_buf s, w1) = Some (d, buf, w2)"
    and t: "t = s\<lparr>sy_dp := d, sy_tx_in := tx_in, sy_rx_out := out, sy_buf := buf, sy_clock := w2, sy_phase := Waiting (next_wake_time d)\<rparr>"
  note di = drain_submissionsD [OF pf ds] and mc = maybe_transmit_clock [OF pf mt]
  have "\<forall>e \<in> set (tx_entries q). wf_packet (te_packet e)" using di s by (fastforce simp: live_def)
  then show ?thesis using mc di s clock_okD [OF platform_okD(7) [OF pf] n] by (auto simp: t live_def)
qed

lemma handle_rxD:
  assumes pf: "platform_ok pf" and len: "\<forall>rr. result = Inr rr \<longrightarrow> rr_len rr \<le> length buf"
    and h: "handle_rx pf result buf (d, out, w) = Some (d', out', w')"
  shows "dp_tx_queue d' = dp_tx_queue d \<and> dp_duty_cycle d' = dp_duty_cycle d \<and> dp_config d' = dp_config d \<and>
    ck_time (pf_clock pf) w \<le> ck_time (pf_clock pf) w'"
proof (cases result)
  case (Inl e)
  with h show ?thesis by (simp add: handle_rx_def)
next
  case (Inr rr)
  with len have l: "rr_len rr \<le> length buf" by simp
  obtain now w1 where n: "ck_now (pf_clock pf) w = (now, w1)" by fastforce
  have "ck_time (pf_clock pf) w \<le> ck_time (pf_clock pf) w1" using clock_okD [OF platform_okD(7) [OF pf] n] by simp
  with h [unfolded Inr handle_rx_eq [OF pf l]] n show ?thesis
    by (auto simp: Let_def split: option.splits if_splits)
qed

lemma handle_rx_total:
  assumes pf: "platform_ok pf" and len: "\<forall>rr. result = Inr rr \<longrightarrow> rr_len rr \<le> length buf" and tl: "time_left pf 1 w"
  shows "\<exists>r. handle_rx pf result buf (d, out, w) = Some r"
proof (cases result)
  case (Inl e)
  then show ?thesis by (simp add: handle_rx_def)
next
  case (Inr rr)
  with len have l: "rr_len rr \<le> length buf" by simp
  obtain now w1 where n: "ck_now (pf_clock pf) w = (now, w1)" by fastforce
  have "inst_add (pf_time pf) now (dur_from_millis (pf_time pf) (ucast ms)) = Some (now + dur_from_millis (pf_time pf) (ucast (ms :: u32)))" for ms
    using time_left_now(2) [OF pf _ n, of 0 ms] tl by (simp add: time_okD(1) [OF platform_okD(6) [OF pf]])
  then show ?thesis
    using n by (auto simp: Inr handle_rx_eq [OF pf l] Let_def split: option.split)
qed

section \<open>The steps of the loop\<close>

context radio_driver
begin

lemma loop_top_total:
  assumes pf: "platform_ok pf" "pf_radio pf = rd" and rnd: "random_source (pf_random pf)"
    and s: "system_inv pf inv s" "live pf s" and tl: "time_left pf (length (sy_tx_in s) + 3) (sy_clock s)"
  shows "\<exists>t. loop_top pf s = Some t"
proof -
  let ?d = "sy_dp s"
  obtain q w where ds: "drain_submissions (length (sy_tx_in s) + 1) pf (sy_tx_in s, dp_tx_queue ?d, sy_clock s) = Some ([], q, w)"
    and t1: "time_left pf 3 w" "ck_time (pf_clock pf) (sy_clock s) \<le> ck_time (pf_clock pf) w"
    and sub: "te_packet ` set (tx_entries q) \<subseteq> req_packet ` set (sy_tx_in s) \<union> te_packet ` set (tx_entries (dp_tx_queue ?d))"
    using drain_submissions_total [OF pf(1) _ tl, of "length (sy_tx_in s) + 1" "dp_tx_queue ?d"] by (metis less_add_one)
  obtain now w1 where n: "ck_now (pf_clock pf) w = (now, w1)" by fastforce
  have tl3: "time_left pf (Suc 2) w" using t1(1) by (simp add: numeral_3_eq_3 numeral_2_eq_2)
  have t2: "time_left pf 2 w1" "ck_time (pf_clock pf) w \<le> ck_time (pf_clock pf) w1"
    by (rule time_left_now [OF pf(1) tl3 n])+
  obtain dq out where dr: "deliver_ready (rx_len (dp_rx_delay_queue ?d) + 1) pf now (dp_rx_delay_queue ?d, sy_rx_out s) = Some (dq, out)"
    using deliver_ready_total [OF pf(1), of "dp_rx_delay_queue ?d" "rx_len (dp_rx_delay_queue ?d) + 1"]
    unfolding rx_len_def by (metis less_add_one)
  let ?d1 = "?d\<lparr>dp_tx_queue := q, dp_rx_delay_queue := dq\<rparr>"
  have "length (tx_entries (dp_tx_queue ?d1)) \<le> pf_TX_Q pf" "length (sy_buf s) = MAX_TRANS_UNIT"
    using drain_submissions_inv [OF pf(1) ds] s(1) by (simp_all add: system_inv_def dispatcher_inv_def)
  moreover have "\<forall>e \<in> set (tx_entries (dp_tx_queue ?d1)). wf_packet (te_packet e)"
    using sub s(2) by (fastforce simp: live_def)
  moreover have "last_refill (dp_duty_cycle ?d1) \<le> ck_time (pf_clock pf) w1"
    "0 < dur_from_millis (pf_time pf) (ucast (cad_retry_min_ms (dp_config ?d1)))"
    using s(2) t1(2) t2(2) by (auto simp: live_def)
  ultimately obtain r where "maybe_transmit pf (?d1, sy_buf s, w1) = Some r"
    using maybe_transmit_total [OF pf(1) rnd _ _ _ _ t2(1)] by blast
  with ds n dr show ?thesis
    by (cases r) (simp add: loop_top_def Let_def del: drain_submissions.simps deliver_ready.simps)
qed

lemma on_radio_total:
  assumes pf: "platform_ok pf" "pf_radio pf = rd" and s: "system_inv pf inv s" and tl: "time_left pf 1 (sy_clock s)"
  shows "\<exists>t. on_radio pf s = Some t"
proof -
  have "inv (dp_radio (sy_dp s))" "length (sy_buf s) = MAX_TRANS_UNIT"
    using s by (simp_all add: system_inv_def dispatcher_inv_def)
  from recv_ok [OF this] obtain res buf r where rc: "rd_recv rd (sy_buf s) (dp_radio (sy_dp s)) = Some (res, buf, r)"
    and b: "length buf = MAX_TRANS_UNIT" and l: "\<forall>rr. res = Inr rr \<longrightarrow> rr_len rr \<le> MAX_TRANS_UNIT" by blast
  obtain x where "handle_rx pf res buf ((sy_dp s)\<lparr>dp_radio := r\<rparr>, sy_rx_out s, sy_clock s) = Some x"
    using handle_rx_total [OF pf(1) _ tl] l b by metis
  with rc pf(2) show ?thesis by (cases x) (simp add: on_radio_def)
qed

lemma on_radio_live:
  assumes pf: "platform_ok pf" "pf_radio pf = rd" and s: "system_inv pf inv s" "live pf s" and t: "on_radio pf s = Some t"
  shows "live pf t \<and> ck_time (pf_clock pf) (sy_clock s) \<le> ck_time (pf_clock pf) (sy_clock t)"
proof -
  have "inv (dp_radio (sy_dp s))" "length (sy_buf s) = MAX_TRANS_UNIT"
    using s by (simp_all add: system_inv_def dispatcher_inv_def)
  from recv_ok [OF this] obtain res buf r where rc: "rd_recv rd (sy_buf s) (dp_radio (sy_dp s)) = Some (res, buf, r)"
    and b: "length buf = MAX_TRANS_UNIT" and l: "\<forall>rr. res = Inr rr \<longrightarrow> rr_len rr \<le> MAX_TRANS_UNIT" by blast
  from t rc obtain d out w where h: "handle_rx pf res buf ((sy_dp s)\<lparr>dp_radio := r\<rparr>, sy_rx_out s, sy_clock s) = Some (d, out, w)"
    and t': "t = s\<lparr>sy_dp := d, sy_rx_out := out, sy_buf := buf, sy_clock := w, sy_phase := Top\<rparr>"
    by (auto simp: on_radio_def bind_eq_Some_conv pf(2))
  have "\<forall>rr. res = Inr rr \<longrightarrow> rr_len rr \<le> length buf" using l b by simp
  from handle_rxD [OF pf(1) this h] s(2) show ?thesis by (auto simp: t' live_def)
qed

end

lemma on_submission_total:
  assumes "platform_ok pf" "time_left pf 1 (sy_clock s)"
  shows "\<exists>t. on_submission pf s req rest = Some t"
proof -
  obtain now w where n: "ck_now (pf_clock pf) (sy_clock s) = (now, w)" by fastforce
  from assms(2) have "time_left pf (Suc 0) (sy_clock s)" by simp
  from tx_push_total [OF assms(1) this n, of "dp_tx_queue (sy_dp s)" req] n show ?thesis
    by (auto simp: on_submission_def)
qed

lemma on_submission_live:
  assumes pf: "platform_ok pf" and s: "live pf s" and r: "ch_try_receive (pf_tx_in pf) (sy_tx_in s) = Some (req, rest)"
    and t: "on_submission pf s req rest = Some t"
  shows "live pf t \<and> ck_time (pf_clock pf) (sy_clock s) \<le> ck_time (pf_clock pf) (sy_clock t)"
proof -
  obtain now w where n: "ck_now (pf_clock pf) (sy_clock s) = (now, w)" by fastforce
  with t obtain x q where p: "tx_push (pf_tx pf) (pf_time pf) (pf_TX_Q pf) now (dp_tx_queue (sy_dp s)) req = Some (x, q)"
    and t': "t = s\<lparr>sy_dp := (sy_dp s)\<lparr>dp_tx_queue := q\<rparr>, sy_tx_in := rest, sy_clock := w, sy_phase := Top\<rparr>"
    by (auto simp: on_submission_def bind_eq_Some_conv)
  have "sy_tx_in s = req # rest" using r platform_okD(4) [OF pf] by (auto split: list.splits)
  moreover have "ck_time (pf_clock pf) (sy_clock s) \<le> ck_time (pf_clock pf) w" using clock_okD [OF platform_okD(7) [OF pf] n] by simp
  moreover note tx_pushD [OF platform_okD(2) [OF pf] p]
  ultimately show ?thesis using s by (fastforce simp: t' live_def)
qed

section \<open>An exhausted budget\<close>

text \<open>
  A round of the loop in which only the timer fires: the top of the loop, then the wake-up, which is due, with the refills of two rounds at most a millisecond apart.
\<close>

definition spin :: "('r, 'g, 'w) platform \<Rightarrow> ('r, 'g, 'w) system \<Rightarrow> ('r, 'g, 'w) system \<Rightarrow> bool" where
  "spin pf s t \<longleftrightarrow> (\<exists>u w at. sy_phase s = Top \<and> loop_top pf s = Some u \<and> sy_phase u = Waiting (Some at) \<and>
     at \<le> ck_time (pf_clock pf) w \<and> ck_time (pf_clock pf) (sy_clock u) \<le> ck_time (pf_clock pf) w \<and>
     t = u\<lparr>sy_clock := w, sy_phase := Top\<rparr> \<and>
     dur_as_millis (pf_time pf) (last_refill (dp_duty_cycle (sy_dp t)) - last_refill (dp_duty_cycle (sy_dp s))) \<le> 1)"

text \<open>Entries that are due and that the budget does not allow, nothing else to do, and the default refill rate.\<close>

definition starved :: "('r, 'g, 'w) platform \<Rightarrow> ('r, 'g, 'w) system \<Rightarrow> bool" where
  "starved pf s \<longleftrightarrow> sy_phase s = Top \<and> sy_tx_in s = [] \<and> rx_entries (dp_rx_delay_queue (sy_dp s)) = [] \<and>
     duty_inv (dp_duty_cycle (sy_dp s)) \<and> duty_ratio (dp_duty_cycle (sy_dp s)) = f32_half \<and>
     tx_entries (dp_tx_queue (sy_dp s)) \<noteq> [] \<and> length (tx_entries (dp_tx_queue (sy_dp s))) \<le> pf_TX_Q pf \<and>
     (\<forall>e \<in> set (tx_entries (dp_tx_queue (sy_dp s))). send_after e \<le> ck_time (pf_clock pf) (sy_clock s) \<and>
       \<not> can_transmit (dp_duty_cycle (sy_dp s)) (rd_estimate_airtime_ms (pf_radio pf) (dp_radio (sy_dp s)) (wire_len (te_packet e))))"

lemma maybe_transmit_last_refill:
  assumes "clock_ok (pf_clock pf)" "maybe_transmit pf (d, buf, w) = Some (d', buf', w')" "ck_now (pf_clock pf) w = (now, w1)"
  shows "last_refill (dp_duty_cycle d') = now"
proof -
  from assms(2,3) obtain dc ready q where rf: "refill (pf_time pf) (dp_duty_cycle d) now = Some dc"
    and pop: "tx_pop_ready (pf_tx pf) now (dp_tx_queue d) = Some (ready, q)"
    by (auto simp: maybe_transmit_def bind_eq_Some_conv)
  note lr = refill_last [OF rf]
  show ?thesis
  proof (cases ready)
    case None
    with assms(2,3) rf pop lr show ?thesis by (auto simp: maybe_transmit_def)
  next
    case (Some e)
    show ?thesis
    proof (cases "can_transmit dc (rd_estimate_airtime_ms (pf_radio pf) (dp_radio d) (wire_len (te_packet e)))")
      case True
      with assms(2,3) rf pop Some have te: "transmit_entry pf e (d\<lparr>dp_duty_cycle := dc, dp_tx_queue := q\<rparr>, buf, w1) = Some (d', buf', w')"
        by (simp add: maybe_transmit_def)
      from transmit_entry_clock [OF assms(1) te] lr show ?thesis by simp
    qed (use assms(2,3) rf pop Some lr in \<open>auto simp: maybe_transmit_def\<close>)
  qed
qed

lemma starved_loop:
  assumes pf: "platform_ok pf" and s: "starved pf s" and t: "loop_top pf s = Some u"
    and d: "dur_as_millis (pf_time pf) (last_refill (dp_duty_cycle (sy_dp u)) - last_refill (dp_duty_cycle (sy_dp s))) \<le> 1"
  shows "\<exists>q now w. u = s\<lparr>sy_dp := (sy_dp s)\<lparr>dp_duty_cycle := (dp_duty_cycle (sy_dp s))\<lparr>last_refill := now\<rparr>, dp_tx_queue := q\<rparr>,
      sy_clock := w, sy_phase := Waiting (next_wake_time (sy_dp u))\<rparr> \<and>
    mset (tx_entries q) = mset (tx_entries (dp_tx_queue (sy_dp s))) \<and> ck_time (pf_clock pf) (sy_clock s) \<le> ck_time (pf_clock pf) w"
  using t
proof (rule loop_topE)
  fix tx_in q w now w1 dq out d' buf w2
  let ?d = "sy_dp s"
  assume ds: "drain_submissions (length (sy_tx_in s) + 1) pf (sy_tx_in s, dp_tx_queue ?d, sy_clock s) = Some (tx_in, q, w)"
    and n: "ck_now (pf_clock pf) w = (now, w1)"
    and dr: "deliver_ready (rx_len (dp_rx_delay_queue ?d) + 1) pf now (dp_rx_delay_queue ?d, sy_rx_out s) = Some (dq, out)"
    and mt: "maybe_transmit pf (?d\<lparr>dp_tx_queue := q, dp_rx_delay_queue := dq\<rparr>, sy_buf s, w1) = Some (d', buf, w2)"
    and u: "u = s\<lparr>sy_dp := d', sy_tx_in := tx_in, sy_rx_out := out, sy_buf := buf, sy_clock := w2, sy_phase := Waiting (next_wake_time d')\<rparr>"
  note ck = platform_okD(7) [OF pf]
  have ch: "ch_try_receive (pf_tx_in pf) [] = None" using platform_okD(4) [OF pf] by simp
  then have q: "tx_in = []" "q = dp_tx_queue ?d" "w = sy_clock s" using ds s by (simp_all add: starved_def)
  have e: "rx_entries (dp_rx_delay_queue ?d) = []" using s by (simp add: starved_def)
  have "rx_pop_ready (pf_rx pf) (pf_time pf) now (dp_rx_delay_queue ?d) = Some (None, dp_rx_delay_queue ?d)"
    by (rule rx_pop_none [OF platform_okD(3,6) [OF pf]]) (simp add: e)
  then have dq: "dq = dp_rx_delay_queue ?d" "out = sy_rx_out s" using dr by (simp_all add: rx_len_def)
  obtain t2 w3 where n2: "ck_now (pf_clock pf) w1 = (t2, w3)" by fastforce
  have time: "ck_time (pf_clock pf) (sy_clock s) \<le> t2" "t2 = ck_time (pf_clock pf) w3"
    using clock_okD [OF ck n] clock_okD [OF ck n2] q by auto
  from mt n2 q dq obtain dc where rf: "refill (pf_time pf) (dp_duty_cycle ?d) t2 = Some dc"
    by (auto simp: maybe_transmit_def bind_eq_Some_conv)
  obtain e where "e \<in> set (tx_entries (dp_tx_queue ?d))" using s unfolding starved_def by (meson last_in_set)
  moreover from this have "tx_ready t2 e" using s time by (auto simp: starved_def tx_ready_def)
  ultimately obtain b q' where pop: "tx_pop_ready (pf_tx pf) t2 (dp_tx_queue ?d) = Some (Some b, q')"
    and b: "b \<in> set (tx_entries (dp_tx_queue ?d))" and q': "mset (tx_entries q') = mset (tx_entries (dp_tx_queue ?d)) - {#b#}"
    using tx_pop_some [OF platform_okD(2) [OF pf]] by blast
  have bag: "mset (tx_entries (dp_tx_queue ?d)) = add_mset b (mset (tx_entries q'))" using b q' by simp
  then have lq: "length (tx_entries q') < pf_TX_Q pf"
    using s unfolding starved_def by (metis size_mset size_add_mset Suc_le_lessD)
  have lr: "last_refill (dp_duty_cycle (sy_dp u)) = t2"
    using maybe_transmit_last_refill [OF ck mt n2] by (simp add: u)
  have "inst_sub (pf_time pf) t2 (last_refill (dp_duty_cycle ?d)) \<noteq> None" using rf by (auto simp: refill_def bind_eq_Some_conv)
  then have "last_refill (dp_duty_cycle ?d) \<le> t2" by (auto simp: time_okD(2) [OF platform_okD(6) [OF pf]] split: if_splits)
  then have dc: "dc = (dp_duty_cycle ?d)\<lparr>last_refill := t2\<rparr>"
    using refill_one_ms [OF platform_okD(6) [OF pf], of "dp_duty_cycle ?d" t2] rf s d lr by (simp add: starved_def)
  have no: "\<not> can_transmit dc (rd_estimate_airtime_ms (pf_radio pf) (dp_radio ?d) (wire_len (te_packet b)))"
    using s b by (simp add: starved_def dc can_transmit_def)
  have "tx_push_entry (pf_tx pf) (pf_TX_Q pf) q' b = (Inr (), q'\<lparr>tx_entries := tx_entries q' @ [b]\<rparr>)"
    using lq platform_okD(2) [OF pf] by (simp add: tx_push_entry_def)
  then have "d' = ?d\<lparr>dp_duty_cycle := dc, dp_tx_queue := q'\<lparr>tx_entries := tx_entries q' @ [b]\<rparr>\<rparr> \<and> buf = sy_buf s \<and> w2 = w3"
    using mt n2 q dq rf pop no by (simp add: maybe_transmit_def)
  then show ?thesis
    using u q dq time bag s
    by (intro exI [of _ "q'\<lparr>tx_entries := tx_entries q' @ [b]\<rparr>"] exI [of _ t2] exI [of _ w3]) (simp add: dc starved_def)
qed


lemma due_wake_time:
  assumes "rx_entries (dp_rx_delay_queue d) = []" "tx_entries (dp_tx_queue d) \<noteq> []"
    and "\<forall>e \<in> set (tx_entries (dp_tx_queue d)). send_after e \<le> t"
  shows "\<exists>at. next_wake_time d = Some at \<and> at \<le> t"
proof -
  obtain at where "min_instant (map send_after (tx_entries (dp_tx_queue d))) = Some at"
    using assms(2) by (metis min_instant_None_iff map_is_Nil_conv not_Some_eq)
  with min_instant_Some [OF this] assms show ?thesis
    by (auto simp: next_wake_time_def tx_next_ready_time_def rx_next_ready_time_def)
qed

text \<open>The entries of the queue, but for their order.\<close>

lemma starved_spin:
  assumes pf: "platform_ok pf" and s: "starved pf s" and t: "spin pf s t"
  shows "starved pf t \<and> mset (tx_entries (dp_tx_queue (sy_dp t))) = mset (tx_entries (dp_tx_queue (sy_dp s))) \<and>
    dp_radio (sy_dp t) = dp_radio (sy_dp s) \<and> budget_ms (dp_duty_cycle (sy_dp t)) = budget_ms (dp_duty_cycle (sy_dp s))"
proof -
  from t obtain u w where lt: "loop_top pf s = Some u" and wc: "ck_time (pf_clock pf) (sy_clock u) \<le> ck_time (pf_clock pf) w"
    and t': "t = u\<lparr>sy_clock := w, sy_phase := Top\<rparr>"
    and d: "dur_as_millis (pf_time pf) (last_refill (dp_duty_cycle (sy_dp t)) - last_refill (dp_duty_cycle (sy_dp s))) \<le> 1"
    unfolding spin_def by blast
  have "dur_as_millis (pf_time pf) (last_refill (dp_duty_cycle (sy_dp u)) - last_refill (dp_duty_cycle (sy_dp s))) \<le> 1"
    using d t' by simp
  from starved_loop [OF pf s lt this] obtain q now w1 where
    u: "u = s\<lparr>sy_dp := (sy_dp s)\<lparr>dp_duty_cycle := (dp_duty_cycle (sy_dp s))\<lparr>last_refill := now\<rparr>, dp_tx_queue := q\<rparr>,
      sy_clock := w1, sy_phase := Waiting (next_wake_time (sy_dp u))\<rparr>"
    and q: "mset (tx_entries q) = mset (tx_entries (dp_tx_queue (sy_dp s)))"
    and w1: "ck_time (pf_clock pf) (sy_clock s) \<le> ck_time (pf_clock pf) w1" by blast
  have f: "sy_tx_in u = sy_tx_in s" "dp_rx_delay_queue (sy_dp u) = dp_rx_delay_queue (sy_dp s)" "dp_tx_queue (sy_dp u) = q"
    "dp_duty_cycle (sy_dp u) = (dp_duty_cycle (sy_dp s))\<lparr>last_refill := now\<rparr>" "dp_radio (sy_dp u) = dp_radio (sy_dp s)" "sy_clock u = w1"
    by (subst u, simp)+
  have "set (tx_entries q) = set (tx_entries (dp_tx_queue (sy_dp s)))" "length (tx_entries q) = length (tx_entries (dp_tx_queue (sy_dp s)))"
    using q by (metis set_mset_mset, metis size_mset)
  then have "starved pf t"
    using s f wc w1 by (auto simp: t' starved_def duty_inv_def can_transmit_def intro: order.trans)
  then show ?thesis using f q by (simp add: t')
qed

text \<open>
  C19: An exhausted budget starves the transmitter and spins the processor: when due entries wait that the budget does not allow, nothing else arrives, and the rounds of the
  loop follow each other within a millisecond, then no number of rounds sends anything or restores any budget, and the wake-up the loop computes is always already
  due, so that it does follow at once.
\<close>
theorem exhausted_budget_spins:
  assumes "platform_ok pf" "starved pf s" "(spin pf)\<^sup>*\<^sup>* s t"
  shows "mset (tx_entries (dp_tx_queue (sy_dp t))) = mset (tx_entries (dp_tx_queue (sy_dp s))) \<and>
    dp_radio (sy_dp t) = dp_radio (sy_dp s) \<and> budget_ms (dp_duty_cycle (sy_dp t)) = budget_ms (dp_duty_cycle (sy_dp s)) \<and>
    (\<exists>at. next_wake_time (sy_dp t) = Some at \<and> at \<le> ck_time (pf_clock pf) (sy_clock t))"
proof -
  from assms(3) have i: "starved pf t \<and> mset (tx_entries (dp_tx_queue (sy_dp t))) = mset (tx_entries (dp_tx_queue (sy_dp s))) \<and>
    dp_radio (sy_dp t) = dp_radio (sy_dp s) \<and> budget_ms (dp_duty_cycle (sy_dp t)) = budget_ms (dp_duty_cycle (sy_dp s))"
  proof (induction rule: rtranclp_induct)
    case base
    then show ?case using assms(2) by simp
  next
    case (step t u)
    then show ?case using starved_spin [OF assms(1), of t u] by simp
  qed
  moreover have "\<exists>at. next_wake_time (sy_dp t) = Some at \<and> at \<le> ck_time (pf_clock pf) (sy_clock t)"
    by (rule due_wake_time) (use i in \<open>auto simp: starved_def\<close>)
  ultimately show ?thesis by blast
qed

definition demo_starved :: "(MockRadio, MockRng, instant \<times> nat) system" where
  "demo_starved = (let s = start_system (demo_platform 4 4) MockRadio_new (MockRng_new 7) DispatcherConfig_default (0, 0)
     in s\<lparr>sy_dp := (sy_dp s)\<lparr>dp_tx_queue := \<lparr>tx_entries = [\<lparr>te_packet = sample_packet, te_priority = 0, send_after = 0\<rparr>]\<rparr>,
       dp_duty_cycle := (dp_duty_cycle (sy_dp s))\<lparr>budget_ms := 0\<rparr>\<rparr>\<rparr>)"

lemma demo_starved_ok:
  "starved (demo_platform 4 4) demo_starved" "live (demo_platform 4 4) demo_starved"
  "system_inv (demo_platform 4 4) (\<lambda>r. containers_ok list_containers \<and> mock_ok r) demo_starved"
proof -
  have "system_inv (demo_platform 4 4) (\<lambda>r. containers_ok list_containers \<and> mock_ok r)
      (start_system (demo_platform 4 4) MockRadio_new (MockRng_new 7) DispatcherConfig_default (0, 0))"
    by (rule start_system_inv) (use mock_ok_new in simp)
  then show "system_inv (demo_platform 4 4) (\<lambda>r. containers_ok list_containers \<and> mock_ok r) demo_starved"
    by (simp add: demo_starved_def system_inv_def dispatcher_inv_def duty_inv_def demo_platform_def start_system_def)
  show "starved (demo_platform 4 4) demo_starved"
    by (simp add: starved_def demo_starved_def start_system_def Dispatcher_new_def default_tracker RxDelayQueue_new_def duty_inv_def
        can_transmit_def demo_platform_def demo_clock_def)
  show "live (demo_platform 4 4) demo_starved"
  proof -
    have "cad_retry_min_ms DispatcherConfig_default = 120" by (simp add: DispatcherConfig_default_def)
    then show ?thesis
      using sample_packet_wf
      by (simp add: live_def demo_starved_def start_system_def Dispatcher_new_def default_tracker demo_platform_def demo_clock_def)
  qed
qed

lemma exhausted_budget_spins_witness:
  "\<exists>t. spin (demo_platform 4 4) demo_starved t \<and> budget_ms (dp_duty_cycle (sy_dp t)) = 0"
proof -
  let ?pf = "demo_platform 4 4" and ?s = demo_starved
  note ok = demo_platform_ok [of 4 4]
  have c: "sy_clock ?s = (0, 0)" "sy_tx_in ?s = []" "pf_clock ?pf = demo_clock" "pf_time ?pf = ms_time" "last_refill (dp_duty_cycle (sy_dp ?s)) = 0"
    "budget_ms (dp_duty_cycle (sy_dp ?s)) = 0" "sy_phase ?s = Top"
    by (simp_all add: demo_starved_def start_system_def demo_platform_def Dispatcher_new_def default_tracker)
  have rd: "radio_driver (pf_radio ?pf) (\<lambda>r. containers_ok list_containers \<and> mock_ok r)" "random_source (pf_random ?pf)"
    using mock.radio_driver_axioms [of list_containers] mock_rng.random_source_axioms by (simp_all add: demo_platform_def)
  have "time_left ?pf (length (sy_tx_in ?s) + 3) (sy_clock ?s)"
    by (auto simp: time_left_def c demo_clock_def le_Suc_eq numeral_3_eq_3 saturating_add_def unsigned_ucast_eq unsigned_minus_1_eq_mask mask_eq_exp_minus_1)
  from radio_driver.loop_top_total [OF rd(1) ok refl rd(2) demo_starved_ok(3,2) this]
  obtain u where u: "loop_top ?pf ?s = Some u" by blast
  have lr: "last_refill (dp_duty_cycle (sy_dp u)) = 0"
    using u
  proof (rule loop_topE)
    fix tx_in q w now w1 dq out d buf w2
    assume ds: "drain_submissions (length (sy_tx_in ?s) + 1) ?pf (sy_tx_in ?s, dp_tx_queue (sy_dp ?s), sy_clock ?s) = Some (tx_in, q, w)"
      and n: "ck_now (pf_clock ?pf) w = (now, w1)"
      and mt: "maybe_transmit ?pf ((sy_dp ?s)\<lparr>dp_tx_queue := q, dp_rx_delay_queue := dq\<rparr>, sy_buf ?s, w1) = Some (d, buf, w2)"
      and u: "u = ?s\<lparr>sy_dp := d, sy_tx_in := tx_in, sy_rx_out := out, sy_buf := buf, sy_clock := w2, sy_phase := Waiting (next_wake_time d)\<rparr>"
    have "w = (0, 0)" using ds platform_okD(4) [OF ok] by (simp add: c)
    with n have "ck_now (pf_clock ?pf) w1 = (0, (0, 2))" by (auto simp: c demo_clock_def)
    from maybe_transmit_last_refill [OF platform_okD(7) [OF ok] mt this] show ?thesis by (simp add: u)
  qed
  then have d: "dur_as_millis (pf_time ?pf) (last_refill (dp_duty_cycle (sy_dp u)) - last_refill (dp_duty_cycle (sy_dp ?s))) \<le> 1"
    by (simp add: c)
  from starved_loop [OF ok demo_starved_ok(1) u d] obtain q now w where
    eq: "u = ?s\<lparr>sy_dp := (sy_dp ?s)\<lparr>dp_duty_cycle := (dp_duty_cycle (sy_dp ?s))\<lparr>last_refill := now\<rparr>, dp_tx_queue := q\<rparr>,
      sy_clock := w, sy_phase := Waiting (next_wake_time (sy_dp u))\<rparr>"
    and q: "mset (tx_entries q) = mset (tx_entries (dp_tx_queue (sy_dp ?s)))" by blast
  have "tx_entries (dp_tx_queue (sy_dp ?s)) = [\<lparr>te_packet = sample_packet, te_priority = 0, send_after = 0\<rparr>]"
    by (simp add: demo_starved_def Let_def)
  then have "tx_entries q = [\<lparr>te_packet = sample_packet, te_priority = 0, send_after = 0\<rparr>]" using q by simp
  moreover have "dp_tx_queue (sy_dp u) = q" "dp_rx_delay_queue (sy_dp u) = dp_rx_delay_queue (sy_dp ?s)"
    "sy_phase u = Waiting (next_wake_time (sy_dp u))" "sy_clock u = w"
    by (subst eq, simp)+
  moreover have "rx_entries (dp_rx_delay_queue (sy_dp ?s)) = []" using demo_starved_ok(1) by (simp add: starved_def)
  ultimately obtain at where at: "sy_phase u = Waiting (Some at)" "at \<le> ck_time (pf_clock ?pf) (sy_clock u)"
    using due_wake_time [of "sy_dp u" "ck_time (pf_clock ?pf) (sy_clock u)"] by auto
  then have "spin ?pf ?s (u\<lparr>sy_clock := sy_clock u, sy_phase := Top\<rparr>)"
    unfolding spin_def using u d c(7)
    by (intro exI [of _ u] exI [of _ "sy_clock u"] exI [of _ at]) simp
  moreover from this have "(spin ?pf)\<^sup>*\<^sup>* ?s (u\<lparr>sy_clock := sy_clock u, sy_phase := Top\<rparr>)" by simp
  from exhausted_budget_spins [OF ok demo_starved_ok(1) this] have "budget_ms (dp_duty_cycle (sy_dp (u\<lparr>sy_clock := sy_clock u, sy_phase := Top\<rparr>))) = 0"
    using c(6) by simp
  ultimately show ?thesis by blast
qed

end
