(* ===== verification/Loop_Spec.thy ===== *)
theory Loop_Spec
  imports Progress
begin

text \<open>
  What one pass through the top of the dispatcher's loop (\<open>run\<close>, \<open>crates/meshcore-dispatch/src/dispatcher.rs\<close>) does, from the submissions in the channel to the
  wake-up time: its three loops have closed forms, and the last step is the case distinction of \<open>maybe_transmit_cases\<close>.
\<close>

section \<open>Moving the submissions into the queue\<close>

text \<open>The entries of submitted requests: each is stamped with the clock reading it is moved at, plus its delay.\<close>

fun stamped :: "('r, 'g, 'w) platform \<Rightarrow> 'w \<Rightarrow> TxRequest list \<Rightarrow> TxEntry list" where
  "stamped pf w [] = []"
| "stamped pf w (r # rs) =
     \<lparr>te_packet = req_packet r, te_priority = req_priority r,
       send_after = fst (ck_now (pf_clock pf) w) + dur_from_millis (pf_time pf) (ucast (delay_ms r))\<rparr> #
     stamped pf (snd (ck_now (pf_clock pf) w)) rs"

lemma length_stamped [simp]: "length (stamped pf w rs) = length rs"
  by (induction rs arbitrary: w) simp_all

lemma drain_submissions_eq:
  assumes "platform_ok pf" "length tx_in < fuel" "time_left pf (length tx_in + k) w" "length (tx_entries q) \<le> pf_TX_Q pf"
  shows "drain_submissions fuel pf (tx_in, q, w) =
    Some ([], q\<lparr>tx_entries := tx_entries q @ take (pf_TX_Q pf - length (tx_entries q)) (stamped pf w tx_in)\<rparr>,
      reads (pf_clock pf) (length tx_in) w)"
  using assms(2-)
proof (induction fuel arbitrary: tx_in q w)
  case (Suc fuel)
  have ch: "ch_try_receive (pf_tx_in pf) xs = (case xs of [] \<Rightarrow> None | x # ys \<Rightarrow> Some (x, ys))" for xs
    using platform_okD(4) [OF assms(1)] by simp
  show ?case
  proof (cases tx_in)
    case Nil
    with Suc.prems show ?thesis by (simp add: ch)
  next
    case (Cons req rest)
    obtain now w1 where n: "ck_now (pf_clock pf) w = (now, w1)" by fastforce
    have tl: "time_left pf (Suc (length rest + k)) w" using Suc.prems(2) Cons by simp
    let ?e = "\<lparr>te_packet = req_packet req, te_priority = req_priority req,
      send_after = now + dur_from_millis (pf_time pf) (ucast (delay_ms req))\<rparr>"
    let ?q1 = "if length (tx_entries q) = pf_TX_Q pf then q else q\<lparr>tx_entries := tx_entries q @ [?e]\<rparr>"
    have "\<exists>r. tx_push (pf_tx pf) (pf_time pf) (pf_TX_Q pf) now q req = Some (r, ?q1)"
      using Suc.prems(3) time_left_now(2) [OF assms(1) tl n, of "delay_ms req"]
      by (simp add: tx_push_def tx_is_full_def time_okD(1) [OF platform_okD(6) [OF assms(1)]]
          heapless_okD [OF platform_okD(2) [OF assms(1)]] Let_def)
    then have "drain_submissions (Suc fuel) pf (tx_in, q, w) = drain_submissions fuel pf (rest, ?q1, w1)"
      using Cons n by (auto simp: ch)
    also have "\<dots> = Some ([], ?q1\<lparr>tx_entries := tx_entries ?q1 @ take (pf_TX_Q pf - length (tx_entries ?q1)) (stamped pf w1 rest)\<rparr>,
        reads (pf_clock pf) (length rest) w1)"
      using Suc.prems Cons by (intro Suc.IH time_left_now(1) [OF assms(1) tl n]) auto
    also have "tx_entries ?q1 @ take (pf_TX_Q pf - length (tx_entries ?q1)) (stamped pf w1 rest) =
        tx_entries q @ take (pf_TX_Q pf - length (tx_entries q)) (stamped pf w tx_in)"
      using Suc.prems(3) n Cons by (cases "pf_TX_Q pf - length (tx_entries q)") (auto simp: diff_Suc)
    finally show ?thesis using Cons n by simp
  qed
qed simp

section \<open>Delivering what is due\<close>

text \<open>The loop is \<open>drain\<close> of the delay queue, and a channel that drops what does not fit.\<close>

lemma deliver_ready_drain:
  "deliver_ready n pf now (q, out) =
    map_option (\<lambda>(ps, q). (q, fold (\<lambda>p out. deliver pf out p) ps out)) (drain n (rx_pop_ready (pf_rx pf) (pf_time pf) now) q)"
proof (induction n arbitrary: q out)
  case (Suc n)
  show ?case
  proof (cases "rx_pop_ready (pf_rx pf) (pf_time pf) now q")
    case (Some x)
    obtain r q1 where x: "x = (r, q1)" by fastforce
    show ?thesis
      by (cases r; cases "drain n (rx_pop_ready (pf_rx pf) (pf_time pf) now) q1") (auto simp: Some x Suc)
  qed simp
qed simp

lemma fold_deliver:
  "platform_ok pf \<Longrightarrow> fold (\<lambda>p out. deliver pf out p) ps out = out @ take (pf_RX_Q pf - length out) ps"
proof (induction ps arbitrary: out)
  case (Cons p ps)
  have "deliver pf out p = (if length out < pf_RX_Q pf then out @ [p] else out)"
    using platform_okD(5) [OF Cons.prems] by (simp add: deliver_def)
  with Cons show ?case
    by (cases "pf_RX_Q pf - length out") (auto simp: diff_Suc)
qed simp

lemma deliver_ready_spec:
  assumes "platform_ok pf" "rx_len q < fuel"
  shows "\<exists>es q'. deliver_ready fuel pf now (q, out) = Some (q', out @ take (pf_RX_Q pf - length out) (map rde_packet es)) \<and>
    sorted (map deliver_at es) \<and> mset es = filter_mset (rx_ready now) (mset (rx_entries q)) \<and>
    mset (rx_entries q') = filter_mset (\<lambda>e. \<not> rx_ready now e) (mset (rx_entries q))"
proof -
  have "size (mset (rx_entries q)) < fuel" using assms(2) by (simp add: rx_len_def)
  from rx.drain_complete [of "(pf_rx pf, pf_time pf)", OF _ this, of now] platform_okD(3,6) [OF assms(1)]
  show ?thesis by (force simp: deliver_ready_drain fold_deliver [OF assms(1)])
qed


section \<open>The top of the loop\<close>

lemma time_left_reads: "time_left pf (n + k) w \<Longrightarrow> time_left pf k (reads (pf_clock pf) n w)"
  by (auto simp: time_left_def reads_add)

lemma stamped_wf: "(\<forall>r \<in> set rs. wf_packet (req_packet r)) \<Longrightarrow> \<forall>e \<in> set (stamped pf w rs). wf_packet (te_packet e)"
  by (induction rs arbitrary: w) simp_all

lemma loop_top_cases:
  assumes rd: "radio_driver (pf_radio pf) rinv" "random_source (pf_random pf)" and pf: "platform_ok pf"
    and s: "system_inv pf rinv s" "live pf s" and tl: "time_left pf (length (sy_tx_in s) + 3) (sy_clock s)"
    and es: "es = tx_entries (dp_tx_queue (sy_dp s)) @
      take (pf_TX_Q pf - length (tx_entries (dp_tx_queue (sy_dp s)))) (stamped pf (sy_clock s) (sy_tx_in s))"
    and n: "ck_now (pf_clock pf) (reads (pf_clock pf) (length (sy_tx_in s)) (sy_clock s)) = (now, w1)"
  shows "\<exists>t ds dq d1 t2 w2 dc. loop_top pf s = Some t \<and> sy_tx_in t = [] \<and>
    sorted (map deliver_at ds) \<and> mset ds = filter_mset (rx_ready now) (mset (rx_entries (dp_rx_delay_queue (sy_dp s)))) \<and>
    sy_rx_out t = sy_rx_out s @ take (pf_RX_Q pf - length (sy_rx_out s)) (map rde_packet ds) \<and>
    mset (rx_entries dq) = filter_mset (\<lambda>e. \<not> rx_ready now e) (mset (rx_entries (dp_rx_delay_queue (sy_dp s)))) \<and>
    d1 = (sy_dp s)\<lparr>dp_tx_queue := \<lparr>tx_entries = es\<rparr>, dp_rx_delay_queue := dq\<rparr> \<and>
    ck_now (pf_clock pf) w1 = (t2, w2) \<and> now \<le> t2 \<and> refill (pf_time pf) (dp_duty_cycle (sy_dp s)) t2 = Some dc \<and>
    transmit_outcome pf t2 dc (d1, sy_buf s, w2) (sy_dp t, sy_buf t, sy_clock t) \<and>
    sy_phase t = Waiting (next_wake_time (sy_dp t))"
proof -
  let ?d = "sy_dp s" and ?w = "reads (pf_clock pf) (length (sy_tx_in s)) (sy_clock s)"
  note ck = platform_okD(7) [OF pf]
  have lq: "length (tx_entries (dp_tx_queue ?d)) \<le> pf_TX_Q pf" using s(1) by (simp add: system_inv_def dispatcher_inv_def)
  have dr: "drain_submissions (length (sy_tx_in s) + 1) pf (sy_tx_in s, dp_tx_queue ?d, sy_clock s) = Some ([], \<lparr>tx_entries = es\<rparr>, ?w)"
    using drain_submissions_eq [OF pf _ tl lq, of "length (sy_tx_in s) + 1"] es by (cases "dp_tx_queue ?d") simp
  have "rx_len (dp_rx_delay_queue ?d) < rx_len (dp_rx_delay_queue ?d) + 1" by simp
  from deliver_ready_spec [OF pf this, of now "sy_rx_out s"] obtain ds dq where
    dl: "deliver_ready (rx_len (dp_rx_delay_queue ?d) + 1) pf now (dp_rx_delay_queue ?d, sy_rx_out s) =
        Some (dq, sy_rx_out s @ take (pf_RX_Q pf - length (sy_rx_out s)) (map rde_packet ds))"
    and ds: "sorted (map deliver_at ds)" "mset ds = filter_mset (rx_ready now) (mset (rx_entries (dp_rx_delay_queue ?d)))"
      "mset (rx_entries dq) = filter_mset (\<lambda>e. \<not> rx_ready now e) (mset (rx_entries (dp_rx_delay_queue ?d)))" by blast
  let ?d1 = "?d\<lparr>dp_tx_queue := \<lparr>tx_entries = es\<rparr>, dp_rx_delay_queue := dq\<rparr>"
  obtain t2 w2 where n2: "ck_now (pf_clock pf) w1 = (t2, w2)" by fastforce
  obtain t3 w3 where n3: "ck_now (pf_clock pf) w2 = (t3, w3)" by fastforce
  have tl1: "time_left pf (Suc (Suc (Suc 0))) ?w" using time_left_reads [OF tl] by (simp add: numeral_3_eq_3)
  note tl2 = time_left_now(1) [OF pf tl1 n] note tl3 = time_left_now(1) [OF pf tl2 n2]
  have cad: "cad_ok pf (dp_config ?d1) w2"
    using rd(2) s(2) time_left_now(2) [OF pf tl3 n3] n3 by (simp add: cad_ok_def live_def)
  have wf: "\<forall>e \<in> set es. wf_packet (te_packet e)"
    using s(2) stamped_wf [of "sy_tx_in s" pf "sy_clock s"] by (auto simp: es live_def dest: in_set_takeD)
  have snd: "\<forall>e \<in> set (tx_entries (dp_tx_queue ?d1)). sendable (length (sy_buf s)) e"
    using s(1) wf wf_sendable by (simp add: system_inv_def)
  have len: "length (tx_entries (dp_tx_queue ?d1)) \<le> pf_TX_Q pf" using lq by (simp add: es)
  have "ck_time (pf_clock pf) (sy_clock s) \<le> now"
    using reads_later [OF ck, of "sy_clock s" "length (sy_tx_in s)"] clock_okD(2) [OF ck n] by simp
  moreover have t2: "now \<le> t2" using clock_okD [OF ck n] clock_okD [OF ck n2] by simp
  ultimately have lr: "last_refill (dp_duty_cycle ?d1) \<le> t2" using s(2) by (auto simp: live_def)
  from maybe_transmit_cases [OF pf len n2 lr cad snd] obtain dc d' buf' w' where
    rf: "refill (pf_time pf) (dp_duty_cycle ?d1) t2 = Some dc" and mt: "maybe_transmit pf (?d1, sy_buf s, w1) = Some (d', buf', w')"
    and c: "transmit_outcome pf t2 dc (?d1, sy_buf s, w2) (d', buf', w')"
    by auto
  define t where "t = s\<lparr>sy_dp := d', sy_tx_in := [], sy_rx_out := sy_rx_out s @ take (pf_RX_Q pf - length (sy_rx_out s)) (map rde_packet ds),
      sy_buf := buf', sy_clock := w', sy_phase := Waiting (next_wake_time d')\<rparr>"
  then have t: "loop_top pf s = Some t" "sy_tx_in t = []" "sy_phase t = Waiting (next_wake_time (sy_dp t))"
      "sy_rx_out t = sy_rx_out s @ take (pf_RX_Q pf - length (sy_rx_out s)) (map rde_packet ds)"
    and d': "sy_dp t = d'" "sy_buf t = buf'" "sy_clock t = w'"
    using dr n dl mt by (simp_all add: loop_top_def del: drain_submissions.simps deliver_ready.simps)
  show ?thesis
    by (intro exI [of _ t] exI [of _ ds] exI [of _ dq] exI [of _ ?d1] exI [of _ t2] exI [of _ w2] exI [of _ dc] conjI t ds t2 n2 refl c [folded d'])
      (use rf in simp)
qed

text \<open>The budget allows a transmission of \<open>n\<close> bytes whatever state the radio is in.\<close>

definition affordable :: "('r, 'g, 'w) platform \<Rightarrow> DutyCycleTracker \<Rightarrow> nat \<Rightarrow> bool" where
  "affordable pf dc n \<longleftrightarrow> (\<forall>r. can_transmit dc (rd_estimate_airtime_ms (pf_radio pf) r n))"

lemma refill_budget: "refill tm dc now = Some dc' \<Longrightarrow> duty_inv dc \<Longrightarrow> budget_ms dc \<le> budget_ms dc' \<and> min_reserve_ms dc' = min_reserve_ms dc"
  by (auto simp: refill_def bind_eq_Some_conv Let_def duty_inv_def saturating_add_ge)

lemma affordable_refill:
  assumes "affordable pf dc n" "refill tm dc now = Some dc'" "duty_inv dc"
  shows "affordable pf dc' n"
  using refill_budget [OF assms(2,3)] assms(1) by (auto simp: affordable_def can_transmit_def intro: order.trans)

text \<open>A top of the loop that finds one submission and nothing else transmits it.\<close>

lemma loop_top_sends:
  assumes rd: "radio_driver (pf_radio pf) rinv" "random_source (pf_random pf)" and pf: "platform_ok pf" "0 < pf_TX_Q pf"
    and s: "system_inv pf rinv s" "live pf s" and req: "sy_tx_in s = [req]" "delay_ms req = 0"
    and q: "tx_entries (dp_tx_queue (sy_dp s)) = []"
    and aff: "affordable pf (dp_duty_cycle (sy_dp s)) (wire_len (req_packet req))" and tl: "time_left pf 4 (sy_clock s)"
  shows "\<exists>t r. loop_top pf s = Some t \<and>
    dp_radio (sy_dp t) = snd (rd_send (pf_radio pf) (wire_bytes (req_packet req)) r) \<and> tx_entries (dp_tx_queue (sy_dp t)) = []"
proof -
  obtain t0 w0 where n0: "ck_now (pf_clock pf) (sy_clock s) = (t0, w0)" by fastforce
  let ?e = "\<lparr>te_packet = req_packet req, te_priority = req_priority req, send_after = t0\<rparr>"
  obtain now w1 where n: "ck_now (pf_clock pf) (reads (pf_clock pf) (length (sy_tx_in s)) (sy_clock s)) = (now, w1)" by fastforce
  have es: "tx_entries (dp_tx_queue (sy_dp s)) @ take (pf_TX_Q pf - length (tx_entries (dp_tx_queue (sy_dp s)))) (stamped pf (sy_clock s) (sy_tx_in s)) = [?e]"
    using pf(2) q n0 req time_okD(9) [OF platform_okD(6) [OF pf(1)]] by (simp add: take_Cons')
  have "time_left pf (length (sy_tx_in s) + 3) (sy_clock s)" using tl req(1) by simp
  from loop_top_cases [OF rd pf(1) s this es [symmetric] n] obtain t dq d1 t2 w2 dc where
    t: "loop_top pf s = Some t" and d1: "d1 = (sy_dp s)\<lparr>dp_tx_queue := \<lparr>tx_entries = [?e]\<rparr>, dp_rx_delay_queue := dq\<rparr>"
    and le: "now \<le> t2" and rf: "refill (pf_time pf) (dp_duty_cycle (sy_dp s)) t2 = Some dc"
    and c: "transmit_outcome pf t2 dc (d1, sy_buf s, w2) (sy_dp t, sy_buf t, sy_clock t)" by blast
  have es1: "tx_entries (dp_tx_queue d1) = [?e]" by (simp add: d1)
  have "t0 \<le> t2"
    using clock_okD [OF platform_okD(7) [OF pf(1)] n0] clock_okD [OF platform_okD(7) [OF pf(1)] n] le req(1) n0 by simp
  then have "\<not> (\<forall>e \<in> set (tx_entries (dp_tx_queue d1)). t2 < send_after e)" by (simp add: es1 not_less)
  note c = c [unfolded transmit_outcome_def prod.case if_not_P [OF this]]
  have "duty_inv (dp_duty_cycle (sy_dp s))" using s(1) by (simp add: system_inv_def dispatcher_inv_def)
  then have "affordable pf dc (wire_len (req_packet req))" using affordable_refill [OF aff rf] by simp
  then have "can_transmit dc (rd_estimate_airtime_ms (pf_radio pf) (dp_radio d1) (wire_len (te_packet ?e)))" by (simp add: affordable_def)
  with c have "transmitted pf dc ?e (d1, sy_buf s, w2) (sy_dp t, sy_buf t, sy_clock t)" unfolding es1 by auto
  from transmittedD [OF this] show ?thesis using t by (simp add: es1)
qed

section \<open>Properties\<close>

text \<open>
  C8: The top of the loop, completely: it moves every submission, in order and stamped with its due time, into the transmit queue as far as there is room and drops the
  rest; it hands the held-back packets whose time has come to the mesh layer, earliest first and as far as the channel has room, and keeps the others; then it refills
  the budget and transmits, puts back or leaves the most urgent due entry (\<open>transmit_outcome\<close>, as in the property of \<open>maybe_transmit\<close>); and it waits for the next due time.
\<close>
theorem loop_top_spec:
  assumes "radio_driver (pf_radio pf) rinv" "random_source (pf_random pf)" "platform_ok pf"
    and "system_inv pf rinv s" "live pf s" "time_left pf (length (sy_tx_in s) + 3) (sy_clock s)"
    and "es = tx_entries (dp_tx_queue (sy_dp s)) @
      take (pf_TX_Q pf - length (tx_entries (dp_tx_queue (sy_dp s)))) (stamped pf (sy_clock s) (sy_tx_in s))"
    and "ck_now (pf_clock pf) (reads (pf_clock pf) (length (sy_tx_in s)) (sy_clock s)) = (now, w1)"
  shows "\<exists>t ds dq d1 t2 w2 dc. loop_top pf s = Some t \<and> sy_tx_in t = [] \<and>
    sorted (map deliver_at ds) \<and> mset ds = filter_mset (rx_ready now) (mset (rx_entries (dp_rx_delay_queue (sy_dp s)))) \<and>
    sy_rx_out t = sy_rx_out s @ take (pf_RX_Q pf - length (sy_rx_out s)) (map rde_packet ds) \<and>
    mset (rx_entries dq) = filter_mset (\<lambda>e. \<not> rx_ready now e) (mset (rx_entries (dp_rx_delay_queue (sy_dp s)))) \<and>
    d1 = (sy_dp s)\<lparr>dp_tx_queue := \<lparr>tx_entries = es\<rparr>, dp_rx_delay_queue := dq\<rparr> \<and>
    ck_now (pf_clock pf) w1 = (t2, w2) \<and> now \<le> t2 \<and> refill (pf_time pf) (dp_duty_cycle (sy_dp s)) t2 = Some dc \<and>
    transmit_outcome pf t2 dc (d1, sy_buf s, w2) (sy_dp t, sy_buf t, sy_clock t) \<and>
    sy_phase t = Waiting (next_wake_time (sy_dp t))"
  using loop_top_cases [OF assms] .

text \<open>One held-back packet that is due and one submission.\<close>

definition demo_busy :: "(MockRadio, MockRng, instant \<times> nat) system" where
  "demo_busy = (let s = start_system (demo_platform 4 4) MockRadio_new (MockRng_new 7) DispatcherConfig_default (10, 0)
     in s\<lparr>sy_dp := (sy_dp s)\<lparr>dp_rx_delay_queue := \<lparr>rx_entries = [\<lparr>rde_packet =
         \<lparr>rx_packet = sample_packet, rx_rssi = f32_zero, rx_snr = f32_zero\<rparr>, deliver_at = 5\<rparr>]\<rparr>\<rparr>,
       sy_tx_in := [\<lparr>req_packet = sample_packet, req_priority = 1, delay_ms = 0\<rparr>]\<rparr>)"

lemma demo_busy_ok:
  "system_inv (demo_platform 4 4) (\<lambda>r. containers_ok list_containers \<and> mock_ok r) demo_busy" "live (demo_platform 4 4) demo_busy"
proof -
  have "cad_retry_min_ms DispatcherConfig_default = 120" by (simp add: DispatcherConfig_default_def)
  then show "live (demo_platform 4 4) demo_busy"
    using sample_packet_wf
    by (simp add: demo_busy_def live_def start_system_def Dispatcher_new_def default_tracker demo_platform_def demo_clock_def TxQueue_new_def)
  show "system_inv (demo_platform 4 4) (\<lambda>r. containers_ok list_containers \<and> mock_ok r) demo_busy"
    using start_system_inv [of "\<lambda>r. containers_ok list_containers \<and> mock_ok r" MockRadio_new "demo_platform 4 4" "MockRng_new 7" DispatcherConfig_default "(10, 0)"]
      mock_ok_new sample_packet_wf
    by (simp add: demo_busy_def system_inv_def dispatcher_inv_def start_system_def demo_platform_def rx_wf_def)
qed

lemma demo_reads: "unat (ck_time demo_clock (reads demo_clock n (t, k))) \<le> unat t + n"
proof (induction n arbitrary: t k)
  case (Suc n)
  from Suc [of t "k + 1"] Suc [of "saturating_add t 1" 0] show ?case
    by (auto simp: demo_clock_def unat_saturating_add)
qed (simp add: demo_clock_def)

lemma demo_time_left:
  assumes "pf_clock pf = demo_clock" "pf_time pf = ms_time" "unat t + n < 2 ^ 63"
  shows "time_left pf n (t, k)"
  using demo_reads [of _ t k] assms
  by (fastforce simp: time_left_def unsigned_ucast_eq unsigned_minus_1_eq_mask mask_eq_exp_minus_1 intro: order.strict_trans1)

lemma mock_affordable:
  assumes "n \<le> 254"
  shows "can_transmit (DutyCycleTracker_new tm DispatcherConfig_default) (mock_estimate_airtime_ms r n)"
proof -
  have "(of_nat n * 2 :: u32) div 2 \<le> 1800000"
    using assms by (simp add: word_le_nat_alt unat_div unat_word_ariths unat_of_nat)
  then show ?thesis by (simp add: can_transmit_def default_tracker mock_estimate_airtime_ms_def MIN_TX_BUDGET_AIRTIME_DIV_def)
qed

lemma loop_top_spec_witness:
  "\<exists>t. loop_top (demo_platform 4 4) demo_busy = Some t \<and> sy_tx_in t = [] \<and>
    sy_rx_out t = [\<lparr>rx_packet = sample_packet, rx_rssi = f32_zero, rx_snr = f32_zero\<rparr>]"
proof -
  let ?pf = "demo_platform 4 4"
  have rd: "radio_driver (pf_radio ?pf) (\<lambda>r. containers_ok list_containers \<and> mock_ok r)" "random_source (pf_random ?pf)"
    using mock.radio_driver_axioms [of list_containers] mock_rng.random_source_axioms by (simp_all add: demo_platform_def)
  have b: "sy_tx_in demo_busy = [\<lparr>req_packet = sample_packet, req_priority = 1, delay_ms = 0\<rparr>]" "sy_clock demo_busy = (10, 0)" "sy_rx_out demo_busy = []"
    "rx_entries (dp_rx_delay_queue (sy_dp demo_busy)) = [\<lparr>rde_packet = \<lparr>rx_packet = sample_packet, rx_rssi = f32_zero, rx_snr = f32_zero\<rparr>, deliver_at = 5\<rparr>]"
    "pf_clock ?pf = demo_clock" "pf_time ?pf = ms_time" "pf_RX_Q ?pf = 4"
    by (simp_all add: demo_busy_def start_system_def demo_platform_def Let_def)
  have tl: "time_left ?pf (length (sy_tx_in demo_busy) + 3) (sy_clock demo_busy)"
    unfolding b(2) by (rule demo_time_left) (simp_all add: b)
  have n: "ck_now (pf_clock ?pf) (reads (pf_clock ?pf) (length (sy_tx_in demo_busy)) (sy_clock demo_busy)) = (10, snd (ck_now demo_clock (snd (ck_now demo_clock (10, 0)))))"
    by (simp add: b) (simp add: demo_clock_def)
  from loop_top_spec [OF rd demo_platform_ok demo_busy_ok tl refl n] obtain t ds where
    t: "loop_top ?pf demo_busy = Some t" "sy_tx_in t = []"
    and ds: "mset ds = filter_mset (rx_ready 10) (mset (rx_entries (dp_rx_delay_queue (sy_dp demo_busy))))"
    and out: "sy_rx_out t = sy_rx_out demo_busy @ take (pf_RX_Q ?pf - length (sy_rx_out demo_busy)) (map rde_packet ds)" by blast
  have "rx_ready 10 \<lparr>rde_packet = \<lparr>rx_packet = sample_packet, rx_rssi = f32_zero, rx_snr = f32_zero\<rparr>, deliver_at = 5\<rparr>"
    by (simp add: rx_ready_def)
  then have "ds = [\<lparr>rde_packet = \<lparr>rx_packet = sample_packet, rx_rssi = f32_zero, rx_snr = f32_zero\<rparr>, deliver_at = 5\<rparr>]"
    using ds by (simp add: b)
  with t out show ?thesis by (simp add: b)
qed

end
