(* ===== verification/Firmware.thy ===== *)
theory Firmware
  imports Responder Loop_Spec Sx1262
begin

text \<open>
  The whole firmware (\<open>boards/rak4631/src/main.rs\<close>): start-up of the radio and the dispatcher with the board's parameters, and the two tasks, the dispatcher
  and the responder, which run interleaved and share two bounded channels and the clock.
\<close>

section \<open>Start-up\<close>

definition radio_config :: RadioConfig where
  "radio_config = \<lparr>frequency_mhz = f32_lit 910525 1000, bandwidth_khz = f32_lit 625 10, spreading_factor = 7, coding_rate = 5,
     tx_power = 20, preamble_symbols = 16\<rparr>"

text \<open>The responder has not started yet, waits for a packet, waits for room in \<open>TX_CHANNEL\<close>, or has panicked.\<close>

datatype task = Booting VolatileRtcClock | Running user | Sending user TxRequest | Panicked

record ('r, 'g, 'w) firmware =
  fw_sys :: "('r, 'g, 'w) system"
  fw_task :: task

text \<open>
  \<open>main\<close> from the clock on: the real-time clock with the build time, a second for the USB stack, the radio (the object \<open>l\<close> the hardware
  set-up returns) configured, whose failure is unwrapped, the dispatcher and the responder task.
\<close>

definition firmware_main ::
    "(('l, 'm, 'p) Sx1262Radio, SimpleRng, 'w) platform \<Rightarrow> ('l, 'm, 'p) lora \<Rightarrow> 'l \<Rightarrow> u32 \<Rightarrow> 'w \<Rightarrow>
      (('l, 'm, 'p) Sx1262Radio, SimpleRng, 'w) firmware option" where
  "firmware_main pf lr l BUILD_EPOCH w =
     (let (now, w) = ck_now (pf_clock pf) w;
          rtc = VolatileRtcClock_new now BUILD_EPOCH;
          w = ck_after (pf_clock pf) (dur_from_millis (pf_time pf) 1000) w;
          radio = Sx1262Radio_new l
      in case sx_configure lr radio_config radio of
           (Inl _, _) \<Rightarrow> None
         | (Inr _, radio) \<Rightarrow>
             let rng = SimpleRng_new 0xDEADBEEF
             in Some \<lparr>fw_sys = start_system pf radio rng DispatcherConfig_default w, fw_task = Booting rtc\<rparr>)"

section \<open>The two tasks\<close>

definition task_outcome ::
    "('r, 'g, 'w) firmware \<Rightarrow> RxPacket list \<Rightarrow> (user \<times> TxRequest option \<times> 'w) option \<Rightarrow> ('r, 'g, 'w) firmware" where
  "task_outcome f rx_out r = (case r of
     None \<Rightarrow> f\<lparr>fw_task := Panicked\<rparr>
   | Some (u, req, w) \<Rightarrow> f\<lparr>fw_sys := (fw_sys f)\<lparr>sy_rx_out := rx_out, sy_clock := w\<rparr>,
       fw_task := (case req of None \<Rightarrow> Running u | Some r \<Rightarrow> Sending u r)\<rparr>)"

text \<open>
  One step of the firmware: of the dispatcher (the top of its loop, or one of the three branches it waits on) or of the responder (its start-up, an
  iteration on a received packet, handing over its request). The executor is cooperative; what the responder does between two
  waits touches nothing of the dispatcher but the channels.
\<close>

inductive firmware_step ::
    "('r, 'g, 'w) platform \<Rightarrow> crypto \<Rightarrow> u32 \<Rightarrow> ('r, 'g, 'w) firmware \<Rightarrow> ('r, 'g, 'w) firmware \<Rightarrow> bool" for pf c BUILD_EPOCH where
  fw_top: "sy_phase (fw_sys f) = Top \<Longrightarrow>
    firmware_step pf c BUILD_EPOCH f (f\<lparr>fw_sys := outcome (fw_sys f) (loop_top pf (fw_sys f))\<rparr>)"
| fw_radio: "sy_phase (fw_sys f) = Waiting wake \<Longrightarrow>
    firmware_step pf c BUILD_EPOCH f (f\<lparr>fw_sys := outcome (fw_sys f) (on_radio pf (fw_sys f))\<rparr>)"
| fw_submission: "sy_phase (fw_sys f) = Waiting wake \<Longrightarrow> ch_try_receive (pf_tx_in pf) (sy_tx_in (fw_sys f)) = Some (req, rest) \<Longrightarrow>
    firmware_step pf c BUILD_EPOCH f (f\<lparr>fw_sys := outcome (fw_sys f) (on_submission pf (fw_sys f) req rest)\<rparr>)"
| fw_timer: "sy_phase (fw_sys f) = Waiting (Some at) \<Longrightarrow> at \<le> ck_time (pf_clock pf) w \<Longrightarrow>
    ck_time (pf_clock pf) (sy_clock (fw_sys f)) \<le> ck_time (pf_clock pf) w \<Longrightarrow>
    firmware_step pf c BUILD_EPOCH f (f\<lparr>fw_sys := (fw_sys f)\<lparr>sy_clock := w, sy_phase := Top\<rparr>\<rparr>)"
| fw_start: "fw_task f = Booting rtc \<Longrightarrow>
    firmware_step pf c BUILD_EPOCH f (task_outcome f (sy_rx_out (fw_sys f)) (user_boot pf c BUILD_EPOCH rtc (sy_clock (fw_sys f))))"
| fw_receive: "fw_task f = Running u \<Longrightarrow> ch_try_receive (pf_rx_out pf) (sy_rx_out (fw_sys f)) = Some (p, rest) \<Longrightarrow>
    firmware_step pf c BUILD_EPOCH f (task_outcome f rest (user_step pf c (u, sy_clock (fw_sys f)) p))"
| fw_send: "fw_task f = Sending u req \<Longrightarrow> ch_try_send (pf_tx_in pf) (pf_TX_Q pf) (sy_tx_in (fw_sys f)) req = Inr tx_in \<Longrightarrow>
    firmware_step pf c BUILD_EPOCH f (f\<lparr>fw_sys := (fw_sys f)\<lparr>sy_tx_in := tx_in\<rparr>, fw_task := Running u\<rparr>)"

inductive firmware_reachable ::
    "('r, 'g, 'w) platform \<Rightarrow> crypto \<Rightarrow> u32 \<Rightarrow> ('r, 'g, 'w) firmware \<Rightarrow> ('r, 'g, 'w) firmware \<Rightarrow> bool" for pf c BUILD_EPOCH f where
  fw_here: "firmware_reachable pf c BUILD_EPOCH f f"
| fw_more: "firmware_reachable pf c BUILD_EPOCH f g \<Longrightarrow> firmware_step pf c BUILD_EPOCH g h \<Longrightarrow> firmware_reachable pf c BUILD_EPOCH f h"

text \<open>The platform of the board: the SX1262 driver, the board's generator, channels and queues of four.\<close>

definition rak_platform :: "('l, 'm, 'p) lora \<Rightarrow> (('l, 'm, 'p) Sx1262Radio, SimpleRng, 'w) platform \<Rightarrow> bool" where
  "rak_platform lr pf \<longleftrightarrow> pf_radio pf = sx1262_radio lr \<and> pf_random pf = simple_random \<and> pf_TX_Q pf = 4 \<and> pf_RX_Q pf = 4"

section \<open>The invariant of the firmware\<close>

definition task_ok :: "('r, 'g, 'w) platform \<Rightarrow> 'w \<Rightarrow> task \<Rightarrow> bool" where
  "task_ok pf w t = (case t of
     Booting rtc \<Rightarrow> base_instant rtc \<le> ck_time (pf_clock pf) w
   | Running u \<Rightarrow> user_ok pf u w
   | Sending u req \<Rightarrow> user_ok pf u w \<and> wf_packet (req_packet req)
   | Panicked \<Rightarrow> False)"

definition fw_inv :: "('r, 'g, 'w) platform \<Rightarrow> ('r \<Rightarrow> bool) \<Rightarrow> ('r, 'g, 'w) firmware \<Rightarrow> bool" where
  "fw_inv pf rinv f \<longleftrightarrow> system_inv pf rinv (fw_sys f) \<and> live pf (fw_sys f) \<and> task_ok pf (sy_clock (fw_sys f)) (fw_task f)"

lemma task_ok_later: "task_ok pf w t \<Longrightarrow> ck_time (pf_clock pf) w \<le> ck_time (pf_clock pf) w' \<Longrightarrow> task_ok pf w' t"
  by (auto simp: task_ok_def intro: user_ok_later order.trans split: task.splits)

lemma outcome_live:
  assumes "live pf s" "\<And>t. r = Some t \<Longrightarrow> live pf t \<and> ck_time (pf_clock pf) (sy_clock s) \<le> ck_time (pf_clock pf) (sy_clock t)"
  shows "live pf (outcome s r) \<and> ck_time (pf_clock pf) (sy_clock s) \<le> ck_time (pf_clock pf) (sy_clock (outcome s r))"
  using assms by (cases r) (auto simp: outcome_def live_def)

text \<open>The start-up and an iteration of the responder return, and what they submit is well formed.\<close>

lemma boot_request:
  assumes "platform_ok pf" "crypto_ok c" "base_instant rtc \<le> ck_time (pf_clock pf) w"
  shows "\<exists>u req w'. user_boot pf c E rtc w = Some (u, Some req, w') \<and> user_ok pf u w' \<and> wf_packet (req_packet req) \<and>
    ck_time (pf_clock pf) w \<le> ck_time (pf_clock pf) w'"
proof -
  from user_boot_total [OF assms, of E] obtain u req w' ts where
    b: "user_boot pf c E rtc w = Some (u, Some req, w')" "user_ok pf u w'" "ck_time (pf_clock pf) w \<le> ck_time (pf_clock pf) w'"
    and "req = \<lparr>req_packet = grp_packet c (us_secret u) (us_hash u) ts (NODE_NAME @ bytes_of '': online''), req_priority = 0, delay_ms = 0\<rparr>"
    by blast
  moreover have "length (us_secret u) = 32" using b(2) by (simp add: user_ok_def)
  ultimately have "wf_packet (req_packet req)" by (simp add: wf_grp_packet assms(2) NODE_NAME_def)
  with b show ?thesis by blast
qed

lemma step_request:
  assumes "platform_ok pf" "crypto_ok c" "user_ok pf u w" "rx_wf p"
  shows "\<exists>u' req w'. user_step pf c (u, w) p = Some (u', req, w') \<and> user_ok pf u' w' \<and>
    (\<forall>x. req = Some x \<longrightarrow> wf_packet (req_packet x)) \<and> ck_time (pf_clock pf) w \<le> ck_time (pf_clock pf) w'"
proof -
  from user_step_cases [OF assms] obtain u' req w' up ts where
    s: "user_step pf c (u, w) p = Some (u', req, w')" "user_ok pf u' w'" "ck_time (pf_clock pf) w \<le> ck_time (pf_clock pf) w'"
    and q: "req = (if packet_hash (sha256 c) (rx_packet p) \<in> set (hashes (us_dedup u)) then None
      else map_option (reply_request c u ts) (answer c u up (rx_packet p)))" by blast
  have "\<forall>x. req = Some x \<longrightarrow> wf_packet (req_packet x)"
    using q assms(3) reply_request_wf [OF assms(2)] by (auto simp: user_ok_def split: if_splits)
  with s show ?thesis by blast
qed

context radio_driver
begin

lemma fw_dispatch_inv:
  assumes f: "fw_inv pf inv f" and r: "\<And>t. r = Some t \<Longrightarrow> system_inv pf inv t \<and> live pf t \<and>
      ck_time (pf_clock pf) (sy_clock (fw_sys f)) \<le> ck_time (pf_clock pf) (sy_clock t)"
  shows "fw_inv pf inv (f\<lparr>fw_sys := outcome (fw_sys f) r\<rparr>)"
  using f outcome_inv [of pf "fw_sys f" r] outcome_live [of pf "fw_sys f" r] r task_ok_later
  by (fastforce simp: fw_inv_def)

lemma fw_task_inv:
  assumes f: "fw_inv pf inv f" and r: "r = Some (u, req, w)" "user_ok pf u w" "ck_time (pf_clock pf) (sy_clock (fw_sys f)) \<le> ck_time (pf_clock pf) w"
    and q: "\<forall>x. req = Some x \<longrightarrow> wf_packet (req_packet x)" and out: "length out \<le> pf_RX_Q pf" "\<forall>p \<in> set out. rx_wf p"
  shows "fw_inv pf inv (task_outcome f out r)"
  using f r q out
  by (auto simp: fw_inv_def task_outcome_def system_inv_def live_def task_ok_def split: option.split)

lemma firmware_step_inv:
  assumes "firmware_step pf c E f g" and pf: "platform_ok pf" "pf_radio pf = rd" and c: "crypto_ok c" and "fw_inv pf inv f"
  shows "fw_inv pf inv g"
  using assms(1,5)
proof (cases rule: firmware_step.cases)
  case fw_top
  have "system_inv pf inv (fw_sys f)" "live pf (fw_sys f)" using assms(5) by (simp_all add: fw_inv_def)
  then show ?thesis
    unfolding fw_top using loop_top_inv [OF pf] loop_top_live [OF pf(1)] by (intro fw_dispatch_inv assms(5)) blast
next
  case (fw_radio wake)
  have "system_inv pf inv (fw_sys f)" "live pf (fw_sys f)" using assms(5) by (simp_all add: fw_inv_def)
  then show ?thesis
    unfolding fw_radio using on_radio_inv [OF pf] on_radio_live [OF pf] by (intro fw_dispatch_inv assms(5)) blast
next
  case (fw_submission wake req rest)
  have "system_inv pf inv (fw_sys f)" "live pf (fw_sys f)" using assms(5) by (simp_all add: fw_inv_def)
  then show ?thesis
    unfolding fw_submission(1) using on_submission_inv [OF pf(1) _ fw_submission(3)] on_submission_live [OF pf(1) _ fw_submission(3)]
    by (intro fw_dispatch_inv assms(5)) blast
next
  case (fw_timer at w)
  then show ?thesis using assms(5) task_ok_later [of pf "sy_clock (fw_sys f)" "fw_task f" w]
    by (auto simp: fw_inv_def system_inv_def live_def)
next
  case (fw_start rtc)
  then have "base_instant rtc \<le> ck_time (pf_clock pf) (sy_clock (fw_sys f))" using assms(5) by (simp add: fw_inv_def task_ok_def)
  from boot_request [OF pf(1) c this, of E] obtain u req w where
    b: "user_boot pf c E rtc (sy_clock (fw_sys f)) = Some (u, Some req, w)" "user_ok pf u w" "wf_packet (req_packet req)"
      "ck_time (pf_clock pf) (sy_clock (fw_sys f)) \<le> ck_time (pf_clock pf) w" by blast
  then show ?thesis
    unfolding fw_start(1) using assms(5) by (intro fw_task_inv [OF assms(5) b(1,2,4)]) (simp_all add: fw_inv_def system_inv_def)
next
  case (fw_receive u p rest)
  then have u: "user_ok pf u (sy_clock (fw_sys f))" using assms(5) by (simp add: fw_inv_def task_ok_def)
  have out: "sy_rx_out (fw_sys f) = p # rest" using fw_receive(3) platform_okD(5) [OF pf(1)] by (auto split: list.splits)
  then have "rx_wf p" using assms(5) by (simp add: fw_inv_def system_inv_def)
  from step_request [OF pf(1) c u this] obtain u' req w where
    s: "user_step pf c (u, sy_clock (fw_sys f)) p = Some (u', req, w)" "user_ok pf u' w"
      "\<forall>x. req = Some x \<longrightarrow> wf_packet (req_packet x)" "ck_time (pf_clock pf) (sy_clock (fw_sys f)) \<le> ck_time (pf_clock pf) w" by blast
  then show ?thesis
    unfolding fw_receive(1) using assms(5) out by (intro fw_task_inv [OF assms(5) s(1,2,4)]) (simp_all add: fw_inv_def system_inv_def)
next
  case (fw_send u req tx_in)
  then show ?thesis using assms(5) platform_okD(4) [OF pf(1)]
    by (auto simp: fw_inv_def system_inv_def live_def task_ok_def split: if_splits)
qed

end

lemma firmware_main_inv:
  assumes pf: "platform_ok pf" "rak_platform lr pf" and l: "lora_ok lr" and m: "firmware_main pf lr l E w = Some f"
  shows "fw_inv pf (\<lambda>_. lora_ok lr) f"
proof -
  note ck = platform_okD(7) [OF pf(1)]
  obtain now w1 where n: "ck_now (pf_clock pf) w = (now, w1)" by fastforce
  let ?w2 = "ck_after (pf_clock pf) (dur_from_millis (pf_time pf) 1000) w1"
  have b: "now \<le> ck_time (pf_clock pf) ?w2"
    using clock_okD(1) [OF ck n] clock_ok_after [OF ck, of w1] saturating_add_ge by (metis order.trans)
  obtain r where f: "f = \<lparr>fw_sys = start_system pf r (SimpleRng_new 0xDEADBEEF) DispatcherConfig_default ?w2,
      fw_task = Booting (VolatileRtcClock_new now E)\<rparr>"
    using m n by (auto simp: firmware_main_def Let_def split: prod.splits sum.splits)
  have "(120 :: u64) \<le> dur_as_millis (pf_time pf) (dur_from_millis (pf_time pf) 120)"
    using time_okD(8) [OF platform_okD(6) [OF pf(1)], of 120] by simp
  then have "dur_from_millis (pf_time pf) 120 \<noteq> 0"
    using time_okD(5) [OF platform_okD(6) [OF pf(1)]] by auto
  then have "0 < dur_from_millis (pf_time pf) 120" by (simp add: word_greater_zero_iff)
  moreover have "last_refill (DutyCycleTracker_new (pf_time pf) DispatcherConfig_default) = 0"
    using time_okD(4) [OF platform_okD(6) [OF pf(1)]] by (simp add: DutyCycleTracker_new_def Let_def)
  ultimately have "live pf (fw_sys f)"
    by (simp add: f live_def start_system_def Dispatcher_new_def TxQueue_new_def DispatcherConfig_default_def)
  moreover have "system_inv pf (\<lambda>_. lora_ok lr) (fw_sys f)"
    unfolding f by (simp add: start_system_inv l)
  ultimately show ?thesis
    using b by (simp add: fw_inv_def f task_ok_def VolatileRtcClock_new_def start_system_def)
qed

lemma firmware_reachable_inv:
  assumes "firmware_reachable pf c E f g" "platform_ok pf" "rak_platform lr pf" "crypto_ok c" "fw_inv pf (\<lambda>_. lora_ok lr) f"
  shows "fw_inv pf (\<lambda>_. lora_ok lr) g"
  using assms
proof (induction rule: firmware_reachable.induct)
  case (fw_more g h)
  then show ?case using sx.firmware_step_inv [OF fw_more(2,4) _ fw_more(6)] by (simp add: rak_platform_def)
qed

lemma firmware_step_progress:
  assumes pf: "platform_ok pf" "rak_platform lr pf" and f: "fw_inv pf (\<lambda>_. lora_ok lr) f" "sy_phase (fw_sys f) \<noteq> Stopped"
    and t: "time_left pf 7 (sy_clock (fw_sys f))" and s: "firmware_step pf c E f g"
  shows "sy_phase (fw_sys g) \<noteq> Stopped"
proof -
  have r: "pf_radio pf = sx1262_radio lr" "random_source (pf_random pf)"
    using pf(2) simple_rng.random_source_axioms by (simp_all add: rak_platform_def)
  have i: "system_inv pf (\<lambda>_. lora_ok lr) (fw_sys f)" "live pf (fw_sys f)" using f(1) by (simp_all add: fw_inv_def)
  have "length (sy_tx_in (fw_sys f)) \<le> 4" using i(1) pf(2) by (simp add: system_inv_def rak_platform_def)
  then have tl: "time_left pf (length (sy_tx_in (fw_sys f)) + 3) (sy_clock (fw_sys f))" "time_left pf 1 (sy_clock (fw_sys f))"
    by (intro time_left_mono [OF t]; simp)+
  show ?thesis
    using s
  proof (cases rule: firmware_step.cases)
    case fw_top
    from radio_driver.loop_top_total [OF sx.radio_driver_axioms pf(1) r i tl(1)] obtain x where "loop_top pf (fw_sys f) = Some x" by blast
    moreover from this have "sy_phase x \<noteq> Stopped" by (auto elim: loop_topE)
    ultimately show ?thesis by (simp add: fw_top(1) outcome_def)
  next
    case (fw_radio wake)
    from radio_driver.on_radio_total [OF sx.radio_driver_axioms pf(1) r(1) i(1) tl(2)] obtain x where x: "on_radio pf (fw_sys f) = Some x" by blast
    then have "sy_phase x \<noteq> Stopped" by (auto simp: on_radio_def bind_eq_Some_conv)
    with x show ?thesis by (simp add: fw_radio(1) outcome_def)
  next
    case (fw_submission wake req rest)
    from on_submission_total [OF pf(1) tl(2)] obtain x where x: "on_submission pf (fw_sys f) req rest = Some x" by blast
    then have "sy_phase x \<noteq> Stopped" by (auto simp: on_submission_def bind_eq_Some_conv split: prod.splits)
    with x show ?thesis by (simp add: fw_submission(1) outcome_def)
  next
    case (fw_start rtc)
    with f(2) show ?thesis by (auto simp: task_outcome_def split: option.split)
  next
    case (fw_receive u p rest)
    with f(2) show ?thesis by (auto simp: task_outcome_def split: option.split)
  qed (use f(2) in auto)
qed

section \<open>Properties\<close>

text \<open>
  C3: The firmware never panics: in every state the two tasks can reach together from start-up, whatever is received and whatever the clock, the channel and the
  other nodes do, the responder has not panicked, and as long as the tick counter leaves room for one more delay, no step of the dispatcher
  panics either (neither an index, nor a buffer, nor an instant or duration out of range).
\<close>
theorem firmware_never_panics:
  assumes "platform_ok pf" "rak_platform lr pf" "lora_ok lr" "crypto_ok c"
    and "firmware_main pf lr l E w = Some f0" "firmware_reachable pf c E f0 f"
  shows "fw_task f \<noteq> Panicked \<and>
    (\<forall>g. time_left pf 7 (sy_clock (fw_sys f)) \<and> sy_phase (fw_sys f) \<noteq> Stopped \<and> firmware_step pf c E f g \<longrightarrow>
      sy_phase (fw_sys g) \<noteq> Stopped)"
proof -
  have i: "fw_inv pf (\<lambda>_. lora_ok lr) f"
    by (rule firmware_reachable_inv [OF assms(6,1,2,4) firmware_main_inv [OF assms(1-3,5)]])
  then have "fw_task f \<noteq> Panicked" by (auto simp: fw_inv_def task_ok_def)
  then show ?thesis using firmware_step_progress [OF assms(1,2) i] by blast
qed


text \<open>A board for the witness: a transceiver that takes every setting, the demonstration clock.\<close>

definition demo_lora :: "(unit, unit, unit) lora" where
  "demo_lora = toy_lora\<lparr>create_rx_packet_params := (\<lambda>_ _ _ _ _ _ l. (Inr (), l))\<rparr>"

definition demo_board :: "((unit, unit, unit) Sx1262Radio, SimpleRng, instant \<times> nat) platform" where
  "demo_board = \<lparr>pf_radio = sx1262_radio demo_lora, pf_random = simple_random, pf_bytes = list_heapless,
     pf_tx = list_heapless, pf_rx = list_heapless, pf_tx_in = list_channel, pf_rx_out = list_channel,
     pf_time = ms_time, pf_clock = demo_clock, pf_TX_Q = 4, pf_RX_Q = 4\<rparr>"

lemma demo_board_ok: "platform_ok demo_board" "rak_platform demo_lora demo_board" "lora_ok demo_lora"
  using toy_lora_ok
  by (simp_all add: platform_ok_def rak_platform_def demo_board_def demo_clock_ok lora_ok_def demo_lora_def)

lemma demo_board_simps [simp]:
  "pf_time demo_board = ms_time" "pf_clock demo_board = demo_clock"
  "ck_after demo_clock d (t, k) = (saturating_add t d, k)" "ck_time demo_clock (t, k) = t"
  "ck_now demo_clock (t, k) = (if k \<ge> 3 then (saturating_add t 1, (saturating_add t 1, 0)) else (t, (t, k + 1)))"
  by (simp_all add: demo_board_def demo_clock_def)

lemma demo_board_main:
  "\<exists>r. firmware_main demo_board demo_lora () 1000 (0, 0) =
    Some \<lparr>fw_sys = start_system demo_board r (SimpleRng_new 0xDEADBEEF) DispatcherConfig_default (1000, 1),
      fw_task = Booting (VolatileRtcClock_new 0 1000)\<rparr>"
proof -
  obtain r where "sx_configure demo_lora radio_config (Sx1262Radio_new ()) = (Inr (), r)"
    by (simp add: sx_configure_def demo_lora_def toy_lora_def Let_def)
  then show ?thesis by (auto simp: firmware_main_def saturating_add_def Let_def)
qed

lemma firmware_never_panics_witness:
  "\<exists>f0 g. firmware_main demo_board demo_lora () 1000 (0, 0) = Some f0 \<and> firmware_step demo_board demo_crypto 1000 f0 g \<and>
    sy_phase (fw_sys g) \<noteq> Stopped"
proof -
  obtain r where m: "firmware_main demo_board demo_lora () 1000 (0, 0) =
    Some \<lparr>fw_sys = start_system demo_board r (SimpleRng_new 0xDEADBEEF) DispatcherConfig_default (1000, 1),
      fw_task = Booting (VolatileRtcClock_new 0 1000)\<rparr>" (is "_ = Some ?f0")
    using demo_board_main by blast
  have p: "sy_phase (fw_sys ?f0) = Top" "sy_clock (fw_sys ?f0) = (1000, 1)" by (simp_all add: start_system_def)
  then obtain g where g: "firmware_step demo_board demo_crypto 1000 ?f0 g" using firmware_step.fw_top by blast
  have "time_left demo_board 7 (1000, 1)" by (rule demo_time_left) simp_all
  with firmware_never_panics [OF demo_board_ok demo_crypto_ok m fw_here] g p have "sy_phase (fw_sys g) \<noteq> Stopped" by auto
  with m g show ?thesis by blast
qed

end
