(* ===== verification/On_Air.thy ===== *)
theory On_Air
  imports Firmware Loop_Spec
begin

text \<open>
  The way of a command through the whole firmware (\<open>boards/rak4631/src/main.rs\<close> and \<open>crates/meshcore-dispatch/src/dispatcher.rs\<close>
  together): from the frame the radio receives over the channel to the responder, its answer, the channel back and the transmit queue, to the frame handed to the radio.
\<close>

section \<open>From the air to the air\<close>

text \<open>Nothing is on its way: the dispatcher waits, its queues and the channels are empty.\<close>

definition quiet :: "('r, 'g, 'w) system \<Rightarrow> bool" where
  "quiet s \<longleftrightarrow> sy_phase s = Waiting None \<and> sy_tx_in s = [] \<and> sy_rx_out s = [] \<and>
     tx_entries (dp_tx_queue (sy_dp s)) = [] \<and> rx_entries (dp_rx_delay_queue (sy_dp s)) = []"

lemma handle_rx_now:
  assumes pf: "platform_ok pf" and len: "rr_len rr \<le> length buf" and p: "decode_packet (take (rr_len rr) buf) = Some p"
    and delay: "rx_delay_of pf d rr p = None"
  shows "handle_rx pf (Inr rr) buf (d, out, w) = Some (d\<lparr>dp_stats := count_received (packet_is_flood p) (dp_stats d)\<rparr>,
    if length out < pf_RX_Q pf then out @ [received rr p] else out, w)"
proof -
  have "rx_delay_of pf (d\<lparr>dp_stats := st\<rparr>) rr p = None" for st using delay by (auto simp: rx_delay_of_def split: if_splits)
  with p show ?thesis by (simp add: handle_rx_eq [OF pf len] Let_def)
qed

lemma firmware_answers:
  assumes pf: "platform_ok pf" "0 < pf_TX_Q pf" "0 < pf_RX_Q pf" and rd: "radio_driver (pf_radio pf) rinv" "random_source (pf_random pf)"
    and c: "crypto_ok c" and f: "fw_inv pf rinv f" "quiet (fw_sys f)" "fw_task f = Running u"
    and rc: "rd_recv (pf_radio pf) (sy_buf (fw_sys f)) (dp_radio (sy_dp (fw_sys f))) = Some (Inr rr, buf, r0)"
    and p: "decode_packet (take (rr_len rr) buf) = Some p" "rx_delay_of pf ((sy_dp (fw_sys f))\<lparr>dp_radio := r0\<rparr>) rr p = None"
    and new: "packet_hash (sha256 c) p \<notin> set (hashes (us_dedup u))" and a: "\<And>up. answer c u up p = Some (t up)"
    and aff: "\<And>ts up. affordable pf (dp_duty_cycle (sy_dp (fw_sys f))) (wire_len (req_packet (reply_request c u ts (t up))))"
    and tl: "time_left pf 6 (sy_clock (fw_sys f))"
  shows "\<exists>g up ts r. firmware_reachable pf c E f g \<and>
    dp_radio (sy_dp (fw_sys g)) = snd (rd_send (pf_radio pf) (wire_bytes (req_packet (reply_request c u ts (t up)))) r) \<and>
    tx_entries (dp_tx_queue (sy_dp (fw_sys g))) = []"
proof -
  let ?s = "fw_sys f" and ?w = "sy_clock (fw_sys f)"
  let ?d = "(sy_dp ?s)\<lparr>dp_radio := r0\<rparr>"
  note step_inv = radio_driver.firmware_step_inv [OF rd(1) _ pf(1) refl c]
  have s: "system_inv pf rinv ?s" "live pf ?s" using f(1) by (simp_all add: fw_inv_def)
  then have "rinv (dp_radio (sy_dp ?s))" "length (sy_buf ?s) = MAX_TRANS_UNIT" by (simp_all add: system_inv_def dispatcher_inv_def)
  from radio_driver.recv_ok [OF rd(1) this] rc have len: "rr_len rr \<le> length buf" by auto
  let ?s1 = "?s\<lparr>sy_dp := ?d\<lparr>dp_stats := count_received (packet_is_flood p) (dp_stats ?d)\<rparr>, sy_rx_out := [received rr p],
    sy_buf := buf, sy_phase := Top\<rparr>"
  have "on_radio pf ?s = Some ?s1"
    using rc handle_rx_now [OF pf(1) len p, of "[]" ?w] f(2) pf(3) by (simp add: on_radio_def quiet_def)
  then have st1: "firmware_step pf c E f (f\<lparr>fw_sys := ?s1\<rparr>)" (is "firmware_step pf c E f ?f1")
    using fw_radio [of f None pf c E] f(2) by (simp add: quiet_def outcome_def)
  note i1 = step_inv [OF st1 f(1)]
  have u: "user_ok pf u ?w" using f(1,3) by (simp add: fw_inv_def task_ok_def)
  have wf: "rx_wf (received rr p)" using i1 by (simp add: fw_inv_def system_inv_def)
  from user_step_new [OF pf(1) c u wf] new a obtain up ts u' n where
    us: "user_step pf c (u, ?w) (received rr p) = Some (u', Some (reply_request c u ts (t up)), reads (pf_clock pf) n ?w)" and n: "n \<le> 2"
    by (fastforce simp: received_def)
  let ?req = "reply_request c u ts (t up)" and ?w' = "reads (pf_clock pf) n ?w"
  let ?s2 = "?s1\<lparr>sy_rx_out := [], sy_clock := ?w'\<rparr>"
  have st2: "firmware_step pf c E ?f1 (?f1\<lparr>fw_sys := ?s2, fw_task := Sending u' ?req\<rparr>)" (is "firmware_step pf c E _ ?f2")
    using fw_receive [of ?f1 u pf "received rr p" "[]" c E] f(3) us platform_okD(5) [OF pf(1)] by (simp add: task_outcome_def)
  note i2 = step_inv [OF st2 i1]
  let ?s3 = "?s2\<lparr>sy_tx_in := [?req]\<rparr>"
  have st3: "firmware_step pf c E ?f2 (?f2\<lparr>fw_sys := ?s3, fw_task := Running u'\<rparr>)" (is "firmware_step pf c E _ ?f3")
    using fw_send [of ?f2 u' ?req pf "[?req]" c E] f(2) platform_okD(4) [OF pf(1)] pf(2) by (simp add: quiet_def)
  note i3 = step_inv [OF st3 i2]
  have s3: "system_inv pf rinv ?s3" "live pf ?s3" using i3 by (simp_all add: fw_inv_def)
  have tl3: "time_left pf 4 (sy_clock ?s3)"
    using time_left_reads [of pf n 4 ?w] time_left_mono [OF tl, of "n + 4"] n by simp
  from loop_top_sends [OF rd pf(1,2) s3 _ _ _ _ tl3, of ?req] f(2) aff obtain x r where
    lt: "loop_top pf ?s3 = Some x" "dp_radio (sy_dp x) = snd (rd_send (pf_radio pf) (wire_bytes (req_packet ?req)) r)"
      "tx_entries (dp_tx_queue (sy_dp x)) = []"
    by (fastforce simp: quiet_def reply_request_def)
  have st4: "firmware_step pf c E ?f3 (?f3\<lparr>fw_sys := x\<rparr>)" (is "firmware_step pf c E _ ?f4")
    using fw_top [of ?f3 pf c E] lt(1) by (simp add: outcome_def)
  have "firmware_reachable pf c E f ?f4"
    by (intro fw_more [OF _ st4] fw_more [OF _ st3] fw_more [OF _ st2] fw_more [OF _ st1] fw_here)
  with lt show ?thesis by (intro exI [of _ ?f4]) auto
qed


section \<open>Properties\<close>

text \<open>
  C4: A command received on the channel is answered on the air: when the firmware is at rest and the radio receives a new packet that asks for a text and is not held
  back, and the budget allows the reply, then the two tasks together can hand exactly the wire image of the encrypted reply to the radio, and nothing is left in the
  transmit queue.
\<close>
theorem command_answered_on_air:
  assumes "platform_ok pf" "0 < pf_TX_Q pf" "0 < pf_RX_Q pf" "radio_driver (pf_radio pf) rinv" "random_source (pf_random pf)" "crypto_ok c"
    and "fw_inv pf rinv f" "quiet (fw_sys f)" "fw_task f = Running u"
    and "rd_recv (pf_radio pf) (sy_buf (fw_sys f)) (dp_radio (sy_dp (fw_sys f))) = Some (Inr rr, buf, r0)"
    and "decode_packet (take (rr_len rr) buf) = Some p" "rx_delay_of pf ((sy_dp (fw_sys f))\<lparr>dp_radio := r0\<rparr>) rr p = None"
    and "packet_hash (sha256 c) p \<notin> set (hashes (us_dedup u))" "\<forall>up. answer c u up p = Some (t up)"
    and "\<forall>ts up. affordable pf (dp_duty_cycle (sy_dp (fw_sys f))) (wire_len (req_packet (reply_request c u ts (t up))))"
    and "time_left pf 6 (sy_clock (fw_sys f))"
  shows "\<exists>g up ts r. firmware_reachable pf c E f g \<and>
    dp_radio (sy_dp (fw_sys g)) = snd (rd_send (pf_radio pf) (wire_bytes (req_packet (reply_request c u ts (t up)))) r) \<and>
    tx_entries (dp_tx_queue (sy_dp (fw_sys g))) = []"
  by (rule firmware_answers [OF assms(1-13)]) (use assms(14-16) in auto)

text \<open>The demonstration platform at rest, with the command \<open>!ping\<close> in the air.\<close>

definition demo_ping_fw :: "(MockRadio, MockRng, instant \<times> nat) firmware" where
  "demo_ping_fw = \<lparr>fw_sys = \<lparr>sy_dp = demo_dispatcher\<lparr>dp_radio := MockRadio_new\<lparr>mk_recv_queue :=
         [(wire_bytes (rx_packet (demo_rx ''abcd: !ping'')), f32_zero, f32_lit 20 1)]\<rparr>\<rparr>,
       sy_tx_in = [], sy_rx_out = [], sy_buf = replicate MAX_TRANS_UNIT 0, sy_clock = (0, 0), sy_phase = Waiting None\<rparr>,
     fw_task = Running demo_user\<rparr>"

lemma demo_ping_wire: "length (wire_bytes (rx_packet (demo_rx ''abcd: !ping''))) = 21"
  by code_simp

lemma demo_ping_fw_inv: "fw_inv (demo_platform 4 4) (\<lambda>r. containers_ok list_containers \<and> mock_ok r) demo_ping_fw"
  using demo_user_ok demo_ping_wire default_tracker
  by (simp add: fw_inv_def system_inv_def dispatcher_inv_def live_def task_ok_def demo_ping_fw_def demo_dispatcher_def Dispatcher_new_def
      TxQueue_new_def RxDelayQueue_new_def demo_platform_def demo_clock_def MockRadio_new_def mock_ok_def DispatcherConfig_default_def MAX_TRANS_UNIT_def
      duty_inv_def)

lemma demo_ping_affordable:
  "affordable (demo_platform 4 4) (dp_duty_cycle (sy_dp (fw_sys demo_ping_fw))) (wire_len (req_packet (reply_request demo_crypto demo_user ts t)))"
  using mock_affordable wf_wire_len_le [OF reply_request_wf [OF demo_crypto_ok, of demo_user ts t]]
  by (simp add: affordable_def demo_ping_fw_def demo_dispatcher_def Dispatcher_new_def demo_platform_def mock_radio_def)

lemma command_answered_on_air_witness:
  "\<exists>g ts r. firmware_reachable (demo_platform 4 4) demo_crypto 1000 demo_ping_fw g \<and>
    dp_radio (sy_dp (fw_sys g)) = snd (mock_send list_containers
      (wire_bytes (req_packet (reply_request demo_crypto demo_user ts (bytes_of ''rak4631: pong'')))) r) \<and>
    tx_entries (dp_tx_queue (sy_dp (fw_sys g))) = []"
proof -
  let ?pf = "demo_platform 4 4" and ?p = "rx_packet (demo_rx ''abcd: !ping'')"
  let ?rr = "\<lparr>rr_len = 21, rr_rssi = f32_zero, rr_snr = f32_lit 20 1\<rparr>" and ?buf = "wire_bytes ?p @ replicate 234 0"
  have rd: "radio_driver (pf_radio ?pf) (\<lambda>r. containers_ok list_containers \<and> mock_ok r)" "random_source (pf_random ?pf)"
    using mock.radio_driver_axioms [of list_containers] mock_rng.random_source_axioms by (simp_all add: demo_platform_def)
  have n: "0 < pf_TX_Q ?pf" "0 < pf_RX_Q ?pf" by (simp_all add: demo_platform_def)
  have q: "quiet (fw_sys demo_ping_fw)" "fw_task demo_ping_fw = Running demo_user"
    by (simp_all add: quiet_def demo_ping_fw_def demo_dispatcher_def Dispatcher_new_def TxQueue_new_def RxDelayQueue_new_def)
  have rc: "rd_recv (pf_radio ?pf) (sy_buf (fw_sys demo_ping_fw)) (dp_radio (sy_dp (fw_sys demo_ping_fw))) =
      Some (Inr ?rr, ?buf, MockRadio_new)"
    using demo_ping_wire
    by (simp add: demo_platform_def mock_radio_def mock_recv_def demo_ping_fw_def demo_dispatcher_def Dispatcher_new_def copy_at_def MAX_TRANS_UNIT_def
        list_containers_def list_deque_def MockRadio_new_def)
  have wf: "wf_packet ?p" "snr ?p = 0" using demo_rx_wf [of "''abcd: !ping''"] by (simp_all add: rx_wf_def demo_rx_def grp_packet_def Packet_new_def)
  have p: "decode_packet (take (rr_len ?rr) ?buf) = Some ?p"
    using wire.decode_encode [OF conjI [OF wf]] demo_ping_wire by simp
  have delay: "rx_delay_of ?pf ((sy_dp (fw_sys demo_ping_fw))\<lparr>dp_radio := MockRadio_new\<rparr>) ?rr ?p = None"
  proof -
    have "calc_rx_delay (f32_lit 20 1) 42 DispatcherConfig_default = None" by code_simp
    then show ?thesis
      by (simp add: rx_delay_of_def demo_platform_def mock_radio_def mock_estimate_airtime_ms_def demo_ping_fw_def demo_dispatcher_def Dispatcher_new_def)
  qed
  have tl: "time_left ?pf 6 (sy_clock (fw_sys demo_ping_fw))"
  proof -
    have "unat (ck_time demo_clock (reads demo_clock n (0, 0))) < 18446744069414584321" if "n \<le> 6" for n
      using demo_reads [of n 0 0] that by simp
    then show ?thesis
      by (auto simp: time_left_def demo_platform_def demo_ping_fw_def unsigned_ucast_eq unsigned_minus_1_eq_mask mask_eq_exp_minus_1)
  qed
  from command_answered_on_air [OF demo_platform_ok n rd demo_crypto_ok demo_ping_fw_inv q rc p delay demo_ping_fresh _ _ tl, of "\<lambda>_. bytes_of ''rak4631: pong''" 1000]
    demo_ping demo_ping_affordable
  have "\<exists>g up ts r. firmware_reachable ?pf demo_crypto 1000 demo_ping_fw g \<and>
    dp_radio (sy_dp (fw_sys g)) = snd (rd_send (pf_radio ?pf)
      (wire_bytes (req_packet (reply_request demo_crypto demo_user ts (bytes_of ''rak4631: pong'')))) r) \<and>
    tx_entries (dp_tx_queue (sy_dp (fw_sys g))) = []" by blast
  moreover have "rd_send (pf_radio ?pf) = mock_send list_containers" by (simp add: demo_platform_def mock_radio_def)
  ultimately show ?thesis by auto
qed

end
