(* ===== verification/Identity.thy ===== *)
theory Identity
  imports Constants Fmt
begin

text \<open>
  \<open>crates/meshcore-core/src/identity.rs\<close>: public keys, the one-byte path hashes nodes are named by in routing paths, and the local signing identity.
  Ed25519 (crate \<open>ed25519_dalek\<close>) is third-party code and a record parameter; its keys and signatures are opaque types, its \<open>from_bytes\<close> of a
  verifying key may refuse the bytes.
\<close>

section \<open>The parameter ed25519-dalek\<close>

record ('sk, 'vk) ed25519 =
  signing_key_from_bytes :: "u8 list \<Rightarrow> 'sk"
  verifying_key :: "'sk \<Rightarrow> 'vk"
  verifying_key_to_bytes :: "'vk \<Rightarrow> u8 list"
  verifying_key_from_bytes :: "u8 list \<Rightarrow> 'vk option"
  ed_sign :: "'sk \<Rightarrow> u8 list \<Rightarrow> u8 list"
  ed_verify :: "'vk \<Rightarrow> u8 list \<Rightarrow> u8 list \<Rightarrow> bool"

text \<open>
  The documented behaviour: keys and signatures have their fixed sizes, a key survives its encoding, and a signature verifies under the
  key of its signer.
\<close>

definition ed25519_ok :: "('sk, 'vk) ed25519 \<Rightarrow> bool" where
  "ed25519_ok ed \<longleftrightarrow>
     (\<forall>vk. length (verifying_key_to_bytes ed vk) = PUB_KEY_SIZE) \<and>
     (\<forall>vk. verifying_key_from_bytes ed (verifying_key_to_bytes ed vk) = Some vk) \<and>
     (\<forall>sk m. length (ed_sign ed sk m) = SIGNATURE_SIZE) \<and>
     (\<forall>sk m. ed_verify ed (verifying_key ed sk) m (ed_sign ed sk m))"

section \<open>Public keys\<close>

text \<open>The array of a \<open>PublicKey\<close> has 32 bytes; \<open>PathHash\<close> wraps one.\<close>

datatype PathHash = PathHash u8

datatype PublicKey = PublicKey "u8 list"

fun key_bytes :: "PublicKey \<Rightarrow> u8 list" where
  "key_bytes (PublicKey bs) = bs"

definition path_hash :: "PublicKey \<Rightarrow> PathHash option" where
  "path_hash k = do { b \<leftarrow> idx (key_bytes k) 0; Some (PathHash b) }"

definition is_hash_match :: "PublicKey \<Rightarrow> u8 list \<Rightarrow> bool option" where
  "is_hash_match k hash =
     (if hash = [] \<or> length hash > length (key_bytes k) then Some False
      else do {
        prefix \<leftarrow> slice (key_bytes k) 0 (length hash);
        Some (prefix = hash)
      })"

definition verify :: "('sk, 'vk) ed25519 \<Rightarrow> PublicKey \<Rightarrow> u8 list \<Rightarrow> u8 list \<Rightarrow> bool" where
  "verify ed k msg signature =
     (case verifying_key_from_bytes ed (key_bytes k) of
        None \<Rightarrow> False
      | Some vk \<Rightarrow> ed_verify ed vk msg signature)"

text \<open>The \<open>Debug\<close> text.\<close>

definition PublicKey_fmt :: "PublicKey \<Rightarrow> string option" where
  "PublicKey_fmt k = do {
     b0 \<leftarrow> idx (key_bytes k) 0;
     b1 \<leftarrow> idx (key_bytes k) 1;
     b30 \<leftarrow> idx (key_bytes k) 30;
     b31 \<leftarrow> idx (key_bytes k) 31;
     Some (''PublicKey('' @ fmt_02x b0 @ fmt_02x b1 @ ''..'' @ fmt_02x b30 @ fmt_02x b31 @ '')'')
   }"

section \<open>The local identity\<close>

record 'sk LocalIdentity =
  signing_key :: 'sk

definition LocalIdentity_from_bytes :: "('sk, 'vk) ed25519 \<Rightarrow> u8 list \<Rightarrow> 'sk LocalIdentity" where
  "LocalIdentity_from_bytes ed secret = \<lparr>signing_key = signing_key_from_bytes ed secret\<rparr>"

definition public_key :: "('sk, 'vk) ed25519 \<Rightarrow> 'sk LocalIdentity \<Rightarrow> PublicKey" where
  "public_key ed i = PublicKey (verifying_key_to_bytes ed (verifying_key ed (signing_key i)))"

definition identity_path_hash :: "('sk, 'vk) ed25519 \<Rightarrow> 'sk LocalIdentity \<Rightarrow> PathHash option" where
  "identity_path_hash ed i = path_hash (public_key ed i)"

definition sign :: "('sk, 'vk) ed25519 \<Rightarrow> 'sk LocalIdentity \<Rightarrow> u8 list \<Rightarrow> u8 list" where
  "sign ed i msg = ed_sign ed (signing_key i) msg"

section \<open>Facts\<close>

lemma is_hash_match_iff:
  "is_hash_match k hash = Some (hash \<noteq> [] \<and> (\<exists>rest. key_bytes k = hash @ rest))"
proof (cases "hash = [] \<or> length hash > length (key_bytes k)")
  case True
  then show ?thesis by (auto simp: is_hash_match_def)
next
  case False
  then have "take (length hash) (key_bytes k) = hash \<longleftrightarrow> (\<exists>rest. key_bytes k = hash @ rest)"
    by (metis append_eq_conv_conj append_take_drop_id)
  with False show ?thesis by (simp add: is_hash_match_def slice_def)
qed

lemma public_key_length: "ed25519_ok ed \<Longrightarrow> length (key_bytes (public_key ed i)) = 32"
  by (simp add: ed25519_ok_def public_key_def PUB_KEY_SIZE_def)

text \<open>The text shows the first two and the last two bytes of the key, and they can be read back from it.\<close>

definition shows_key :: "string \<Rightarrow> u8 list \<Rightarrow> bool" where
  "shows_key s bs \<longleftrightarrow> (\<exists>x y. s = ''PublicKey('' @ x @ ''..'' @ y @ '')'' \<and> unhex x = Some (take 2 bs) \<and> unhex y = Some (drop 30 bs))"

lemma PublicKey_fmt_shows:
  assumes "length (key_bytes k) = 32" shows "\<exists>s. PublicKey_fmt k = Some s \<and> shows_key s (key_bytes k)"
proof -
  let ?bs = "key_bytes k" and ?x = "fmt_02x (key_bytes k ! 0) @ fmt_02x (key_bytes k ! 1)"
  let ?y = "fmt_02x (key_bytes k ! 30) @ fmt_02x (key_bytes k ! 31)"
  have "take 2 ?bs = [?bs ! 0, ?bs ! 1]" "drop 30 ?bs = [?bs ! 30, ?bs ! 31]"
    using assms by (auto intro!: nth_equalityI simp: less_Suc_eq numeral_2_eq_2 nth_Cons')
  then have "unhex ?x = Some (take 2 ?bs)" "unhex ?y = Some (drop 30 ?bs)"
    using unhex_fmt_02x [of "?bs ! 1" "[]"] unhex_fmt_02x [of "?bs ! 31" "[]"] by simp_all
  moreover have "PublicKey_fmt k = Some (''PublicKey('' @ ?x @ ''..'' @ ?y @ '')'')" using assms by (simp add: PublicKey_fmt_def)
  ultimately show ?thesis unfolding shows_key_def by blast
qed

text \<open>Verification decides as the signer's own verifying key does.\<close>

lemma verify_public_key:
  "ed25519_ok ed \<Longrightarrow> verify ed (public_key ed i) msg s = ed_verify ed (verifying_key ed (signing_key i)) msg s"
  by (simp add: verify_def public_key_def ed25519_ok_def)

lemma path_hash_first: "key_bytes k = b # bs \<Longrightarrow> path_hash k = Some (PathHash b)"
  by (simp add: path_hash_def)

lemma verify_own: "ed25519_ok ed \<Longrightarrow> verify ed (public_key ed i) msg (sign ed i msg)"
  by (simp add: verify_def public_key_def sign_def ed25519_ok_def)

lemma PublicKey_key_bytes [simp]: "PublicKey (key_bytes k) = k"
  by (cases k) simp

section \<open>Properties\<close>

text \<open>
  C35: An identity and its public key agree, and no operation panics. The path hash of the identity and of its key are the same; a key of the right size matches it exactly
  when it has the same path hash, and matches exactly its own nonempty prefixes; the key, also after it has travelled as bytes, verifies what the verifying key of
  the identity verifies and nothing else, among it all signatures of the identity; and the debug text shows the first two and the last two bytes of the key, which can be
  read back from it.
\<close>
theorem identity_consistent:
  assumes "ed25519_ok ed" "k = public_key ed i" "length (key_bytes j) = PUB_KEY_SIZE"
  shows "(\<exists>b. identity_path_hash ed i = Some (PathHash b) \<and> path_hash k = Some (PathHash b) \<and>
      is_hash_match j [b] = Some (path_hash j = path_hash k)) \<and>
    (\<forall>hash. is_hash_match k hash = Some (hash \<noteq> [] \<and> (\<exists>rest. key_bytes k = hash @ rest))) \<and>
    (\<forall>msg s. verify ed (PublicKey (key_bytes k)) msg s = ed_verify ed (verifying_key ed (signing_key i)) msg s) \<and>
    (\<forall>msg. length (sign ed i msg) = SIGNATURE_SIZE \<and> verify ed k msg (sign ed i msg)) \<and>
    (\<exists>s. PublicKey_fmt k = Some s \<and> shows_key s (key_bytes k))"
proof -
  have l: "length (key_bytes k) = 32" using public_key_length [OF assms(1)] assms(2) by simp
  then obtain b bs where b: "key_bytes k = b # bs" by (cases "key_bytes k") auto
  obtain c cs where c: "key_bytes j = c # cs" using assms(3) by (cases "key_bytes j") (auto simp: PUB_KEY_SIZE_def)
  have "is_hash_match j [b] = Some (path_hash j = path_hash k)" "path_hash k = Some (PathHash b)"
    by (auto simp: is_hash_match_iff b c path_hash_first)
  moreover have "length (sign ed i msg) = SIGNATURE_SIZE" for msg using assms(1) by (simp add: ed25519_ok_def sign_def)
  ultimately show ?thesis
    using PublicKey_fmt_shows [OF l] is_hash_match_iff [of k] verify_own [OF assms(1), of i] verify_public_key [OF assms(1), of i] assms(2)
    by (simp add: identity_path_hash_def)
qed

definition toy_ed25519 :: "(u8, u8) ed25519" where
  "toy_ed25519 = \<lparr>
     signing_key_from_bytes = hd,
     verifying_key = (\<lambda>k. k + 1),
     verifying_key_to_bytes = (\<lambda>k. k # replicate 31 0),
     verifying_key_from_bytes = (\<lambda>b. if length b = 32 then Some (hd b) else None),
     ed_sign = (\<lambda>k m. take 64 ((k + 1) # m @ replicate 64 0)),
     ed_verify = (\<lambda>k m s. s = take 64 (k # m @ replicate 64 0))\<rparr>"

lemma toy_ed25519_ok: "ed25519_ok toy_ed25519"
  by (auto simp: ed25519_ok_def toy_ed25519_def PUB_KEY_SIZE_def SIGNATURE_SIZE_def min_def)

lemma identity_consistent_witness:
  "let i = LocalIdentity_from_bytes toy_ed25519 [7]; k = public_key toy_ed25519 i in
   verify toy_ed25519 k [1, 2] (sign toy_ed25519 i [1, 2]) \<and> is_hash_match k [8] = Some True \<and>
   (\<exists>s. PublicKey_fmt k = Some s \<and> shows_key s (8 # replicate 31 0))"
proof -
  let ?i = "LocalIdentity_from_bytes toy_ed25519 [7]"
  have k: "key_bytes (public_key toy_ed25519 ?i) = 8 # replicate 31 0"
    by (simp add: public_key_def LocalIdentity_from_bytes_def toy_ed25519_def)
  then have "length (key_bytes (public_key toy_ed25519 ?i)) = PUB_KEY_SIZE" by (simp add: PUB_KEY_SIZE_def)
  from identity_consistent [OF toy_ed25519_ok refl this, of ?i] have
    p: "\<forall>hash. is_hash_match (public_key toy_ed25519 ?i) hash = Some (hash \<noteq> [] \<and> (\<exists>rest. 8 # replicate 31 0 = hash @ rest))"
    "verify toy_ed25519 (public_key toy_ed25519 ?i) [1, 2] (sign toy_ed25519 ?i [1, 2])"
    "\<exists>s. PublicKey_fmt (public_key toy_ed25519 ?i) = Some s \<and> shows_key s (8 # replicate 31 0)"
    unfolding k by blast+
  from p(1) have "is_hash_match (public_key toy_ed25519 ?i) [8] = Some True" by simp
  with p(2,3) show ?thesis unfolding Let_def by blast
qed

end
