(* ===== verification/Traffic.thy ===== *)
theory Traffic
  imports Loop_Spec
begin

text \<open>
  Where packets come from and go to in a whole run of the dispatcher (\<open>crates/meshcore-dispatch/src/dispatcher.rs\<close>). The radio is tapped: any driver, with a tape of
  the frames it is given and reports. A run records what the other task submitted and took.
\<close>

section \<open>A tap on the radio\<close>

record tape =
  tp_sent :: "(u8 list \<times> bool) list"
  tp_heard :: "(u8 list \<times> f32 \<times> f32) list"

definition blank :: tape where "blank = \<lparr>tp_sent = [], tp_heard = []\<rparr>"

text \<open>
  A driver that also keeps a tape of the frames handed to it, with their success, and of the frames it reports, with their signal readings.
\<close>

definition tapped :: "'r radio \<Rightarrow> ('r \<times> tape) radio" where
  "tapped rd = \<lparr>
     rd_configure = (\<lambda>c (r, tp). let (x, r) = rd_configure rd c r in (x, (r, tp))),
     rd_send = (\<lambda>data (r, tp). let (x, r) = rd_send rd data r in (x, (r, tp\<lparr>tp_sent := tp_sent tp @ [(data, \<not> isl x)]\<rparr>))),
     rd_recv = (\<lambda>buf (r, tp). do {
       (res, buf, r) \<leftarrow> rd_recv rd buf r;
       Some (res, buf, (r, case res of Inl _ \<Rightarrow> tp
         | Inr rr \<Rightarrow> tp\<lparr>tp_heard := tp_heard tp @ [(take (rr_len rr) buf, rr_rssi rr, rr_snr rr)]\<rparr>))
     }),
     rd_channel_active = (\<lambda>(r, tp). let (x, r) = rd_channel_active rd r in (x, (r, tp))),
     rd_estimate_airtime_ms = (\<lambda>(r, tp) n. rd_estimate_airtime_ms rd r n),
     rd_sleep = (\<lambda>(r, tp). let (x, r) = rd_sleep rd r in (x, (r, tp))),
     rd_standby = (\<lambda>(r, tp). let (x, r) = rd_standby rd r in (x, (r, tp)))\<rparr>"

context radio_driver
begin

lemma tapped_driver: "radio_driver (tapped rd) (\<lambda>(r, tp). inv r)"
proof
  fix r :: "'r \<times> tape" and buf :: "u8 list"
  assume a: "case r of (r, tp) \<Rightarrow> inv r" "length buf = MAX_TRANS_UNIT"
  then have "inv (fst r)" by (simp add: case_prod_beta)
  from recv_ok [OF this a(2)] obtain res buf' r' where
    rc: "rd_recv rd buf (fst r) = Some (res, buf', r')" "length buf' = MAX_TRANS_UNIT" "inv r'" "\<forall>rr. res = Inr rr \<longrightarrow> rr_len rr \<le> MAX_TRANS_UNIT"
    by blast
  then show "\<exists>res buf' r'. rd_recv (tapped rd) buf r = Some (res, buf', r') \<and> length buf' = MAX_TRANS_UNIT \<and>
      (case r' of (r, tp) \<Rightarrow> inv r) \<and> (\<forall>rr. res = Inr rr \<longrightarrow> rr_len rr \<le> MAX_TRANS_UNIT)"
    by (simp add: tapped_def case_prod_beta)
next
  fix r :: "'r \<times> tape" and data
  assume "case r of (r, tp) \<Rightarrow> inv r"
  then show "case snd (rd_send (tapped rd) data r) of (r, tp) \<Rightarrow> inv r" using send_inv [of "fst r" data]
    by (simp add: tapped_def case_prod_beta Let_def)
next
  fix r :: "'r \<times> tape"
  assume "case r of (r, tp) \<Rightarrow> inv r"
  then show "case snd (rd_channel_active (tapped rd) r) of (r, tp) \<Rightarrow> inv r" using channel_active_inv [of "fst r"]
    by (simp add: tapped_def case_prod_beta Let_def)
qed

end

lemma tapped_simps [simp]:
  "rd_send (tapped rd) data r = (fst (rd_send rd data (fst r)),
     (snd (rd_send rd data (fst r)), (snd r)\<lparr>tp_sent := tp_sent (snd r) @ [(data, \<not> isl (fst (rd_send rd data (fst r))))]\<rparr>))"
  "rd_channel_active (tapped rd) r = (fst (rd_channel_active rd (fst r)), (snd (rd_channel_active rd (fst r)), snd r))"
  "rd_estimate_airtime_ms (tapped rd) r n = rd_estimate_airtime_ms rd (fst r) n"
  by (simp_all add: tapped_def case_prod_beta Let_def)

lemma tapped_recv:
  assumes "rd_recv (tapped rd) buf r = Some (res, buf', r')"
  shows "tp_sent (snd r') = tp_sent (snd r) \<and> tp_heard (snd r') = tp_heard (snd r) @
    (case res of Inl _ \<Rightarrow> [] | Inr rr \<Rightarrow> [(take (rr_len rr) buf', rr_rssi rr, rr_snr rr)])"
  using assms by (auto simp: tapped_def case_prod_beta bind_eq_Some_conv split: sum.split)

section \<open>Runs with their submissions and deliveries\<close>

text \<open>A step of the dispatcher itself, and a run of the system together with what the other task submitted and took.\<close>

definition own_step :: "('r, 'g, 'w) platform \<Rightarrow> ('r, 'g, 'w) system \<Rightarrow> ('r, 'g, 'w) system \<Rightarrow> bool" where
  "own_step pf s t \<longleftrightarrow> dispatch_step pf s t \<and>
     (sy_phase s = Top \<and> t = outcome s (loop_top pf s) \<or>
      t = outcome s (on_radio pf s) \<or>
      (\<exists>req rest. ch_try_receive (pf_tx_in pf) (sy_tx_in s) = Some (req, rest) \<and> t = outcome s (on_submission pf s req rest)) \<or>
      (\<exists>w. t = s\<lparr>sy_clock := w, sy_phase := Top\<rparr>))"

inductive dispatch_run ::
    "('r, 'g, 'w) platform \<Rightarrow> ('r, 'g, 'w) system \<Rightarrow> TxRequest list \<Rightarrow> RxPacket list \<Rightarrow> ('r, 'g, 'w) system \<Rightarrow> bool" for pf s where
  run_start: "dispatch_run pf s [] [] s"
| run_own: "dispatch_run pf s subs got t \<Longrightarrow> own_step pf t u \<Longrightarrow> dispatch_run pf s subs got u"
| run_submit: "dispatch_run pf s subs got t \<Longrightarrow> ch_try_send (pf_tx_in pf) (pf_TX_Q pf) (sy_tx_in t) req = Inr tx_in \<Longrightarrow>
    dispatch_run pf s (subs @ [req]) got (t\<lparr>sy_tx_in := tx_in\<rparr>)"
| run_take: "dispatch_run pf s subs got t \<Longrightarrow> ch_try_receive (pf_rx_out pf) (sy_rx_out t) = Some (p, rx_out) \<Longrightarrow>
    dispatch_run pf s subs (got @ [p]) (t\<lparr>sy_rx_out := rx_out\<rparr>)"

lemma dispatch_step_run:
  assumes "dispatch_run pf s subs got t" "dispatch_step pf t u"
  shows "\<exists>subs' got'. dispatch_run pf s subs' got' u"
  using assms(2)
proof (cases rule: dispatch_step.cases)
  case (submit req tx_in)
  with run_submit [OF assms(1)] show ?thesis by blast
next
  case (consume p rx_out)
  with run_take [OF assms(1)] show ?thesis by blast
next
  case top
  then have "own_step pf t u" using assms(2) by (simp add: own_step_def)
  then show ?thesis using run_own [OF assms(1)] by blast
next
  case (radio wake)
  then have "own_step pf t u" using assms(2) by (simp add: own_step_def)
  then show ?thesis using run_own [OF assms(1)] by blast
next
  case (submission wake req rest)
  then have "own_step pf t u" using assms(2) unfolding own_step_def by blast
  then show ?thesis using run_own [OF assms(1)] by blast
next
  case (timer at w)
  then have "own_step pf t u" using assms(2) unfolding own_step_def by blast
  then show ?thesis using run_own [OF assms(1)] by blast
qed

lemma run_reachable: "dispatch_run pf s subs got t \<Longrightarrow> dispatch_reachable pf s t"
  by (induction rule: dispatch_run.induct) (auto simp: own_step_def intro: dispatch_reachable.intros dispatch_step.intros)

lemma dispatch_reachable_run:
  "dispatch_reachable pf s t \<Longrightarrow> \<exists>subs got. dispatch_run pf s subs got t"
  by (induction rule: dispatch_reachable.induct) (blast intro: run_start dest: dispatch_step_run)+


section \<open>Where packets go\<close>

lemma tx_pop_bag:
  assumes "heapless_ok hv" "tx_pop_ready hv now q = Some (r, q')"
  shows "case r of None \<Rightarrow> q' = q | Some e \<Rightarrow> mset (tx_entries q) = add_mset e (mset (tx_entries q'))"
proof (cases "\<exists>e \<in> set (tx_entries q). tx_ready now e")
  case True
  then obtain e where "e \<in> set (tx_entries q)" "tx_ready now e" by blast
  from tx_pop_some [OF assms(1) this] assms(2) show ?thesis by auto
next
  case False
  with tx_pop_none [OF assms(1)] assms(2) show ?thesis by simp
qed

lemma rx_pop_bag:
  assumes "heapless_ok hv" "time_ok tm" "rx_pop_ready hv tm now q = Some (r, q')"
  shows "image_mset rde_packet (mset (rx_entries q)) = image_mset rde_packet (mset (rx_entries q')) + mset (case r of None \<Rightarrow> [] | Some p \<Rightarrow> [p])"
proof (cases "\<exists>e \<in> set (rx_entries q). rx_ready now e")
  case True
  then obtain e where "e \<in> set (rx_entries q)" "rx_ready now e" by blast
  from rx_pop_some [OF assms(1,2) this] assms(3) obtain b where "r = Some (rde_packet b)" "b \<in> set (rx_entries q)"
    "mset (rx_entries q') = mset (rx_entries q) - {#b#}" by auto
  then show ?thesis by (simp add: image_mset_Diff)
next
  case False
  with rx_pop_none [OF assms(1,2)] assms(3) show ?thesis by simp
qed

lemma tx_push_bag:
  assumes "heapless_ok hv" "tx_push hv tm N now q req = Some (r, q')"
  shows "image_mset te_packet (mset (tx_entries q')) \<subseteq># add_mset (req_packet req) (image_mset te_packet (mset (tx_entries q)))"
  using assms by (auto simp: tx_push_def bind_eq_Some_conv Let_def split: if_splits)

lemma drain_submissions_bag:
  assumes "platform_ok pf" "drain_submissions n pf (tx_in, q, w) = Some (tx_in', q', w')"
  shows "image_mset te_packet (mset (tx_entries q')) + image_mset req_packet (mset tx_in') \<subseteq>#
    image_mset te_packet (mset (tx_entries q)) + image_mset req_packet (mset tx_in)"
  using assms(2)
proof (induction n arbitrary: tx_in q w)
  case (Suc n)
  have ch: "ch_try_receive (pf_tx_in pf) xs = (case xs of [] \<Rightarrow> None | x # ys \<Rightarrow> Some (x, ys))" for xs
    using platform_okD(4) [OF assms(1)] by simp
  show ?case
  proof (cases tx_in)
    case Nil
    with Suc.prems show ?thesis by (simp add: ch)
  next
    case (Cons req rest)
    obtain now w1 where n: "ck_now (pf_clock pf) w = (now, w1)" by fastforce
    with Suc.prems(1) Cons obtain r q1 where p: "tx_push (pf_tx pf) (pf_time pf) (pf_TX_Q pf) now q req = Some (r, q1)"
      and d: "drain_submissions n pf (rest, q1, w1) = Some (tx_in', q', w')"
      by (auto simp: ch bind_eq_Some_conv)
    note Suc.IH [OF d]
    also have "image_mset te_packet (mset (tx_entries q1)) + image_mset req_packet (mset rest) \<subseteq>#
        image_mset te_packet (mset (tx_entries q)) + image_mset req_packet (mset tx_in)"
      using tx_push_bag [OF platform_okD(2) [OF assms(1)] p] by (simp add: Cons subset_mset.add_right_mono)
    finally show ?thesis .
  qed
qed simp

lemma deliver_bag: "platform_ok pf \<Longrightarrow> mset (deliver pf out p) \<subseteq># add_mset p (mset out)"
  using platform_okD(5) [of pf] by (simp add: deliver_def)

lemma deliver_ready_bag:
  assumes "platform_ok pf" "deliver_ready n pf now (q, out) = Some (q', out')"
  shows "image_mset rde_packet (mset (rx_entries q')) + mset out' \<subseteq># image_mset rde_packet (mset (rx_entries q)) + mset out"
  using assms(2)
proof (induction n arbitrary: q out)
  case (Suc n)
  then obtain r q1 where p: "rx_pop_ready (pf_rx pf) (pf_time pf) now q = Some (r, q1)"
    and c: "(case r of None \<Rightarrow> Some (q1, out) | Some rxp \<Rightarrow> deliver_ready n pf now (q1, deliver pf out rxp)) = Some (q', out')"
    by (auto simp: bind_eq_Some_conv)
  note b = rx_pop_bag [OF platform_okD(3,6) [OF assms(1)] p]
  show ?case
  proof (cases r)
    case None
    with b c show ?thesis by simp
  next
    case (Some rxp)
    with c have "deliver_ready n pf now (q1, deliver pf out rxp) = Some (q', out')" by simp
    note Suc.IH [OF this]
    also have "image_mset rde_packet (mset (rx_entries q1)) + mset (deliver pf out rxp) \<subseteq># image_mset rde_packet (mset (rx_entries q)) + mset out"
      using subset_mset.add_left_mono [OF deliver_bag [OF assms(1), of out rxp], of "image_mset rde_packet (mset (rx_entries q1))"]
      by (simp add: b Some)
    finally show ?thesis .
  qed
qed simp


section \<open>Statistics\<close>

text \<open>Whether a frame floods is in its first byte.\<close>

definition frame_is_flood :: "u8 list \<Rightarrow> bool" where
  "frame_is_flood f = packet_is_flood (Packet_new\<lparr>header := hd f\<rparr>)"

lemma frame_is_flood_wire [simp]: "frame_is_flood (wire_bytes p) = packet_is_flood p"
  by (simp add: frame_is_flood_def packet_is_flood_def route_type_def wire_bytes_def)

definition sent_frames :: "bool \<Rightarrow> tape \<Rightarrow> nat" where
  "sent_frames fl tp = length (filter (\<lambda>(f, ok). ok \<and> frame_is_flood f = fl) (tp_sent tp))"

definition heard_frames :: "bool \<Rightarrow> tape \<Rightarrow> nat" where
  "heard_frames fl tp = length (filter (\<lambda>(f, _). decode_packet f \<noteq> None \<and> frame_is_flood f = fl) (tp_heard tp))"

definition stats_agree :: "DispatcherStats \<Rightarrow> tape \<Rightarrow> bool" where
  "stats_agree st tp \<longleftrightarrow>
     sent_flood st = of_nat (sent_frames True tp) \<and> sent_direct st = of_nat (sent_frames False tp) \<and>
     recv_flood st = of_nat (heard_frames True tp) \<and> recv_direct st = of_nat (heard_frames False tp)"

lemma stats_agree_sent:
  assumes "stats_agree st tp"
  shows "stats_agree (if ok then count_sent (packet_is_flood p) ms st else st) (tp\<lparr>tp_sent := tp_sent tp @ [(wire_bytes p, ok)]\<rparr>)"
  using assms by (auto simp: stats_agree_def sent_frames_def heard_frames_def count_sent_def Let_def)

lemma stats_agree_heard:
  assumes "stats_agree st tp" "tp_sent tp' = tp_sent tp" "tp_heard tp' = tp_heard tp @ [(f, rs, sn)]"
  shows "stats_agree (case decode_packet f of None \<Rightarrow> st | Some p \<Rightarrow> count_received (packet_is_flood p) st) tp'"
proof (cases "decode_packet f")
  case None
  with assms show ?thesis by (simp add: stats_agree_def sent_frames_def heard_frames_def)
next
  case (Some p)
  with decode_packet_wf [OF Some] have "frame_is_flood f = packet_is_flood p" by (metis frame_is_flood_wire)
  with Some assms show ?thesis by (auto simp: stats_agree_def sent_frames_def heard_frames_def count_received_def)
qed

section \<open>The invariant\<close>

abbreviation tape_of :: "('r \<times> tape, 'g) Dispatcher \<Rightarrow> tape" where
  "tape_of d \<equiv> snd (dp_radio d)"

definition tx_image :: "TxEntry \<Rightarrow> u8 list" where "tx_image e = wire_bytes (te_packet e)"

definition req_image :: "TxRequest \<Rightarrow> u8 list" where "req_image r = wire_bytes (req_packet r)"

definition rx_image :: "RxPacket \<Rightarrow> u8 list \<times> f32 \<times> f32" where
  "rx_image p = (wire_bytes (rx_packet p), rx_rssi p, rx_snr p)"

text \<open>What was sent or may still be sent, and what was delivered or may still be.\<close>

definition outbound :: "('r \<times> tape, 'g) Dispatcher \<Rightarrow> u8 list multiset" where
  "outbound d = mset (map fst (tp_sent (tape_of d))) + image_mset tx_image (mset (tx_entries (dp_tx_queue d)))"

lemma transmit_entry_traffic:
  assumes rd: "pf_radio pf = tapped rd" and te: "transmit_entry pf e (d, buf, w) = Some (d', buf', w')"
    and st: "stats_agree (dp_stats d) (tape_of d)"
  shows "outbound d' = add_mset (tx_image e) (outbound d) \<and> tp_heard (tape_of d') = tp_heard (tape_of d) \<and>
    dp_rx_delay_queue d' = dp_rx_delay_queue d \<and> stats_agree (dp_stats d') (tape_of d')"
proof -
  from transmit_entryD [OF te] obtain deadline v clear r g v' x ms where
    cad: "cad_loop pf (dp_config d) deadline (dp_radio d) (dp_rng d) v = Some (clear, r, g, v')"
    and x: "x = rd_send (pf_radio pf) (wire_bytes (te_packet e)) r"
    and d': "d' = d\<lparr>dp_radio := snd x, dp_rng := g,
      dp_duty_cycle := (case fst x of Inr _ \<Rightarrow> deduct (dp_duty_cycle d) ms | Inl _ \<Rightarrow> dp_duty_cycle d),
      dp_stats := (case fst x of Inr _ \<Rightarrow> count_sent (packet_is_flood (te_packet e)) ms (dp_stats d) | Inl _ \<Rightarrow> dp_stats d)\<rparr>"
    by blast
  have tp: "snd r = tape_of d" using cad_loop_keeps [of "\<lambda>r. snd r = tape_of d", OF _ _ cad] rd by simp
  let ?ok = "\<not> isl (fst x)"
  have "snd (snd x) = (tape_of d)\<lparr>tp_sent := tp_sent (tape_of d) @ [(tx_image e, ?ok)]\<rparr>"
    by (simp add: x rd tp tx_image_def)
  moreover have "dp_stats d' = (if ?ok then count_sent (packet_is_flood (te_packet e)) ms (dp_stats d) else dp_stats d)"
    unfolding d' by (simp split: sum.split)
  ultimately show ?thesis
    using stats_agree_sent [OF st, of ?ok "te_packet e" ms] unfolding d' by (simp add: outbound_def tx_image_def)
qed

lemma maybe_transmit_traffic:
  assumes pf: "platform_ok pf" "pf_radio pf = tapped rd" and mt: "maybe_transmit pf (d, buf, w) = Some (d', buf', w')"
    and st: "stats_agree (dp_stats d) (tape_of d)"
  shows "outbound d' \<subseteq># outbound d \<and> tp_heard (tape_of d') = tp_heard (tape_of d) \<and>
    dp_rx_delay_queue d' = dp_rx_delay_queue d \<and> stats_agree (dp_stats d') (tape_of d')"
proof -
  obtain now w1 where n: "ck_now (pf_clock pf) w = (now, w1)" by fastforce
  from mt n obtain dc ready q where rf: "refill (pf_time pf) (dp_duty_cycle d) now = Some dc"
    and pop: "tx_pop_ready (pf_tx pf) now (dp_tx_queue d) = Some (ready, q)"
    by (auto simp: maybe_transmit_def bind_eq_Some_conv)
  let ?d1 = "d\<lparr>dp_duty_cycle := dc, dp_tx_queue := q\<rparr>"
  note bag = tx_pop_bag [OF platform_okD(2) [OF pf(1)] pop]
  show ?thesis
  proof (cases ready)
    case None
    with mt n rf pop bag st show ?thesis by (auto simp: maybe_transmit_def outbound_def)
  next
    case (Some e)
    with bag have b: "outbound d = add_mset (tx_image e) (outbound ?d1)" by (simp add: outbound_def)
    show ?thesis
    proof (cases "can_transmit dc (rd_estimate_airtime_ms (pf_radio pf) (dp_radio d) (wire_len (te_packet e)))")
      case True
      with mt n rf pop Some have te: "transmit_entry pf e (?d1, buf, w1) = Some (d', buf', w')"
        by (simp add: maybe_transmit_def)
      have "stats_agree (dp_stats ?d1) (tape_of ?d1)" using st by simp
      from transmit_entry_traffic [OF pf(2) te this] b show ?thesis by simp
    next
      case False
      with mt n rf pop Some have "d' = ?d1\<lparr>dp_tx_queue := snd (tx_push_entry (pf_tx pf) (pf_TX_Q pf) q e)\<rparr>"
        by (auto simp: maybe_transmit_def)
      then show ?thesis using b st platform_okD(2) [OF pf(1)] by (auto simp: tx_push_entry_def outbound_def)
    qed
  qed
qed


definition inbound :: "('r, 'g) Dispatcher \<Rightarrow> RxPacket list \<Rightarrow> RxPacket multiset" where
  "inbound d out = mset out + image_mset rde_packet (mset (rx_entries (dp_rx_delay_queue d)))"

definition conserved ::
    "TxRequest list \<Rightarrow> RxPacket list \<Rightarrow> ('r \<times> tape, 'g, 'w) system \<Rightarrow> bool" where
  "conserved subs got s \<longleftrightarrow>
     outbound (sy_dp s) + image_mset req_image (mset (sy_tx_in s)) \<subseteq># image_mset req_image (mset subs) \<and>
     image_mset rx_image (mset got + inbound (sy_dp s) (sy_rx_out s)) \<subseteq># mset (tp_heard (tape_of (sy_dp s))) \<and>
     stats_agree (dp_stats (sy_dp s)) (tape_of (sy_dp s))"

lemma image_req_image: "image_mset req_image M = image_mset wire_bytes (image_mset req_packet M)"
  by (simp add: multiset.map_comp req_image_def [abs_def] comp_def)

lemma image_tx_image: "image_mset tx_image M = image_mset wire_bytes (image_mset te_packet M)"
  by (simp add: multiset.map_comp tx_image_def [abs_def] comp_def)

lemma conservedI:
  assumes "conserved subs got s"
    and "outbound (sy_dp t) + image_mset req_image (mset (sy_tx_in t)) \<subseteq>#
      outbound (sy_dp s) + image_mset req_image (mset (sy_tx_in s))"
    and "tp_heard (tape_of (sy_dp t)) = tp_heard (tape_of (sy_dp s)) @ new"
    and "image_mset rx_image (inbound (sy_dp t) (sy_rx_out t)) \<subseteq># image_mset rx_image (inbound (sy_dp s) (sy_rx_out s)) + mset new"
    and "stats_agree (dp_stats (sy_dp t)) (tape_of (sy_dp t))"
  shows "conserved subs got t"
  unfolding conserved_def
proof (intro conjI assms(5))
  show "outbound (sy_dp t) + image_mset req_image (mset (sy_tx_in t)) \<subseteq># image_mset req_image (mset subs)"
    using assms(1,2) subset_mset.order_trans unfolding conserved_def by blast
  have "image_mset rx_image (mset got + inbound (sy_dp t) (sy_rx_out t)) \<subseteq>#
      image_mset rx_image (mset got + inbound (sy_dp s) (sy_rx_out s)) + mset new"
    using assms(4) by (simp add: add.assoc)
  also have "\<dots> \<subseteq># mset (tp_heard (tape_of (sy_dp s))) + mset new"
    using assms(1) unfolding conserved_def by (intro subset_mset.add_right_mono) blast
  finally show "image_mset rx_image (mset got + inbound (sy_dp t) (sy_rx_out t)) \<subseteq># mset (tp_heard (tape_of (sy_dp t)))"
    by (simp add: assms(3))
qed

lemma collect_conserved:
  assumes pf: "platform_ok pf" and s: "conserved subs got s"
    and ds: "drain_submissions m pf (sy_tx_in s, dp_tx_queue (sy_dp s), sy_clock s) = Some (tx_in, q, w)"
    and dr: "deliver_ready n pf now (dp_rx_delay_queue (sy_dp s), sy_rx_out s) = Some (dq, out)"
  shows "conserved subs got (s\<lparr>sy_dp := (sy_dp s)\<lparr>dp_tx_queue := q, dp_rx_delay_queue := dq\<rparr>, sy_tx_in := tx_in, sy_rx_out := out, sy_clock := w1\<rparr>)"
    (is "conserved _ _ ?t")
proof (rule conservedI [OF s, where new = "[]"])
  let ?d = "sy_dp s"
  have "outbound (sy_dp ?t) + image_mset req_image (mset tx_in) = mset (map fst (tp_sent (tape_of ?d))) +
      image_mset wire_bytes (image_mset te_packet (mset (tx_entries q)) + image_mset req_packet (mset tx_in))"
    by (simp add: outbound_def image_tx_image image_req_image)
  also have "\<dots> \<subseteq># mset (map fst (tp_sent (tape_of ?d))) +
      image_mset wire_bytes (image_mset te_packet (mset (tx_entries (dp_tx_queue ?d))) + image_mset req_packet (mset (sy_tx_in s)))"
    by (intro subset_mset.add_left_mono image_mset_subseteq_mono drain_submissions_bag [OF pf ds])
  also have "\<dots> = outbound ?d + image_mset req_image (mset (sy_tx_in s))"
    by (simp add: outbound_def image_tx_image image_req_image)
  finally show "outbound (sy_dp ?t) + image_mset req_image (mset (sy_tx_in ?t)) \<subseteq># outbound ?d + image_mset req_image (mset (sy_tx_in s))"
    by simp
  have "inbound (sy_dp ?t) out \<subseteq># inbound ?d (sy_rx_out s)"
    using deliver_ready_bag [OF pf dr] by (simp add: inbound_def add.commute)
  then show "image_mset rx_image (inbound (sy_dp ?t) (sy_rx_out ?t)) \<subseteq># image_mset rx_image (inbound ?d (sy_rx_out s)) + mset []"
    by (simp add: image_mset_subseteq_mono)
qed (use s in \<open>simp_all add: conserved_def\<close>)

lemma loop_top_conserved:
  assumes pf: "platform_ok pf" "pf_radio pf = tapped rd" and s: "conserved subs got s" and t: "loop_top pf s = Some t"
  shows "conserved subs got t"
  using t
proof (rule loop_topE)
  fix tx_in q w now w1 dq out d buf w2
  let ?d1 = "(sy_dp s)\<lparr>dp_tx_queue := q, dp_rx_delay_queue := dq\<rparr>"
  let ?s1 = "s\<lparr>sy_dp := ?d1, sy_tx_in := tx_in, sy_rx_out := out, sy_clock := w1\<rparr>"
  assume ds: "drain_submissions (length (sy_tx_in s) + 1) pf (sy_tx_in s, dp_tx_queue (sy_dp s), sy_clock s) = Some (tx_in, q, w)"
    and dr: "deliver_ready (rx_len (dp_rx_delay_queue (sy_dp s)) + 1) pf now (dp_rx_delay_queue (sy_dp s), sy_rx_out s) = Some (dq, out)"
    and mt: "maybe_transmit pf (?d1, sy_buf s, w1) = Some (d, buf, w2)"
    and t: "t = s\<lparr>sy_dp := d, sy_tx_in := tx_in, sy_rx_out := out, sy_buf := buf, sy_clock := w2, sy_phase := Waiting (next_wake_time d)\<rparr>"
  have s1: "conserved subs got ?s1" by (rule collect_conserved [OF pf(1) s ds dr])
  then have "stats_agree (dp_stats ?d1) (tape_of ?d1)" by (simp add: conserved_def)
  note mt' = maybe_transmit_traffic [OF pf mt this]
  show ?thesis
    by (rule conservedI [OF s1, where new = "[]"]) (use mt' t in \<open>simp_all add: inbound_def subset_mset.add_right_mono\<close>)
qed

lemma handle_rx_traffic:
  assumes pf: "platform_ok pf" and len: "rr_len rr \<le> length buf"
    and h: "handle_rx pf (Inr rr) buf (d, out, w) = Some (d', out', w')"
    and f: "f = take (rr_len rr) buf"
  shows "dp_radio d' = dp_radio d \<and> dp_tx_queue d' = dp_tx_queue d \<and>
    dp_stats d' = (case decode_packet f of None \<Rightarrow> dp_stats d | Some p \<Rightarrow> count_received (packet_is_flood p) (dp_stats d)) \<and>
    image_mset rx_image (inbound d' out') \<subseteq># add_mset (f, rr_rssi rr, rr_snr rr) (image_mset rx_image (inbound d out))"
proof (cases "decode_packet f")
  case None
  with h show ?thesis by (simp add: handle_rx_eq [OF pf len] f)
next
  case (Some p)
  have img: "rx_image (received rr p) = (f, rr_rssi rr, rr_snr rr)"
    using decode_packet_wf [OF Some] by (simp add: rx_image_def received_def)
  obtain now w1 where n: "ck_now (pf_clock pf) w = (now, w1)" by fastforce
  show ?thesis
  proof (cases "rx_delay_of pf d rr p")
    case None
    with h Some show ?thesis by (auto simp: handle_rx_eq [OF pf len] f Let_def inbound_def img)
  next
    case (Some ms)
    with h \<open>decode_packet f = Some p\<close> n show ?thesis
      by (auto simp: handle_rx_eq [OF pf len] f Let_def inbound_def img)
  qed
qed


lemma on_radio_conserved:
  assumes rd: "radio_driver rd rinv" and pf: "platform_ok pf" "pf_radio pf = tapped rd"
    and i: "system_inv pf (\<lambda>(r, tp). rinv r) s" and s: "conserved subs got s" and t: "on_radio pf s = Some t"
  shows "conserved subs got t"
proof -
  let ?d = "sy_dp s"
  have "case dp_radio ?d of (r, tp) \<Rightarrow> rinv r" "length (sy_buf s) = MAX_TRANS_UNIT"
    using i by (simp_all add: system_inv_def dispatcher_inv_def)
  from radio_driver.recv_ok [OF radio_driver.tapped_driver [OF rd] this] obtain res buf r where
    rc: "rd_recv (pf_radio pf) (sy_buf s) (dp_radio ?d) = Some (res, buf, r)"
    and l: "length buf = MAX_TRANS_UNIT" "\<forall>rr. res = Inr rr \<longrightarrow> rr_len rr \<le> MAX_TRANS_UNIT" unfolding pf(2) by blast
  from t rc obtain d out w where h: "handle_rx pf res buf (?d\<lparr>dp_radio := r\<rparr>, sy_rx_out s, sy_clock s) = Some (d, out, w)"
    and t': "t = s\<lparr>sy_dp := d, sy_rx_out := out, sy_buf := buf, sy_clock := w, sy_phase := Top\<rparr>"
    by (auto simp: on_radio_def bind_eq_Some_conv)
  note tp = tapped_recv [OF rc [unfolded pf(2)]]
  show ?thesis
  proof (cases res)
    case (Inl e)
    with h have "d = ?d\<lparr>dp_radio := r\<rparr>" "out = sy_rx_out s" by (simp_all add: handle_rx_def)
    with tp Inl s show ?thesis
      by (intro conservedI [OF s, where new = "[]"])
        (simp_all add: t' outbound_def inbound_def conserved_def stats_agree_def sent_frames_def heard_frames_def)
  next
    case (Inr rr)
    let ?f = "take (rr_len rr) buf"
    have "rr_len rr \<le> length buf" using l Inr by simp
    note ht = handle_rx_traffic [OF pf(1) this h [unfolded Inr] refl]
    have st: "stats_agree (dp_stats d) (snd r)"
      using stats_agree_heard [of "dp_stats ?d" "tape_of ?d" "snd r" ?f] tp Inr s ht
      by (cases "decode_packet ?f") (simp_all add: conserved_def)
    show ?thesis
      by (rule conservedI [OF s, where new = "[(?f, rr_rssi rr, rr_snr rr)]"])
        (use ht tp Inr st in \<open>simp_all add: t' outbound_def inbound_def\<close>)
  qed
qed

lemma on_submission_conserved:
  assumes pf: "platform_ok pf" and r: "ch_try_receive (pf_tx_in pf) (sy_tx_in s) = Some (req, rest)"
    and s: "conserved subs got s" and t: "on_submission pf s req rest = Some t"
  shows "conserved subs got t"
proof -
  have tx: "sy_tx_in s = req # rest" using r platform_okD(4) [OF pf] by (auto split: list.splits)
  from t obtain now w q x where p: "tx_push (pf_tx pf) (pf_time pf) (pf_TX_Q pf) now (dp_tx_queue (sy_dp s)) req = Some (x, q)"
    and t': "t = s\<lparr>sy_dp := (sy_dp s)\<lparr>dp_tx_queue := q\<rparr>, sy_tx_in := rest, sy_clock := w, sy_phase := Top\<rparr>"
    by (auto simp: on_submission_def bind_eq_Some_conv split: prod.splits)
  from image_mset_subseteq_mono [OF tx_push_bag [OF platform_okD(2) [OF pf] p], of wire_bytes]
  have "image_mset tx_image (mset (tx_entries q)) \<subseteq># add_mset (req_image req) (image_mset tx_image (mset (tx_entries (dp_tx_queue (sy_dp s)))))"
    by (simp add: image_tx_image req_image_def)
  then have "outbound ((sy_dp s)\<lparr>dp_tx_queue := q\<rparr>) + image_mset req_image (mset rest) \<subseteq># outbound (sy_dp s) + image_mset req_image (mset (sy_tx_in s))"
    by (simp add: outbound_def tx subset_mset.add_right_mono flip: add_mset_add_single)
  then show ?thesis
    using s by (intro conservedI [OF s, where new = "[]"]) (simp_all add: t' inbound_def conserved_def)
qed

lemma outcome_conserved:
  assumes "conserved subs got s" "\<And>t. r = Some t \<Longrightarrow> conserved subs got t"
  shows "conserved subs got (outcome s r)"
  using assms by (cases r) (simp_all add: outcome_def conserved_def)

lemma own_step_conserved:
  assumes rd: "radio_driver rd rinv" and pf: "platform_ok pf" "pf_radio pf = tapped rd"
    and i: "system_inv pf (\<lambda>(r, tp). rinv r) s" and s: "conserved subs got s" and t: "own_step pf s t"
  shows "conserved subs got t"
  using t loop_top_conserved [OF pf s] on_radio_conserved [OF rd pf i s] on_submission_conserved [OF pf(1) _ s] s
  unfolding own_step_def by (auto intro!: outcome_conserved) (simp add: conserved_def)

lemma conserved_submit:
  assumes "platform_ok pf" "conserved subs got s" "ch_try_send (pf_tx_in pf) (pf_TX_Q pf) (sy_tx_in s) req = Inr tx_in"
  shows "conserved (subs @ [req]) got (s\<lparr>sy_tx_in := tx_in\<rparr>)"
  using assms platform_okD(4) [OF assms(1)] by (auto simp: conserved_def split: if_splits)

lemma conserved_take:
  assumes "platform_ok pf" "conserved subs got s" "ch_try_receive (pf_rx_out pf) (sy_rx_out s) = Some (p, rx_out)"
  shows "conserved subs (got @ [p]) (s\<lparr>sy_rx_out := rx_out\<rparr>)"
proof -
  have "sy_rx_out s = p # rx_out" using assms platform_okD(5) [OF assms(1)] by (auto split: list.splits)
  with assms(2) show ?thesis by (simp add: conserved_def inbound_def)
qed

lemma start_run_ok:
  "rinv r \<Longrightarrow> system_inv pf (\<lambda>(r, tp). rinv r) (start_system pf (r, blank) g config w)"
  "rinv r \<Longrightarrow> conserved [] [] (start_system pf (r, blank) g config w)"
  by (simp add: start_system_inv)
    (simp add: conserved_def start_system_def outbound_def inbound_def Dispatcher_new_def TxQueue_new_def RxDelayQueue_new_def blank_def
      stats_agree_def sent_frames_def heard_frames_def DispatcherStats_default_def)

lemma dispatch_run_conserved:
  assumes rd: "radio_driver rd rinv" and pf: "platform_ok pf" "pf_radio pf = tapped rd"
    and s: "system_inv pf (\<lambda>(r, tp). rinv r) s" "conserved [] [] s" and run: "dispatch_run pf s subs got t"
  shows "system_inv pf (\<lambda>(r, tp). rinv r) t \<and> conserved subs got t"
  using run
proof (induction rule: dispatch_run.induct)
  case run_start
  then show ?case using s by simp
next
  case (run_own subs got t u)
  then have "dispatch_step pf t u" by (simp add: own_step_def)
  then have "system_inv pf (\<lambda>(r, tp). rinv r) u"
    using radio_driver.dispatch_step_inv [OF radio_driver.tapped_driver [OF rd] _ pf(1)] run_own pf(2) by blast
  then show ?case using own_step_conserved [OF rd pf _ _ run_own(2)] run_own.IH by blast
next
  case (run_submit subs got t req tx_in)
  then have tx: "tx_in = sy_tx_in t @ [req]" "length tx_in \<le> pf_TX_Q pf" using platform_okD(4) [OF pf(1)] by (auto split: if_splits)
  then show ?case using run_submit.IH conserved_submit [OF pf(1) _ run_submit.hyps(2)]
    by (auto simp: system_inv_def)
next
  case (run_take subs got t p rx_out)
  then have "sy_rx_out t = p # rx_out" using platform_okD(5) [OF pf(1)] by (auto split: list.splits)
  then show ?case using run_take.IH conserved_take [OF pf(1) _ run_take.hyps(2)]
    by (auto simp: system_inv_def)
qed


section \<open>Properties\<close>

text \<open>
  C5: Nothing is invented or duplicated in either direction: in every run, with every driver, the frames handed to the radio, together with those the queue
  and the channel still hold, are at most the wire images of the submitted requests, each counted as often as it was submitted; and the packets the mesh layer took, together
  with those waiting in the channel and the delay queue, are at most the frames the radio reported, each with the signal readings it came with.
\<close>
theorem packets_conserved:
  assumes "radio_driver rd rinv" "platform_ok pf" "pf_radio pf = tapped rd" "rinv r"
    and "dispatch_run pf (start_system pf (r, blank) g config w) subs got s"
  shows "mset (map fst (tp_sent (tape_of (sy_dp s)))) + image_mset tx_image (mset (tx_entries (dp_tx_queue (sy_dp s)))) +
      image_mset req_image (mset (sy_tx_in s)) \<subseteq># mset (map req_image subs) \<and>
    mset (map rx_image (got @ sy_rx_out s)) + image_mset (rx_image \<circ> rde_packet) (mset (rx_entries (dp_rx_delay_queue (sy_dp s)))) \<subseteq>#
      mset (tp_heard (tape_of (sy_dp s)))"
  using dispatch_run_conserved [OF assms(1-3) start_run_ok [of rinv, OF assms(4)] assms(5)]
  by (simp add: conserved_def outbound_def inbound_def multiset.map_comp add.assoc)

text \<open>
  C6: The statistics count the traffic: in every run the four packet counters are, modulo the wrap-around of their 32 bits, the numbers of flood and direct frames
  the radio has sent with success, and of flood and direct frames it has reported that are packets.
\<close>
theorem statistics_count_traffic:
  assumes "radio_driver rd rinv" "platform_ok pf" "pf_radio pf = tapped rd" "rinv r"
    and "dispatch_run pf (start_system pf (r, blank) g config w) subs got s"
    and "st = dp_stats (sy_dp s)" "tp = tape_of (sy_dp s)"
  shows "sent_flood st = of_nat (length (filter (\<lambda>(f, ok). ok \<and> frame_is_flood f) (tp_sent tp))) \<and>
    sent_direct st = of_nat (length (filter (\<lambda>(f, ok). ok \<and> \<not> frame_is_flood f) (tp_sent tp))) \<and>
    recv_flood st = of_nat (length (filter (\<lambda>(f, _). decode_packet f \<noteq> None \<and> frame_is_flood f) (tp_heard tp))) \<and>
    recv_direct st = of_nat (length (filter (\<lambda>(f, _). decode_packet f \<noteq> None \<and> \<not> frame_is_flood f) (tp_heard tp)))"
  using dispatch_run_conserved [OF assms(1-3) start_run_ok [of rinv, OF assms(4)] assms(5)] assms(6,7)
  by (simp add: conserved_def stats_agree_def sent_frames_def heard_frames_def)

text \<open>A tapped mock radio; one request is submitted and the loop runs once.\<close>

definition tap_platform :: "(MockRadio \<times> tape, MockRng, instant \<times> nat) platform" where
  "tap_platform = \<lparr>pf_radio = tapped (mock_radio list_containers), pf_random = mock_random, pf_bytes = list_heapless,
     pf_tx = list_heapless, pf_rx = list_heapless, pf_tx_in = list_channel, pf_rx_out = list_channel,
     pf_time = ms_time, pf_clock = demo_clock, pf_TX_Q = 4, pf_RX_Q = 4\<rparr>"

abbreviation tap_start :: "(MockRadio \<times> tape, MockRng, instant \<times> nat) system" where
  "tap_start \<equiv> start_system tap_platform (MockRadio_new, blank) (MockRng_new 7) DispatcherConfig_default (0, 0)"

abbreviation tap_request :: TxRequest where
  "tap_request \<equiv> \<lparr>req_packet = sample_packet, req_priority = 1, delay_ms = 0\<rparr>"

lemma tap_platform_simps [simp]:
  "pf_radio tap_platform = tapped (mock_radio list_containers)" "pf_random tap_platform = mock_random" "pf_clock tap_platform = demo_clock"
  "pf_time tap_platform = ms_time" "pf_TX_Q tap_platform = 4" "pf_RX_Q tap_platform = 4"
  by (simp_all add: tap_platform_def)

lemma tap_platform_ok: "platform_ok tap_platform"
  by (simp add: platform_ok_def tap_platform_def demo_clock_ok)

lemma tap_run:
  "\<exists>t. dispatch_run tap_platform tap_start [tap_request] [] t \<and> wire_bytes sample_packet \<in> fst ` set (tp_sent (tape_of (sy_dp t))) \<and> sy_phase t \<noteq> Stopped"
proof -
  let ?s = "tap_start\<lparr>sy_tx_in := [tap_request]\<rparr>" and ?pf = tap_platform
  let ?inv = "\<lambda>(r, tp :: tape). containers_ok list_containers \<and> mock_ok r"
  have rd: "radio_driver (pf_radio ?pf) ?inv" "random_source (pf_random ?pf)"
    using radio_driver.tapped_driver [OF mock.radio_driver_axioms [of list_containers]] mock_rng.random_source_axioms by simp_all
  have cad: "cad_retry_min_ms DispatcherConfig_default = 120" by (simp add: DispatcherConfig_default_def)
  have l: "live ?pf ?s"
    using sample_packet_wf cad
    by (simp add: live_def start_system_def Dispatcher_new_def default_tracker TxQueue_new_def demo_clock_def)
  have "system_inv ?pf ?inv tap_start" by (rule start_system_inv) (simp add: mock_ok_new)
  then have i: "system_inv ?pf ?inv ?s" by (simp add: system_inv_def)
  have q: "tx_entries (dp_tx_queue (sy_dp ?s)) = []" by (simp add: start_system_def Dispatcher_new_def TxQueue_new_def)
  have a: "affordable ?pf (dp_duty_cycle (sy_dp ?s)) (wire_len (req_packet tap_request))"
    using mock_affordable wf_wire_len_le [OF sample_packet_wf]
    by (simp add: affordable_def start_system_def Dispatcher_new_def mock_radio_def)
  have "time_left ?pf 4 (sy_clock ?s)" unfolding start_system_def by simp (rule demo_time_left; simp)
  from loop_top_sends [OF rd tap_platform_ok _ i l _ _ q a this] obtain t r where
    t: "loop_top ?pf ?s = Some t" "dp_radio (sy_dp t) = snd (rd_send (pf_radio ?pf) (wire_bytes sample_packet) r)" by auto
  have "dispatch_run ?pf tap_start ([] @ [tap_request]) [] ?s"
    by (rule run_submit [OF run_start]) (simp add: tap_platform_def start_system_def)
  moreover have "own_step ?pf ?s t"
    using dispatch_step.top [of ?s ?pf] t(1) by (simp add: own_step_def outcome_def start_system_def)
  ultimately have "dispatch_run ?pf tap_start [tap_request] [] t" using run_own by fastforce
  moreover have "sy_phase t \<noteq> Stopped" using t(1) by (auto elim: loop_topE)
  ultimately show ?thesis using t(2) by (intro exI [of _ t]) simp
qed

lemma map_fst_single: "x \<in> fst ` set xs \<Longrightarrow> length xs \<le> 1 \<Longrightarrow> map fst xs = [x]"
  by (cases xs) auto

lemma packets_conserved_witness:
  "\<exists>t. dispatch_run tap_platform tap_start [tap_request] [] t \<and> map fst (tp_sent (tape_of (sy_dp t))) = [wire_bytes sample_packet]"
proof -
  obtain t where t: "dispatch_run tap_platform tap_start [tap_request] [] t" "wire_bytes sample_packet \<in> fst ` set (tp_sent (tape_of (sy_dp t)))"
    using tap_run by blast
  have "mset (map fst (tp_sent (tape_of (sy_dp t)))) \<subseteq># {#wire_bytes sample_packet#}"
    using packets_conserved [OF mock.radio_driver_axioms tap_platform_ok tap_platform_simps(1) _ t(1)] mock_ok_new
    by (auto simp: req_image_def dest: subset_mset.order_trans [OF mset_subset_eq_add_left])
  then have "size (mset (map fst (tp_sent (tape_of (sy_dp t))))) \<le> 1" using size_mset_mono by fastforce
  then have "length (tp_sent (tape_of (sy_dp t))) \<le> 1" by simp
  from map_fst_single [OF t(2) this] have "map fst (tp_sent (tape_of (sy_dp t))) = [wire_bytes sample_packet]" .
  with t(1) show ?thesis by (intro exI [of _ t] conjI)
qed

lemma statistics_count_traffic_witness:
  "\<exists>t. dispatch_run tap_platform tap_start [tap_request] [] t \<and>
    sent_flood (dp_stats (sy_dp t)) = of_nat (length (filter (\<lambda>(f, ok). ok \<and> frame_is_flood f) (tp_sent (tape_of (sy_dp t)))))"
proof -
  obtain t where t: "dispatch_run tap_platform tap_start [tap_request] [] t" using tap_run by blast
  from statistics_count_traffic [OF mock.radio_driver_axioms tap_platform_ok tap_platform_simps(1) _ t refl refl] mock_ok_new t
  show ?thesis by auto
qed

end
