(* ===== verification/Provenance.thy ===== *)
theory Provenance
  imports Traffic Firmware
begin

text \<open>
  What the whole firmware (\<open>boards/rak4631/src/main.rs\<close> over \<open>crates/meshcore-dispatch\<close>) puts on the air, seen from a tap on its radio: nothing but its greeting and
  answers to commands it heard on its channel, and never more than it heard.
\<close>

section \<open>What occasions a transmission\<close>

definition channel_secret :: "crypto \<Rightarrow> u8 list" where
  "channel_secret c = take 16 (sha256 c (bytes_of ''#meshcore-rs'')) @ replicate 16 0"

definition channel_hash :: "crypto \<Rightarrow> u8" where
  "channel_hash c = hd (sha256 c (take 16 (sha256 c (bytes_of ''#meshcore-rs''))))"

definition on_channel :: "crypto \<Rightarrow> user \<Rightarrow> bool" where
  "on_channel c u \<longleftrightarrow> us_secret u = channel_secret c \<and> us_hash u = channel_hash c"

definition channel_packet :: "crypto \<Rightarrow> u32 \<Rightarrow> u8 list \<Rightarrow> Packet" where
  "channel_packet c ts msg = grp_packet c (channel_secret c) (channel_hash c) ts msg"

definition greeting :: "crypto \<Rightarrow> Packet \<Rightarrow> bool" where
  "greeting c q \<longleftrightarrow> (\<exists>ts. q = channel_packet c ts (NODE_NAME @ bytes_of '': online''))"

text \<open>\<open>q\<close> is an answer of the node, at some uptime and count, to the command in \<open>p\<close>.\<close>

definition answers :: "crypto \<Rightarrow> Packet \<Rightarrow> Packet \<Rightarrow> bool" where
  "answers c p q \<longleftrightarrow> (\<exists>u up ts t. on_channel c u \<and> answer c u up p = Some t \<and> q = channel_packet c ts (take 160 t))"

definition occasioned :: "crypto \<Rightarrow> RxPacket list \<Rightarrow> TxRequest \<Rightarrow> bool" where
  "occasioned c got r \<longleftrightarrow> greeting c (req_packet r) \<or> (\<exists>p \<in> set got. answers c (rx_packet p) (req_packet r))"

lemma answers_reply: "on_channel c u \<Longrightarrow> answer c u up p = Some t \<Longrightarrow> answers c p (req_packet (reply_request c u ts t))"
  unfolding answers_def
  by (rule exI [of _ u], rule exI [of _ up], rule exI [of _ ts], rule exI [of _ t]) (simp add: reply_request_def channel_packet_def on_channel_def)

lemma occasioned_more: "occasioned c got r \<Longrightarrow> occasioned c (got @ later) r"
  by (auto simp: occasioned_def)

text \<open>
  The invariant: the request the task has in hand, if any, is occasioned like all it has submitted, and there is at most one request per packet taken, and the greeting.
\<close>

definition task_traffic :: "crypto \<Rightarrow> TxRequest list \<Rightarrow> RxPacket list \<Rightarrow> task \<Rightarrow> bool" where
  "task_traffic c subs got t = (case t of
     Booting _ \<Rightarrow> subs = [] \<and> got = []
   | Running u \<Rightarrow> on_channel c u \<and> length subs \<le> length got + 1
   | Sending u req \<Rightarrow> on_channel c u \<and> occasioned c got req \<and> length subs \<le> length got
   | Panicked \<Rightarrow> True)"

definition fw_traffic :: "crypto \<Rightarrow> ('r \<times> tape, 'g, 'w) firmware \<Rightarrow> bool" where
  "fw_traffic c f \<longleftrightarrow> (\<exists>subs got. conserved subs got (fw_sys f) \<and> (\<forall>r \<in> set subs. occasioned c got r) \<and> (\<forall>p \<in> set got. rx_wf p) \<and>
     task_traffic c subs got (fw_task f))"

lemma fw_traffic_dispatch:
  assumes "fw_traffic c f" "\<And>subs got. conserved subs got (fw_sys f) \<Longrightarrow> conserved subs got s"
  shows "fw_traffic c (f\<lparr>fw_sys := s\<rparr>)"
  using assms by (fastforce simp: fw_traffic_def)

text \<open>The start-up submits the greeting; an iteration stays on the channel and submits at most an answer to the packet it took.\<close>

lemma boot_greets:
  assumes "platform_ok pf" "crypto_ok c" "base_instant rtc \<le> ck_time (pf_clock pf) w"
  shows "\<exists>u req w'. user_boot pf c E rtc w = Some (u, Some req, w') \<and> on_channel c u \<and> greeting c (req_packet req)"
proof -
  from user_boot_total [OF assms, of E] obtain u req w' ts where
    b: "user_boot pf c E rtc w = Some (u, Some req, w')" "on_channel c u"
    and q: "req = \<lparr>req_packet = grp_packet c (us_secret u) (us_hash u) ts (NODE_NAME @ bytes_of '': online''), req_priority = 0, delay_ms = 0\<rparr>"
    by (auto simp: on_channel_def channel_secret_def channel_hash_def)
  have "greeting c (req_packet req)" using b(2) unfolding q by (auto simp: greeting_def channel_packet_def on_channel_def)
  with b show ?thesis by blast
qed

lemma step_answers:
  assumes "platform_ok pf" "crypto_ok c" "user_ok pf u w" "rx_wf p" "on_channel c u"
  shows "\<exists>u' req w'. user_step pf c (u, w) p = Some (u', req, w') \<and> on_channel c u' \<and> (\<forall>r. req = Some r \<longrightarrow> answers c (rx_packet p) (req_packet r))"
proof -
  from user_step_cases [OF assms(1-4)] obtain u' req w' up ts where
    us: "user_step pf c (u, w) p = Some (u', req, w')" "us_secret u' = us_secret u" "us_hash u' = us_hash u"
    and q: "req = (if packet_hash (sha256 c) (rx_packet p) \<in> set (hashes (us_dedup u)) then None
      else map_option (reply_request c u ts) (answer c u up (rx_packet p)))" by blast
  have "\<forall>r. req = Some r \<longrightarrow> answers c (rx_packet p) (req_packet r)"
    using answers_reply [OF assms(5)] by (auto simp: q split: if_splits)
  with us assms(5) show ?thesis by (simp add: on_channel_def)
qed

lemma fw_step_traffic:
  assumes rd: "radio_driver rd rinv" and pf: "platform_ok pf" "pf_radio pf = tapped rd" and c: "crypto_ok c"
    and i: "fw_inv pf (\<lambda>(r, tp). rinv r) f" and t: "fw_traffic c f" and st: "firmware_step pf c E f g"
  shows "fw_traffic c g"
  using st
proof (cases rule: firmware_step.cases)
  case fw_top
  show ?thesis unfolding fw_top
    by (rule fw_traffic_dispatch [OF t]) (blast intro: outcome_conserved loop_top_conserved [OF pf])
next
  case (fw_radio wake)
  have "system_inv pf (\<lambda>(r, tp). rinv r) (fw_sys f)" using i by (simp add: fw_inv_def)
  then show ?thesis unfolding fw_radio
    by (intro fw_traffic_dispatch [OF t]) (blast intro: outcome_conserved on_radio_conserved [OF rd pf])
next
  case (fw_submission wake req rest)
  show ?thesis unfolding fw_submission(1)
    by (rule fw_traffic_dispatch [OF t]) (blast intro: outcome_conserved on_submission_conserved [OF pf(1) fw_submission(3)])
next
  case (fw_timer at w)
  show ?thesis unfolding fw_timer(1) by (rule fw_traffic_dispatch [OF t]) (simp add: conserved_def)
next
  case (fw_start rtc)
  from t fw_start(2) have s: "conserved [] [] (fw_sys f)" by (auto simp: fw_traffic_def task_traffic_def)
  have "base_instant rtc \<le> ck_time (pf_clock pf) (sy_clock (fw_sys f))" using i fw_start(2) by (simp add: fw_inv_def task_ok_def)
  from boot_greets [OF pf(1) c this, of E] obtain u req w where
    b: "user_boot pf c E rtc (sy_clock (fw_sys f)) = Some (u, Some req, w)" "on_channel c u" "greeting c (req_packet req)" by blast
  then have "task_traffic c [] [] (Sending u req)" using b(2,3) by (simp add: task_traffic_def occasioned_def)
  with s show ?thesis unfolding fw_start(1) fw_traffic_def
    by (intro exI [of _ "[]"]) (simp add: b(1) task_outcome_def conserved_def)
next
  case (fw_receive u p rest)
  from t fw_receive(2) obtain subs got where s: "conserved subs got (fw_sys f)" "\<forall>r \<in> set subs. occasioned c got r" "\<forall>p \<in> set got. rx_wf p"
    and u: "on_channel c u" "length subs \<le> length got + 1" by (auto simp: fw_traffic_def task_traffic_def)
  have uo: "user_ok pf u (sy_clock (fw_sys f))" using i fw_receive(2) by (simp add: fw_inv_def task_ok_def)
  have "sy_rx_out (fw_sys f) = p # rest" using fw_receive(3) platform_okD(5) [OF pf(1)] by (auto split: list.splits)
  then have wf: "rx_wf p" using i by (simp add: fw_inv_def system_inv_def)
  from step_answers [OF pf(1) c uo wf u(1)] obtain u' req w where
    us: "user_step pf c (u, sy_clock (fw_sys f)) p = Some (u', req, w)" "on_channel c u'"
    and q: "\<forall>r. req = Some r \<longrightarrow> answers c (rx_packet p) (req_packet r)" by blast
  have "occasioned c (got @ [p]) r" if "req = Some r" for r using that q by (simp add: occasioned_def)
  then have "task_traffic c subs (got @ [p]) (case req of None \<Rightarrow> Running u' | Some r \<Rightarrow> Sending u' r)"
    using u us by (simp add: task_traffic_def split: option.split)
  moreover have "conserved subs (got @ [p]) ((fw_sys f)\<lparr>sy_rx_out := rest, sy_clock := w\<rparr>)"
    using conserved_take [OF pf(1) s(1) fw_receive(3)] by (simp add: conserved_def)
  ultimately show ?thesis unfolding fw_receive(1) fw_traffic_def
    using s(2,3) wf by (intro exI [of _ subs] exI [of _ "got @ [p]"]) (auto simp: us(1) task_outcome_def intro: occasioned_more)
next
  case (fw_send u req tx_in)
  from t fw_send(2) obtain subs got where s: "conserved subs got (fw_sys f)" "\<forall>r \<in> set subs. occasioned c got r" "\<forall>p \<in> set got. rx_wf p"
    and u: "on_channel c u" "occasioned c got req" "length subs \<le> length got" by (auto simp: fw_traffic_def task_traffic_def)
  then have "task_traffic c (subs @ [req]) got (Running u)" by (simp add: task_traffic_def)
  with conserved_submit [OF pf(1) s(1) fw_send(3)] s u show ?thesis unfolding fw_send(1) fw_traffic_def
    by (intro exI [of _ "subs @ [req]"] exI [of _ got]) auto
qed


lemma conserved_sent: "conserved subs got s \<Longrightarrow> mset (map fst (tp_sent (tape_of (sy_dp s)))) \<subseteq># mset (map req_image subs)"
  unfolding conserved_def outbound_def mset_map by (meson mset_subset_eq_add_left subset_mset.order_trans)

lemma conserved_heard: "conserved subs got s \<Longrightarrow> mset (map rx_image got) \<subseteq># mset (tp_heard (tape_of (sy_dp s)))"
  unfolding conserved_def image_mset_union mset_map by (meson mset_subset_eq_add_left subset_mset.order_trans)

lemma firmware_traffic:
  assumes rd: "radio_driver rd rinv" and pf: "platform_ok pf" "pf_radio pf = tapped rd" and c: "crypto_ok c"
    and f0: "fw_inv pf (\<lambda>(r, tp). rinv r) f0" "fw_traffic c f0" and f: "firmware_reachable pf c E f0 f"
  shows "fw_inv pf (\<lambda>(r, tp). rinv r) f \<and> fw_traffic c f"
  using f
proof (induction rule: firmware_reachable.induct)
  case fw_here
  then show ?case using f0 by simp
next
  case (fw_more g h)
  then show ?case
    using fw_step_traffic [OF rd pf c _ _ fw_more(2)] radio_driver.firmware_step_inv [OF radio_driver.tapped_driver [OF rd] fw_more(2) pf c]
    by blast
qed

lemma firmware_start_inv:
  assumes "rinv r" "base_instant rtc \<le> ck_time (pf_clock pf) w" "time_ok (pf_time pf)"
    and "0 < dur_from_millis (pf_time pf) (ucast (cad_retry_min_ms config))"
  shows "fw_inv pf rinv \<lparr>fw_sys = start_system pf r g config w, fw_task = Booting rtc\<rparr>"
  using assms start_system_inv [of rinv r pf g config w] time_okD(4) [OF assms(3)]
  by (simp add: fw_inv_def task_ok_def live_def) (simp add: start_system_def Dispatcher_new_def TxQueue_new_def DutyCycleTracker_new_def Let_def)

text \<open>What every frame on the tape goes back to.\<close>

lemma frame_occasioned:
  assumes s: "conserved subs got s" "\<forall>r \<in> set subs. occasioned c got r" "\<forall>p \<in> set got. rx_wf p"
    and x: "tp = tape_of (sy_dp s)" "x \<in> fst ` set (tp_sent tp)"
  shows "\<exists>q. x = wire_bytes q \<and> (greeting c q \<or> (\<exists>p. wf_packet p \<and> wire_bytes p \<in> fst ` set (tp_heard tp) \<and> answers c p q))"
proof -
  have sent: "mset (map fst (tp_sent tp)) \<subseteq># mset (map req_image subs)" and heard: "mset (map rx_image got) \<subseteq># mset (tp_heard tp)"
    using conserved_sent [OF s(1)] conserved_heard [OF s(1)] x(1) by simp_all
  from x(2) obtain req where r: "req \<in> set subs" "x = wire_bytes (req_packet req)"
    using set_mset_mono [OF sent] by (auto simp: req_image_def)
  have h: "wire_bytes (rx_packet p) \<in> fst ` set (tp_heard tp)" if "p \<in> set got" for p
  proof -
    have "rx_image p \<in> set (tp_heard tp)" using set_mset_mono [OF heard] that by auto
    then show ?thesis by (rule rev_image_eqI) (simp add: rx_image_def)
  qed
  from r(1) s(2) have "occasioned c got req" by blast
  then consider "greeting c (req_packet req)" | p where "p \<in> set got" "answers c (rx_packet p) (req_packet req)"
    unfolding occasioned_def by blast
  then show ?thesis
  proof cases
    case 1
    with r(2) show ?thesis by (intro exI [of _ "req_packet req"]) simp
  next
    case (2 p)
    then have "wf_packet (rx_packet p)" using s(3) by (simp add: rx_wf_def)
    with 2 r(2) h show ?thesis by (intro exI [of _ "req_packet req"] conjI disjI2 exI [of _ "rx_packet p"]) simp_all
  qed
qed

lemma frames_at_most:
  assumes "conserved subs got s" "tp = tape_of (sy_dp s)" "length subs \<le> length got + 1"
  shows "length (tp_sent tp) \<le> length (tp_heard tp) + 1"
  using size_mset_mono [OF conserved_sent [OF assms(1)]] size_mset_mono [OF conserved_heard [OF assms(1)]] assms(2,3) by simp

section \<open>Properties\<close>

text \<open>
  The firmware only answers: whatever happens, every frame it has put on the air is the wire image of its greeting or of the encrypted answer to a command in a packet
  its radio had reported before, and it has sent at most one frame more than it has received.
\<close>
theorem firmware_only_answers:
  assumes "radio_driver rd rinv" "platform_ok pf" "pf_radio pf = tapped rd" "crypto_ok c" "rinv r"
    and "base_instant rtc \<le> ck_time (pf_clock pf) w" "0 < dur_from_millis (pf_time pf) (ucast (cad_retry_min_ms config))"
    and "firmware_reachable pf c E \<lparr>fw_sys = start_system pf (r, blank) g config w, fw_task = Booting rtc\<rparr> f"
    and "tp = tape_of (sy_dp (fw_sys f))"
  shows "length (tp_sent tp) \<le> length (tp_heard tp) + 1 \<and>
    (\<forall>x \<in> fst ` set (tp_sent tp). \<exists>q. x = wire_bytes q \<and>
      (greeting c q \<or> (\<exists>p. wf_packet p \<and> wire_bytes p \<in> fst ` set (tp_heard tp) \<and> answers c p q)))"
proof -
  let ?f0 = "\<lparr>fw_sys = start_system pf (r, blank) g config w, fw_task = Booting rtc\<rparr>"
  have "fw_inv pf (\<lambda>(r, tp). rinv r) ?f0"
    using assms(5-7) platform_okD(6) [OF assms(2)] by (intro firmware_start_inv) simp_all
  moreover have "fw_traffic c ?f0"
    using start_run_ok(2) [of rinv, OF assms(5)] unfolding fw_traffic_def
    by (intro exI [of _ "[]"]) (simp add: task_traffic_def)
  ultimately have i: "fw_inv pf (\<lambda>(r, tp). rinv r) f" and t: "fw_traffic c f"
    using firmware_traffic [OF assms(1-4) _ _ assms(8)] by blast+
  from t obtain subs got where s: "conserved subs got (fw_sys f)" "\<forall>r \<in> set subs. occasioned c got r" "\<forall>p \<in> set got. rx_wf p"
    and k: "task_traffic c subs got (fw_task f)" by (auto simp: fw_traffic_def)
  have "fw_task f \<noteq> Panicked" using i by (auto simp: fw_inv_def task_ok_def)
  then have "length subs \<le> length got + 1" using k by (auto simp: task_traffic_def split: task.splits)
  then show ?thesis using frames_at_most [OF s(1) assms(9)] frame_occasioned [OF s assms(9)] by blast
qed


text \<open>The tapped mock radio again: the responder starts and its greeting goes out.\<close>

abbreviation tap_fw :: "(MockRadio \<times> tape, MockRng, instant \<times> nat) firmware" where
  "tap_fw \<equiv> \<lparr>fw_sys = start_system tap_platform (MockRadio_new, blank) (MockRng_new 7) DispatcherConfig_default (0, 0),
     fw_task = Booting (VolatileRtcClock_new 0 1000)\<rparr>"

lemma tap_driver:
  "radio_driver (pf_radio tap_platform) (\<lambda>(r, tp :: tape). containers_ok list_containers \<and> mock_ok r)" "random_source (pf_random tap_platform)"
  using radio_driver.tapped_driver [OF mock.radio_driver_axioms [of list_containers]] mock_rng.random_source_axioms by simp_all

lemma tap_fw_inv: "fw_inv tap_platform (\<lambda>(r, tp :: tape). containers_ok list_containers \<and> mock_ok r) tap_fw"
  by (rule firmware_start_inv) (simp_all add: mock_ok_new VolatileRtcClock_new_def demo_clock_def DispatcherConfig_default_def)

lemma tap_greets:
  "\<exists>f x. firmware_reachable tap_platform demo_crypto 1000 tap_fw f \<and> x \<in> fst ` set (tp_sent (tape_of (sy_dp (fw_sys f)))) \<and>
    sy_phase (fw_sys f) \<noteq> Stopped"
proof -
  let ?pf = tap_platform and ?inv = "\<lambda>(r, tp :: tape). containers_ok list_containers \<and> mock_ok r" and ?s = "fw_sys tap_fw"
  note step_inv = radio_driver.firmware_step_inv [OF tap_driver(1) _ tap_platform_ok refl demo_crypto_ok]
  have "base_instant (VolatileRtcClock_new 0 1000) \<le> ck_time (pf_clock ?pf) (0, 0)" by (simp add: VolatileRtcClock_new_def)
  from user_boot_total [OF tap_platform_ok demo_crypto_ok this, of 1000] obtain u req w ts where
    b: "user_boot ?pf demo_crypto 1000 (VolatileRtcClock_new 0 1000) (0, 0) = Some (u, Some req, w)"
    and w: "w = reads demo_clock 3 (ck_after demo_clock (dur_from_millis ms_time 500) (0, 0))" and d: "delay_ms req = 0" by auto
  let ?s1 = "?s\<lparr>sy_clock := w\<rparr>" and ?s2 = "?s\<lparr>sy_clock := w, sy_tx_in := [req]\<rparr>"
  let ?f1 = "\<lparr>fw_sys = ?s1, fw_task = Sending u req\<rparr>" and ?f2 = "\<lparr>fw_sys = ?s2, fw_task = Running u\<rparr>"
  have st1: "firmware_step ?pf demo_crypto 1000 tap_fw ?f1"
    using fw_start [of tap_fw "VolatileRtcClock_new 0 1000" ?pf demo_crypto 1000] b by (simp add: task_outcome_def start_system_def)
  note i1 = step_inv [OF st1 tap_fw_inv]
  have st2: "firmware_step ?pf demo_crypto 1000 ?f1 ?f2"
    using fw_send [of ?f1 u req ?pf "[req]" demo_crypto 1000] by (simp add: start_system_def tap_platform_def)
  have s2: "system_inv ?pf ?inv ?s2" "live ?pf ?s2" using step_inv [OF st2 i1] by (simp_all add: fw_inv_def)
  have wf: "wf_packet (req_packet req)" using s2(2) by (simp add: live_def)
  have q: "tx_entries (dp_tx_queue (sy_dp ?s2)) = []" by (simp add: start_system_def Dispatcher_new_def TxQueue_new_def)
  have a: "affordable ?pf (dp_duty_cycle (sy_dp ?s2)) (wire_len (req_packet req))"
    using mock_affordable wf_wire_len_le [OF wf]
    by (simp add: affordable_def start_system_def Dispatcher_new_def mock_radio_def)
  obtain k where k: "w = (500, k)" using w by (auto simp: demo_clock_def numeral_3_eq_3 saturating_add_def)
  have "time_left ?pf 4 (sy_clock ?s2)" unfolding k by simp (rule demo_time_left; simp)
  from loop_top_sends [OF tap_driver tap_platform_ok _ s2 _ d q a this] obtain t r where
    t: "loop_top ?pf ?s2 = Some t" "dp_radio (sy_dp t) = snd (rd_send (pf_radio ?pf) (wire_bytes (req_packet req)) r)" by auto
  have st3: "firmware_step ?pf demo_crypto 1000 ?f2 \<lparr>fw_sys = t, fw_task = Running u\<rparr>"
    using fw_top [of ?f2 ?pf demo_crypto 1000] t(1) by (simp add: outcome_def start_system_def)
  have "firmware_reachable ?pf demo_crypto 1000 tap_fw \<lparr>fw_sys = t, fw_task = Running u\<rparr>"
    by (intro fw_more [OF _ st3] fw_more [OF _ st2] fw_more [OF _ st1] fw_here)
  moreover have "sy_phase t \<noteq> Stopped" using t(1) by (auto elim: loop_topE)
  ultimately show ?thesis using t(2) by (intro exI [of _ "\<lparr>fw_sys = t, fw_task = Running u\<rparr>"] exI [of _ "wire_bytes (req_packet req)"]) simp
qed

lemma firmware_only_answers_witness:
  "\<exists>f q. firmware_reachable tap_platform demo_crypto 1000 tap_fw f \<and> wire_bytes q \<in> fst ` set (tp_sent (tape_of (sy_dp (fw_sys f)))) \<and>
    (greeting demo_crypto q \<or> (\<exists>p. answers demo_crypto p q))"
proof -
  obtain f x where f: "firmware_reachable tap_platform demo_crypto 1000 tap_fw f" and x: "x \<in> fst ` set (tp_sent (tape_of (sy_dp (fw_sys f))))"
    using tap_greets by blast
  have "containers_ok list_containers \<and> mock_ok MockRadio_new" "base_instant (VolatileRtcClock_new 0 1000) \<le> ck_time (pf_clock tap_platform) (0, 0)"
    "0 < dur_from_millis (pf_time tap_platform) (ucast (cad_retry_min_ms DispatcherConfig_default))"
    by (simp_all add: mock_ok_new VolatileRtcClock_new_def DispatcherConfig_default_def)
  from firmware_only_answers [OF mock.radio_driver_axioms tap_platform_ok tap_platform_simps(1) demo_crypto_ok this f refl] x
  obtain q where "x = wire_bytes q" "greeting demo_crypto q \<or> (\<exists>p. answers demo_crypto p q)" by blast
  with f x show ?thesis by (intro exI [of _ f] exI [of _ q] conjI) simp_all
qed

end
