(* ===== verification/Board.thy ===== *)
theory Board
  imports Firmware "HOL-Library.Stream"
begin

text \<open>
  The LED signals of the board (\<open>boards/rak4631/src/main.rs\<close>), written to the registers of GPIO port 1 without the hardware abstraction: the checkpoints of the
  start-up, which tell how far it got, and the endless signal of the panic handler. A signal is a list, or a stream, of volatile writes, of
  delays in \<open>nop\<close> instructions and of pins set through the hardware abstraction.
\<close>

section \<open>Signals\<close>

definition P1 :: u32 where "P1 = 0x50000300"
definition OUTSET :: u32 where "OUTSET = P1 + 0x508"
definition OUTCLR :: u32 where "OUTCLR = P1 + 0x50C"

datatype signal = Write_Volatile u32 u32 | Nops nat | Set_High nat

text \<open>The shift of \<open>1 << pin\<close> is taken modulo the width, as in a release build.\<close>

definition raw_set :: "u8 \<Rightarrow> signal list" where
  "raw_set pin = [Write_Volatile OUTSET (push_bit (unat pin mod 32) 1)]"

definition raw_clear :: "u8 \<Rightarrow> signal list" where
  "raw_clear pin = [Write_Volatile OUTCLR (push_bit (unat pin mod 32) 1)]"

definition raw_delay_short :: "signal list" where
  "raw_delay_short = [Nops 500000]"

definition raw_delay_long :: "signal list" where
  "raw_delay_long = [Nops 2000000]"

definition checkpoint :: "u8 \<Rightarrow> signal list" where
  "checkpoint n =
     concat (replicate (unat n) (raw_set 3 @ raw_delay_short @ raw_clear 3 @ raw_delay_short)) @ raw_delay_long"

definition panic_round :: "signal list" where
  "panic_round = raw_set 3 @ raw_clear 4 @ raw_delay_short @ raw_clear 3 @ raw_set 4 @ raw_delay_short"

definition panic :: "signal stream" where
  "panic = cycle panic_round"

text \<open>
  The signals of \<open>main\<close> up to the event loop, in the order of the code, where \<open>lora\<close> is what the hardware set-up returns: \<^const>\<open>None\<close> if \<open>LoRa::new\<close> fails. A failure
  is unwrapped, and the handler's signal follows. The blue LED is pin 4.
\<close>

definition boot_signals :: "('l, 'm, 'p) lora \<Rightarrow> 'l option \<Rightarrow> signal list \<times> signal stream option" where
  "boot_signals lr lora =
     (case lora of
        None \<Rightarrow> (checkpoint 1, Some panic)
      | Some l \<Rightarrow> (case sx_configure lr radio_config (Sx1262Radio_new l) of
          (Inl _, _) \<Rightarrow> (checkpoint 1 @ checkpoint 2, Some panic)
        | (Inr _, _) \<Rightarrow> (checkpoint 1 @ checkpoint 2 @ checkpoint 3 @ [Set_High 4], None)))"

section \<open>What one sees\<close>

text \<open>
  The documented effect of the two registers on the levels of the port, and a watcher of pin 3: the length of each delay and whether the pin is high during it.
\<close>

fun gpio :: "u32 \<Rightarrow> signal \<Rightarrow> u32" where
  "gpio out (Write_Volatile a m) = (if a = OUTSET then out OR m else if a = OUTCLR then out AND NOT m else out)"
| "gpio out (Set_High n) = out OR push_bit n 1"
| "gpio out (Nops n) = out"

fun seen :: "nat \<Rightarrow> u32 \<Rightarrow> signal list \<Rightarrow> (nat \<times> bool) list" where
  "seen pin out [] = []"
| "seen pin out (Nops n # ss) = (n, bit out pin) # seen pin out ss"
| "seen pin out (s # ss) = seen pin (gpio out s) ss"

lemma seen_append: "seen pin out (xs @ ys) = seen pin out xs @ seen pin (foldl gpio out xs) ys"
  by (induction pin out xs rule: seen.induct) simp_all

lemma registers [simp]: "OUTSET \<noteq> OUTCLR" "OUTCLR \<noteq> OUTSET"
  by (simp_all add: OUTSET_def OUTCLR_def P1_def)

lemma pins [simp]: "unat (3 :: u8) mod 32 = 3" "unat (4 :: u8) mod 32 = 4"
  by simp_all

lemmas signal_defs = raw_set_def raw_clear_def raw_delay_short_def raw_delay_long_def

lemma bit_8: "bit (8 :: u32) n \<longleftrightarrow> n = 3"
proof -
  have "bit (2 ^ 3 :: u32) n \<longleftrightarrow> n = 3" by (auto simp only: bit_exp_iff) simp
  then show ?thesis by simp
qed

lemma clear_set:
  fixes out :: u32
  assumes "\<not> bit out 3"
  shows "(out OR 8) AND NOT 8 = out"
proof (rule bit_word_eqI)
  fix n assume "n < LENGTH(32)"
  then show "bit ((out OR 8) AND NOT 8) n \<longleftrightarrow> bit out n"
    unfolding bit_and_iff bit_or_iff bit_not_iff bit_8 using assms by auto
qed

lemma blink_effect:
  assumes "ss = concat (replicate n (raw_set 3 @ raw_delay_short @ raw_clear 3 @ raw_delay_short))" "\<not> bit out 3"
  shows "foldl gpio out ss = out \<and> seen 3 out ss = concat (replicate n [(500000, True), (500000, False)])"
  using assms
proof (induction n arbitrary: ss)
  case (Suc n)
  have o: "(out OR push_bit 3 1) AND NOT (push_bit 3 1) = out"
    using clear_set [OF Suc.prems(2)] by simp
  have l: "foldl gpio out (raw_set 3 @ raw_delay_short @ raw_clear 3 @ raw_delay_short) = out"
    using o by (simp add: signal_defs)
  have s: "seen 3 out (raw_set 3 @ raw_delay_short @ raw_clear 3 @ raw_delay_short) = [(500000, True), (500000, False)]"
    by (simp add: signal_defs bit_simps)
  from Suc.IH [OF refl Suc.prems(2)] l s show ?case
    unfolding Suc.prems(1) replicate_Suc concat.simps seen_append [of _ _ "raw_set 3 @ _ @ _ @ _"] foldl_append [of _ _ "raw_set 3 @ _ @ _ @ _"]
    by simp
qed simp

lemma checkpoint_effect:
  assumes "\<not> bit out 3"
  shows "foldl gpio out (checkpoint n) = out"
    and "seen 3 out (checkpoint n) = concat (replicate (unat n) [(500000, True), (500000, False)]) @ [(2000000, False)]"
  using blink_effect [OF refl assms] assms by (simp_all add: checkpoint_def seen_append raw_delay_long_def)


lemma bit_16: "bit (16 :: u32) n \<longleftrightarrow> n = 4"
proof -
  have "bit (2 ^ 4 :: u32) n \<longleftrightarrow> n = 4" by (auto simp only: bit_exp_iff) simp
  then show ?thesis by simp
qed

lemma panic_round_seen:
  "seen 3 out panic_round = [(500000, True), (500000, False)]" "seen 4 out panic_round = [(500000, False), (500000, True)]"
proof -
  let ?a = "(out OR 8) AND NOT 16"
  have "bit ?a 3" "\<not> bit ?a 4" "\<not> bit ((?a AND NOT 8) OR 16) 3" "bit ((?a AND NOT 8) OR 16) 4"
    unfolding bit_and_iff bit_or_iff bit_not_iff bit_8 bit_16 by simp_all
  then show "seen 3 out panic_round = [(500000, True), (500000, False)]" "seen 4 out panic_round = [(500000, False), (500000, True)]"
    by (simp_all add: panic_round_def signal_defs)
qed

lemma panic_seen:
  "seen 3 out (stake (6 * n) panic) = concat (replicate n [(500000, True), (500000, False)])"
  "seen 4 out (stake (6 * n) panic) = concat (replicate n [(500000, False), (500000, True)])"
proof -
  have "length panic_round = 6" "panic_round \<noteq> []" by (simp_all add: panic_round_def signal_defs)
  then have s: "stake (6 * n) panic = concat (replicate n panic_round)" by (simp add: panic_def stake_cycle)
  show "seen 3 out (stake (6 * n) panic) = concat (replicate n [(500000, True), (500000, False)])"
    unfolding s by (induction n arbitrary: out) (simp_all add: seen_append panic_round_seen)
  show "seen 4 out (stake (6 * n) panic) = concat (replicate n [(500000, False), (500000, True)])"
    unfolding s by (induction n arbitrary: out) (simp_all add: seen_append panic_round_seen)
qed

section \<open>Properties\<close>

text \<open>
  C39: The LEDs tell how far the start-up got: the green one blinks once, then twice if the transceiver was found, then three times exactly if the radio could be configured, in which
  case the blue one is switched on; otherwise the panic signal follows, in which the two LEDs alternate for ever, one of them being on during every delay.
\<close>
theorem signals_tell_progress:
  assumes "boot_signals lr lora = (ss, p)" "\<not> bit out 3"
    and "stage = (case lora of None \<Rightarrow> 1
      | Some l \<Rightarrow> if \<exists>r. sx_configure lr radio_config (Sx1262Radio_new l) = (Inr (), r) then 3 else 2)"
  shows "seen 3 out ss = concat (map (\<lambda>k. concat (replicate k [(500000, True), (500000, False)]) @ [(2000000, False)]) [1..<stage + 1]) \<and>
    (if stage = 3 then p = None \<and> bit (foldl gpio out ss) 4 else \<exists>h. p = Some h \<and>
      (\<forall>n out. seen 3 out (stake (6 * n) h) = concat (replicate n [(500000, True), (500000, False)]) \<and>
        seen 4 out (stake (6 * n) h) = concat (replicate n [(500000, False), (500000, True)])))"
proof -
  note c = checkpoint_effect [OF assms(2)]
  have u: "unat (1 :: u8) = 1" "unat (2 :: u8) = 2" "unat (3 :: u8) = 3" "[Suc 0..<2] = [1]" "[Suc 0..<3] = [1, 2]" "[Suc 0..<4] = [1, 2, 3]"
    by (simp_all add: upt_rec)
  consider (absent) "lora = None" | (fails) l e r where "lora = Some l" "sx_configure lr radio_config (Sx1262Radio_new l) = (Inl e, r)"
    | (works) l r where "lora = Some l" "sx_configure lr radio_config (Sx1262Radio_new l) = (Inr (), r)"
  proof (cases lora)
    case (Some l)
    obtain x r where x: "sx_configure lr radio_config (Sx1262Radio_new l) = (x, r)" by fastforce
    show ?thesis
    proof (cases x)
      case (Inl e)
      show ?thesis using fails [OF Some x [unfolded Inl]] .
    next
      case (Inr y)
      show ?thesis using works [OF Some] x Inr by simp
    qed
  qed (rule absent)
  then show ?thesis
  proof cases
    case absent
    then show ?thesis using assms(1) by (auto simp: boot_signals_def assms(3) c u panic_seen)
  next
    case fails
    then show ?thesis using assms(1) by (auto simp: boot_signals_def assms(3) seen_append c u panic_seen)
  next
    case works
    have "foldl gpio out (checkpoint 1 @ checkpoint 2 @ checkpoint 3 @ [Set_High 4]) = out OR 16" by (simp add: c)
    moreover have "bit (out OR 16) 4" unfolding bit_or_iff bit_16 by simp
    ultimately show ?thesis using works assms(1) by (auto simp: boot_signals_def assms(3) seen_append c u)
  qed
qed

lemma signals_tell_progress_witness:
  "\<exists>ss. boot_signals demo_lora (Some ()) = (ss, None) \<and> length (seen 3 0 ss) = 15"
proof -
  obtain ss p where b: "boot_signals demo_lora (Some ()) = (ss, p)" by fastforce
  have c: "\<exists>r. sx_configure demo_lora radio_config (Sx1262Radio_new ()) = (Inr (), r)"
    by (simp add: sx_configure_def demo_lora_def toy_lora_def Let_def)
  have "[Suc 0..<4] = [1, 2, 3]" by (simp add: upt_rec)
  with signals_tell_progress [OF b _ refl, of 0] c have "length (seen 3 0 ss) = 15" "p = None"
    by (simp_all add: numeral_2_eq_2 numeral_3_eq_3)
  with b show ?thesis by blast
qed

end
