(* ===== verification/Help_Storm.thy ===== *)
theory Help_Storm
  imports Responder
begin

text \<open>
  Two nodes that run the responder (\<open>boards/rak4631/src/main.rs\<close>) on the same channel, within radio range of each other and of nobody else: what one answers the other
  one receives.
\<close>

section \<open>The exchange\<close>

text \<open>
  The first node receives a packet, the second one its answer, and so on, for as many times as the list says; \<open>ws\<close> are the clocks at which the packets are received. The result lists
  the answers and ends where there is none.
\<close>

definition heard :: "Packet \<Rightarrow> RxPacket" where
  "heard p = \<lparr>rx_packet = p, rx_rssi = f32_zero, rx_snr = f32_zero\<rparr>"

fun exchange :: "('r, 'g, 'w) platform \<Rightarrow> crypto \<Rightarrow> 'w list \<Rightarrow> user \<Rightarrow> user \<Rightarrow> Packet \<Rightarrow> Packet list" where
  "exchange pf c [] u v p = []"
| "exchange pf c (w # ws) u v p =
     (case user_step pf c (u, w) (heard p) of
        Some (u, Some req, _) \<Rightarrow> req_packet req # exchange pf c ws v u (req_packet req)
      | _ \<Rightarrow> [])"

definition help_text :: "u8 list" where
  "help_text = NODE_NAME @ bytes_of '': !help !ping !status !path''"

definition help_command :: "u8 list \<Rightarrow> bool" where
  "help_command msg \<longleftrightarrow> utf8_valid msg \<and> length msg \<le> 171 \<and> (msg = [] \<or> last msg \<noteq> 0) \<and> starts_with (message_body msg) (bytes_of ''!help'')"

lemma help_text_command: "help_command help_text" "length help_text \<le> 160"
  unfolding help_command_def help_text_def by (code_simp+)

lemma seen_run_keeps:
  assumes "ring_ok d" "seen_run sha d ps = Some (bs, d')"
  shows "set (hashes d') \<subseteq> set (hashes d) \<union> packet_hash sha ` set ps"
  using assms
proof (induction ps arbitrary: d bs)
  case (Cons p ps)
  then obtain b d1 cs where h: "has_seen sha d p = Some (b, d1)" and r: "seen_run sha d1 ps = Some (cs, d')"
    by (auto simp: bind_eq_Some_conv)
  note k = has_seen_keeps [OF Cons.prems(1) h]
  have "set (hashes d') \<subseteq> set (hashes d1) \<union> packet_hash sha ` set ps" by (rule Cons.IH [OF _ r]) (use k in blast)
  moreover have "set (hashes d1) \<subseteq> insert (packet_hash sha p) (set (hashes d))" using k by simp
  ultimately show ?case by auto
qed simp

text \<open>One volley.\<close>

lemma help_volley:
  assumes pf: "platform_ok pf" and c: "crypto_ok c" and u: "user_ok pf u w" and m: "help_command msg"
    and p: "p = grp_packet c (us_secret u) (us_hash u) ts msg" and new: "packet_hash (sha256 c) p \<notin> set (hashes (us_dedup u))"
  obtains u' ts' w' where "user_step pf c (u, w) (heard p) = Some (u', Some (reply_request c u ts' help_text), w')"
    "req_packet (reply_request c u ts' help_text) = grp_packet c (us_secret u) (us_hash u) ts' help_text"
    "us_secret u' = us_secret u" "us_hash u' = us_hash u" "\<forall>x. user_ok pf u x \<longrightarrow> user_ok pf u' x"
    "set (hashes (us_dedup u')) \<subseteq> set (hashes (us_dedup u)) \<union>
      {packet_hash (sha256 c) p, packet_hash (sha256 c) (grp_packet c (us_secret u) (us_hash u) ts' help_text)}"
proof -
  have s: "length (us_secret u) = 32" using u by (simp add: user_ok_def)
  have wf: "rx_wf (heard p)"
    using wf_grp_packet [OF c s, of msg] m by (simp add: rx_wf_def heard_def p help_command_def)
  have "open_grp_txt c (us_secret u) (payload p) = Some \<lparr>timestamp = ts, tx_type = 0, message = msg\<rparr>"
    unfolding p using m open_grp_packet [OF c s] by (simp add: help_command_def)
  then have a: "answer c u up p = Some help_text" for up
    using m grp_packet_type by (simp add: answer_def p matches_channel_def grp_packet_def reply_text_def help_command_def help_text_def)
  from user_step_new [OF pf c u wf] new a obtain ts' d cdc d' w' seen where
    h: "has_seen (sha256 c) (us_dedup u) p = Some (False, d)"
    and h2: "has_seen (sha256 c) d (req_packet (reply_request c u ts' help_text)) = Some (seen, d')"
    and st: "user_step pf c (u, w) (heard p) = Some (u\<lparr>us_pkt_count := us_pkt_count u + 1, us_dedup := d', us_cdc := cdc\<rparr>,
      Some (reply_request c u ts' help_text), w')" (is "_ = Some (?u, _, _)")
    by (auto simp: heard_def)
  have q: "req_packet (reply_request c u ts' help_text) = grp_packet c (us_secret u) (us_hash u) ts' help_text"
    using help_text_command(2) by (simp add: reply_request_def)
  have r: "seen_run (sha256 c) (us_dedup u) [p, grp_packet c (us_secret u) (us_hash u) ts' help_text] = Some ([False, seen], d')"
    using h h2 q by simp
  have ring: "ring_ok (us_dedup u)" "length (hashes (us_dedup u)) = 128" using u by (simp_all add: user_ok_def)
  have "set (hashes d') \<subseteq> set (hashes (us_dedup u)) \<union>
      {packet_hash (sha256 c) p, packet_hash (sha256 c) (grp_packet c (us_secret u) (us_hash u) ts' help_text)}"
    using seen_run_keeps [OF ring(1) r] by auto
  moreover have "user_ok pf ?u x" if "user_ok pf u x" for x
    using that seen_run_fifo [OF ring(1), of "sha256 c" "[p, grp_packet c (us_secret u) (us_hash u) ts' help_text]"] r ring(2)
    by (auto simp: user_ok_def)
  ultimately show ?thesis using that [OF st q] by auto
qed

section \<open>Properties\<close>

lemma exchange_goes_on:
  assumes pf: "platform_ok pf" and c: "crypto_ok c"
    and "us_secret v = us_secret u" "us_hash v = us_hash u" "\<forall>w \<in> set ws. user_ok pf u w \<and> user_ok pf v w"
    and "help_command msg" "p = grp_packet c (us_secret u) (us_hash u) ts msg"
    and "distinct (map (packet_hash (sha256 c)) (p # exchange pf c ws u v p))"
    and "packet_hash (sha256 c) ` set (p # exchange pf c ws u v p) \<inter> (set (hashes (us_dedup u))) = {}"
    and "packet_hash (sha256 c) ` set (exchange pf c ws u v p) \<inter> (set (hashes (us_dedup v))) = {}"
  shows "length (exchange pf c ws u v p) = length ws \<and>
    (\<forall>q \<in> set (exchange pf c ws u v p). \<exists>ts. q = grp_packet c (us_secret u) (us_hash u) ts help_text)"
  using assms(3-)
proof (induction ws arbitrary: u v p ts msg)
  case (Cons w ws)
  let ?H = "packet_hash (sha256 c)"
  have u: "user_ok pf u w" using Cons.prems(3) by simp
  have new: "?H p \<notin> set (hashes (us_dedup u))" using Cons.prems(7) by auto
  obtain u' ts' w' where st: "user_step pf c (u, w) (heard p) = Some (u', Some (reply_request c u ts' help_text), w')"
    and q: "req_packet (reply_request c u ts' help_text) = grp_packet c (us_secret u) (us_hash u) ts' help_text"
    and k: "us_secret u' = us_secret u" "us_hash u' = us_hash u" "\<forall>x. user_ok pf u x \<longrightarrow> user_ok pf u' x"
    and d: "set (hashes (us_dedup u')) \<subseteq> set (hashes (us_dedup u)) \<union> {?H p, ?H (grp_packet c (us_secret u) (us_hash u) ts' help_text)}"
    using help_volley [OF pf c u Cons.prems(4,5) new] by blast
  let ?q = "grp_packet c (us_secret u) (us_hash u) ts' help_text"
  have e: "exchange pf c (w # ws) u v p = ?q # exchange pf c ws v u' ?q" using st q by simp
  have "length (exchange pf c ws v u' ?q) = length ws \<and>
      (\<forall>x \<in> set (exchange pf c ws v u' ?q). \<exists>ts. x = grp_packet c (us_secret v) (us_hash v) ts help_text)"
  proof (rule Cons.IH [OF _ _ _ help_text_command(1)])
    show "us_secret u' = us_secret v" "us_hash u' = us_hash v" "\<forall>w \<in> set ws. user_ok pf v w \<and> user_ok pf u' w"
      using k Cons.prems(1-3) by auto
    show "?q = grp_packet c (us_secret v) (us_hash v) ts' help_text" using Cons.prems(1,2) by simp
    show "distinct (map ?H (?q # exchange pf c ws v u' ?q))" using Cons.prems(6) unfolding e by simp
    show "?H ` set (?q # exchange pf c ws v u' ?q) \<inter> set (hashes (us_dedup v)) = {}" using Cons.prems(8) unfolding e by simp
    define X where "X = ?H ` set (exchange pf c ws v u' ?q)"
    have "?H p \<notin> X" "?H ?q \<notin> X" using Cons.prems(6) unfolding e by (simp_all add: X_def)
    moreover have "X \<inter> set (hashes (us_dedup u)) = {}" using Cons.prems(7) unfolding e by (simp add: X_def)
    ultimately have "X \<inter> set (hashes (us_dedup u')) = {}" using d by auto
    then show "?H ` set (exchange pf c ws v u' ?q) \<inter> set (hashes (us_dedup u')) = {}" by (simp only: X_def)
  qed
  then show ?case unfolding e using Cons.prems(1,2) by auto
qed simp

text \<open>
  C18: Two nodes never stop answering each other: after a text whose body begins with \<open>!help\<close>, which may be an answer to \<open>!help\<close>, every help text one node sends is answered by the
  other one with the help text again, however often, as long as no answer has the hash of an earlier packet, that is, as long as their clocks move on.
\<close>
theorem help_storm:
  assumes "platform_ok pf" "crypto_ok c" "us_secret v = us_secret u" "us_hash v = us_hash u" "\<forall>w \<in> set ws. user_ok pf u w \<and> user_ok pf v w"
    and "help_command msg" "p = grp_packet c (us_secret u) (us_hash u) ts msg" "answers = exchange pf c ws u v p"
    and "hs = map (packet_hash (sha256 c)) (p # answers)" "distinct hs" "set hs \<inter> (set (hashes (us_dedup u)) \<union> set (hashes (us_dedup v))) = {}"
  shows "help_command help_text \<and> length answers = length ws \<and>
    (\<forall>q \<in> set answers. \<exists>ts. q = grp_packet c (us_secret u) (us_hash u) ts help_text)"
  using exchange_goes_on [OF assms(1-7)] help_text_command(1) assms(8-11) by auto

text \<open>A command of a third node, and one answer.\<close>

lemma help_storm_witness:
  "\<exists>ts. exchange (demo_platform 4 4) demo_crypto [(0, 0)] demo_user demo_user (grp_packet demo_crypto (replicate 32 1) 7 5 (bytes_of ''abcd: !help'')) =
    [grp_packet demo_crypto (replicate 32 1) 7 ts help_text]"
proof -
  let ?p = "grp_packet demo_crypto (replicate 32 1) 7 5 (bytes_of ''abcd: !help'')" and ?H = "packet_hash (sha256 demo_crypto)"
  let ?e = "exchange (demo_platform 4 4) demo_crypto [(0, 0)] demo_user demo_user ?p"
  have m: "help_command (bytes_of ''abcd: !help'')" unfolding help_command_def by (code_simp+)
  have z: "(of_nat (4 + padded_len (5 + length (bytes_of ''abcd: !help''))) :: u8) \<noteq> 0" "(of_nat (4 + padded_len (5 + length help_text)) :: u8) \<noteq> 0"
    "(of_nat (4 + padded_len (5 + length help_text)) :: u8) \<noteq> of_nat (4 + padded_len (5 + length (bytes_of ''abcd: !help'')))"
    by (code_simp+)
  note new = demo_fresh [OF z(1), of 7 5]
  obtain u' ts' w' where "user_step (demo_platform 4 4) demo_crypto (demo_user, (0, 0)) (heard ?p) =
      Some (u', Some (reply_request demo_crypto demo_user ts' help_text), w')"
    "req_packet (reply_request demo_crypto demo_user ts' help_text) = grp_packet demo_crypto (us_secret demo_user) (us_hash demo_user) ts' help_text"
    by (rule help_volley [OF demo_platform_ok demo_crypto_ok demo_user_ok m _ new]) simp_all
  then have e: "?e = [grp_packet demo_crypto (replicate 32 1) 7 ts' help_text]" by simp
  have d: "distinct (map ?H (?p # ?e))" unfolding e using z(3) by (simp add: demo_hash)
  have i: "set (map ?H (?p # ?e)) \<inter> (set (hashes (us_dedup demo_user)) \<union> set (hashes (us_dedup demo_user))) = {}"
    unfolding e using new demo_fresh [OF z(2), of 7 ts'] by simp
  from help_storm [OF demo_platform_ok demo_crypto_ok refl refl _ m _ refl refl d i, of 5] demo_user_ok
  have "length ?e = 1" "\<forall>q \<in> set ?e. \<exists>ts. q = grp_packet demo_crypto (replicate 32 1) 7 ts help_text" by simp_all
  then show ?thesis unfolding e by simp
qed

end
