(* ===== verification/Backlog.thy ===== *)
theory Backlog
  imports Traffic
begin

text \<open>
  What becomes of a backlog: the entries of the transmit queue (\<open>crates/meshcore-dispatch/src/tx_queue.rs\<close>) that are due when the loop of
  \<open>dispatcher.rs\<close> comes to its top, while nothing new is submitted.
\<close>

section \<open>Rounds\<close>

text \<open>
  At most \<open>n\<close> rounds of the loop, back to back: the wake-up time is in the past, so the timer branch of the \<open>select\<close> is taken at once. The rounds end where the loop has to wait.
\<close>

fun rounds :: "nat \<Rightarrow> ('r, 'g, 'w) platform \<Rightarrow> ('r, 'g, 'w) system \<Rightarrow> ('r, 'g, 'w) system option" where
  "rounds 0 pf s = Some s"
| "rounds (Suc n) pf s = do {
     t \<leftarrow> loop_top pf s;
     case sy_phase t of
       Waiting (Some at) \<Rightarrow> if at \<le> ck_time (pf_clock pf) (sy_clock t) then rounds n pf (t\<lparr>sy_phase := Top\<rparr>) else Some t
     | _ \<Rightarrow> Some t
   }"

lemma rounds_reachable: "rounds n pf s = Some t \<Longrightarrow> sy_phase s = Top \<Longrightarrow> dispatch_reachable pf s t"
proof (induction n arbitrary: s)
  case (Suc n)
  then obtain u where u: "loop_top pf s = Some u" by (auto simp: bind_eq_Some_conv)
  from dispatch_step.top [OF Suc.prems(2), of pf] have "dispatch_step pf s u" by (simp add: u outcome_def)
  then have su: "dispatch_reachable pf s u" by (blast intro: dispatch_reachable.intros)
  show ?case
  proof (cases "\<exists>at. sy_phase u = Waiting (Some at) \<and> at \<le> ck_time (pf_clock pf) (sy_clock u)")
    case True
    then obtain at where at: "sy_phase u = Waiting (Some at)" "at \<le> ck_time (pf_clock pf) (sy_clock u)" by blast
    from dispatch_step.timer [OF at order.refl] have "dispatch_step pf u (u\<lparr>sy_phase := Top\<rparr>)" by simp
    with su have "dispatch_reachable pf s (u\<lparr>sy_phase := Top\<rparr>)" by (blast intro: dispatch_reachable.intros)
    moreover have "rounds n pf (u\<lparr>sy_phase := Top\<rparr>) = Some t" using Suc.prems(1) u at by simp
    ultimately show ?thesis using Suc.IH dispatch_reachable_trans by fastforce
  next
    case False
    then have "t = u" using Suc.prems(1) u by (auto split: phase.splits option.splits if_splits)
    with su show ?thesis by simp
  qed
qed (simp add: dispatch_reachable.intros)

section \<open>One round\<close>

lemma transmit_entry_tape:
  assumes "pf_radio pf = tapped rd" "transmit_entry pf e (d, buf, w) = Some (d', buf', w')"
  shows "\<exists>ok. tp_sent (tape_of d') = tp_sent (tape_of d) @ [(wire_bytes (te_packet e), ok)] \<and> dp_tx_queue d' = dp_tx_queue d"
proof -
  from transmit_entryD [OF assms(2)] obtain deadline v clear r g v' x ms where
    cad: "cad_loop pf (dp_config d) deadline (dp_radio d) (dp_rng d) v = Some (clear, r, g, v')"
    and x: "x = rd_send (pf_radio pf) (wire_bytes (te_packet e)) r"
    and d': "d' = d\<lparr>dp_radio := snd x, dp_rng := g,
      dp_duty_cycle := (case fst x of Inr _ \<Rightarrow> deduct (dp_duty_cycle d) ms | Inl _ \<Rightarrow> dp_duty_cycle d),
      dp_stats := (case fst x of Inr _ \<Rightarrow> count_sent (packet_is_flood (te_packet e)) ms (dp_stats d) | Inl _ \<Rightarrow> dp_stats d)\<rparr>"
    by blast
  have "snd r = tape_of d" using cad_loop_keeps [of "\<lambda>r. snd r = tape_of d", OF _ _ cad] assms(1) by simp
  then have "snd (snd x) = (tape_of d)\<lparr>tp_sent := tp_sent (tape_of d) @ [(wire_bytes (te_packet e), \<not> isl (fst x))]\<rparr>"
    by (simp add: x assms(1))
  then show ?thesis unfolding d' by simp
qed

lemma maybe_transmit_sends:
  assumes pf: "platform_ok pf" "pf_radio pf = tapped rd" and mt: "maybe_transmit pf (d, buf, w) = Some (d', buf', w')"
    and es: "tx_entries (dp_tx_queue d) \<noteq> []" "\<forall>e \<in> set (tx_entries (dp_tx_queue d)). send_after e \<le> ck_time (pf_clock pf) w"
    and aff: "\<forall>e \<in> set (tx_entries (dp_tx_queue d)). affordable pf (dp_duty_cycle d) (wire_len (te_packet e))" and dc: "duty_inv (dp_duty_cycle d)"
  shows "\<exists>b ok. b \<in> set (tx_entries (dp_tx_queue d)) \<and> (\<forall>e \<in> set (tx_entries (dp_tx_queue d)). tx_key b \<le> tx_key e) \<and>
    mset (tx_entries (dp_tx_queue d)) = add_mset b (mset (tx_entries (dp_tx_queue d'))) \<and>
    tp_sent (tape_of d') = tp_sent (tape_of d) @ [(wire_bytes (te_packet b), ok)]"
proof -
  obtain now w1 where n: "ck_now (pf_clock pf) w = (now, w1)" by fastforce
  have rdy: "tx_ready now e" if "e \<in> set (tx_entries (dp_tx_queue d))" for e
    using that es(2) clock_okD [OF platform_okD(7) [OF pf(1)] n] by (auto simp: tx_ready_def intro: order.trans)
  obtain e where e: "e \<in> set (tx_entries (dp_tx_queue d))" using es(1) by (meson last_in_set)
  from tx_pop_some [OF platform_okD(2) [OF pf(1)] e rdy [OF e]] obtain b q where
    pop: "tx_pop_ready (pf_tx pf) now (dp_tx_queue d) = Some (Some b, q)" and b: "b \<in> set (tx_entries (dp_tx_queue d))"
    "\<forall>f \<in> set (tx_entries (dp_tx_queue d)). tx_ready now f \<longrightarrow> tx_key b \<le> tx_key f" "mset (tx_entries q) = mset (tx_entries (dp_tx_queue d)) - {#b#}"
    by blast
  from mt n obtain dc' where rf: "refill (pf_time pf) (dp_duty_cycle d) now = Some dc'" by (auto simp: maybe_transmit_def bind_eq_Some_conv)
  have "affordable pf dc' (wire_len (te_packet b))" using affordable_refill [OF _ rf dc] aff b(1) by blast
  then have "can_transmit dc' (rd_estimate_airtime_ms (pf_radio pf) (dp_radio d) (wire_len (te_packet b)))" unfolding affordable_def by blast
  with mt n rf pop have te: "transmit_entry pf b (d\<lparr>dp_duty_cycle := dc', dp_tx_queue := q\<rparr>, buf, w1) = Some (d', buf', w')"
    by (simp add: maybe_transmit_def)
  from transmit_entry_tape [OF pf(2) this] b rdy show ?thesis by auto
qed

lemma round_sends:
  assumes rd: "radio_driver rd rinv" "random_source (pf_random pf)" and pf: "platform_ok pf" "pf_radio pf = tapped rd"
    and s: "system_inv pf (\<lambda>(r, tp). rinv r) s" "live pf s" "sy_tx_in s = []" "time_left pf 3 (sy_clock s)"
    and es: "es = tx_entries (dp_tx_queue (sy_dp s))" "es \<noteq> []" "\<forall>e \<in> set es. send_after e \<le> ck_time (pf_clock pf) (sy_clock s)"
    and aff: "\<forall>e \<in> set es. affordable pf (dp_duty_cycle (sy_dp s)) (wire_len (te_packet e))"
  shows "\<exists>t b ok. loop_top pf s = Some t \<and> b \<in> set es \<and> (\<forall>e \<in> set es. tx_key b \<le> tx_key e) \<and>
    mset es = add_mset b (mset (tx_entries (dp_tx_queue (sy_dp t)))) \<and>
    tp_sent (tape_of (sy_dp t)) = tp_sent (tape_of (sy_dp s)) @ [(wire_bytes (te_packet b), ok)] \<and> sy_tx_in t = [] \<and>
    sy_phase t = Waiting (next_wake_time (sy_dp t)) \<and> ck_time (pf_clock pf) (sy_clock s) \<le> ck_time (pf_clock pf) (sy_clock t)"
proof -
  have rt: "radio_driver (pf_radio pf) (\<lambda>(r, tp). rinv r)" using radio_driver.tapped_driver [OF rd(1)] pf(2) by simp
  from radio_driver.loop_top_total [OF rt pf(1) refl rd(2) s(1,2)] s(3,4) obtain t where t: "loop_top pf s = Some t" by auto
  then show ?thesis
  proof (rule loop_topE)
    fix tx_in q w now w1 dq out d buf w2
    let ?d = "sy_dp s" and ?d1 = "(sy_dp s)\<lparr>dp_tx_queue := q, dp_rx_delay_queue := dq\<rparr>"
    assume ds: "drain_submissions (length (sy_tx_in s) + 1) pf (sy_tx_in s, dp_tx_queue ?d, sy_clock s) = Some (tx_in, q, w)"
      and n: "ck_now (pf_clock pf) w = (now, w1)"
      and mt: "maybe_transmit pf (?d1, sy_buf s, w1) = Some (d, buf, w2)"
      and t': "t = s\<lparr>sy_dp := d, sy_tx_in := tx_in, sy_rx_out := out, sy_buf := buf, sy_clock := w2, sy_phase := Waiting (next_wake_time d)\<rparr>"
    have q: "tx_in = []" "q = dp_tx_queue ?d" "w = sy_clock s" using ds s(3) platform_okD(4) [OF pf(1)] by simp_all
    have "ck_time (pf_clock pf) (sy_clock s) \<le> ck_time (pf_clock pf) w1" using clock_okD [OF platform_okD(7) [OF pf(1)] n] q(3) by simp
    then have "\<forall>e \<in> set (tx_entries (dp_tx_queue ?d1)). send_after e \<le> ck_time (pf_clock pf) w1" using es q(2) by auto
    moreover have "duty_inv (dp_duty_cycle ?d1)" using s(1) by (simp add: system_inv_def dispatcher_inv_def)
    ultimately obtain b ok where b: "b \<in> set es" "\<forall>e \<in> set es. tx_key b \<le> tx_key e" "mset es = add_mset b (mset (tx_entries (dp_tx_queue d)))"
      "tp_sent (tape_of d) = tp_sent (tape_of ?d1) @ [(wire_bytes (te_packet b), ok)]"
      using maybe_transmit_sends [OF pf mt] es(1,2) aff q(2) by auto
    with loop_top_live [OF pf(1) s(2) t] show ?thesis by (intro exI [of _ t] exI [of _ b] exI [of _ ok]) (simp add: t t' q(1))
  qed
qed

lemma wake_due:
  assumes "e \<in> set (tx_entries (dp_tx_queue d))" "send_after e \<le> t"
  shows "\<exists>at. next_wake_time d = Some at \<and> at \<le> t"
proof -
  obtain a where a: "tx_next_ready_time (dp_tx_queue d) = Some a"
    using assms(1) unfolding tx_next_ready_time_def by (metis empty_iff list.set(1) map_is_Nil_conv min_instant_None_iff not_None_eq)
  then have "a \<le> send_after e" using min_instant_Some [of "map send_after (tx_entries (dp_tx_queue d))" a] assms(1)
    by (simp add: tx_next_ready_time_def)
  with assms(2) a show ?thesis
    by (cases "rx_next_ready_time (dp_rx_delay_queue d)") (auto simp: next_wake_time_def)
qed

section \<open>All rounds\<close>

lemma rounds_send:
  assumes rd: "radio_driver rd rinv" "random_source (pf_random pf)" and pf: "platform_ok pf" "pf_radio pf = tapped rd"
    and "system_inv pf (\<lambda>(r, tp). rinv r) s" "live pf s" "sy_tx_in s = []"
    and "es = tx_entries (dp_tx_queue (sy_dp s))" "\<forall>e \<in> set es. send_after e \<le> ck_time (pf_clock pf) (sy_clock s)"
    and "\<forall>k < length es. \<forall>t. rounds k pf s = Some t \<longrightarrow> time_left pf 3 (sy_clock t) \<and>
      (\<forall>e \<in> set es. affordable pf (dp_duty_cycle (sy_dp t)) (wire_len (te_packet e)))"
  shows "\<exists>t sent. rounds (length es) pf s = Some t \<and> tx_entries (dp_tx_queue (sy_dp t)) = [] \<and> mset sent = mset es \<and> sorted (map tx_key sent) \<and>
    map fst (tp_sent (tape_of (sy_dp t))) = map fst (tp_sent (tape_of (sy_dp s))) @ map (wire_bytes \<circ> te_packet) sent"
  using assms(5-)
proof (induction "length es" arbitrary: es s)
  case 0
  then show ?case by simp
next
  case (Suc n)
  have ne: "es \<noteq> []" using Suc.hyps(2) by auto
  have "time_left pf 3 (sy_clock s)" "\<forall>e \<in> set es. affordable pf (dp_duty_cycle (sy_dp s)) (wire_len (te_packet e))"
    using Suc.prems(6) Suc.hyps(2) by (metis rounds.simps(1) zero_less_Suc)+
  from round_sends [OF rd pf Suc.prems(1-3) this(1) Suc.prems(4) ne Suc.prems(5) this(2)] obtain t b ok where
    t: "loop_top pf s = Some t" and b: "b \<in> set es" "\<forall>e \<in> set es. tx_key b \<le> tx_key e" "mset es = add_mset b (mset (tx_entries (dp_tx_queue (sy_dp t))))"
    and tp: "tp_sent (tape_of (sy_dp t)) = tp_sent (tape_of (sy_dp s)) @ [(wire_bytes (te_packet b), ok)]"
    and ti: "sy_tx_in t = []" and ph: "sy_phase t = Waiting (next_wake_time (sy_dp t))"
    and ck: "ck_time (pf_clock pf) (sy_clock s) \<le> ck_time (pf_clock pf) (sy_clock t)" by blast
  let ?es = "tx_entries (dp_tx_queue (sy_dp t))" and ?t = "t\<lparr>sy_phase := Top\<rparr>"
  have sub: "set ?es \<subseteq> set es" using b(3) by (metis set_mset_add_mset_insert set_mset_mset subset_insertI)
  have len: "length ?es = n" using arg_cong [OF b(3), of size] Suc.hyps(2) by simp
  have due: "\<forall>e \<in> set ?es. send_after e \<le> ck_time (pf_clock pf) (sy_clock t)" using Suc.prems(5) sub ck by (auto intro: order.trans)
  show ?case
  proof (cases "\<exists>at. sy_phase t = Waiting (Some at) \<and> at \<le> ck_time (pf_clock pf) (sy_clock t)")
    case False
    have e: "?es = []"
    proof (rule ccontr)
      assume "?es \<noteq> []"
      then obtain e where "e \<in> set ?es" by (meson last_in_set)
      with wake_due [of e "sy_dp t"] due False ph show False by auto
    qed
    then have n: "length es = Suc 0" using len Suc.hyps(2) by simp
    have "rounds (Suc 0) pf s = Some t" using t False ph by (auto split: option.splits)
    moreover have "mset [b] = mset es" using b(3) e by simp
    ultimately show ?thesis using e tp unfolding n by (intro exI [of _ t] exI [of _ "[b]"]) simp
  next
    case True
    then have r: "rounds (Suc k) pf s = rounds k pf ?t" for k using t by auto
    have rt: "radio_driver (pf_radio pf) (\<lambda>(r, tp). rinv r)" using radio_driver.tapped_driver [OF rd(1)] pf(2) by simp
    have "\<exists>u sent. rounds (length ?es) pf ?t = Some u \<and> tx_entries (dp_tx_queue (sy_dp u)) = [] \<and> mset sent = mset ?es \<and> sorted (map tx_key sent) \<and>
      map fst (tp_sent (tape_of (sy_dp u))) = map fst (tp_sent (tape_of (sy_dp ?t))) @ map (wire_bytes \<circ> te_packet) sent"
    proof (rule Suc.hyps(1))
      show "n = length ?es" using len by simp
      show "system_inv pf (\<lambda>(r, tp). rinv r) ?t"
        using radio_driver.loop_top_inv [OF rt pf(1) refl Suc.prems(1) t] by (simp add: system_inv_def)
      show "live pf ?t" using loop_top_live [OF pf(1) Suc.prems(2) t] by (simp add: live_def)
      show "\<forall>k < length ?es. \<forall>u. rounds k pf ?t = Some u \<longrightarrow> time_left pf 3 (sy_clock u) \<and>
          (\<forall>e \<in> set ?es. affordable pf (dp_duty_cycle (sy_dp u)) (wire_len (te_packet e)))"
        using Suc.prems(6) Suc.hyps(2) len r sub by (metis Suc_less_eq subsetD)
    qed (use ti due in simp_all)
    then obtain u sent where u: "rounds (length ?es) pf ?t = Some u" "tx_entries (dp_tx_queue (sy_dp u)) = []" "mset sent = mset ?es" "sorted (map tx_key sent)"
      "map fst (tp_sent (tape_of (sy_dp u))) = map fst (tp_sent (tape_of (sy_dp ?t))) @ map (wire_bytes \<circ> te_packet) sent" by blast
    have "mset (b # sent) = mset es" using b(3) u(3) by simp
    moreover have "set sent = set ?es" using u(3) by (metis set_mset_mset)
    then have "sorted (map tx_key (b # sent))" using b(2) u(4) sub by auto
    moreover have "rounds (length es) pf s = Some u" using u(1) r [of n] len Suc.hyps(2) by simp
    ultimately show ?thesis using u(2,5) tp by (intro exI [of _ u] exI [of _ "b # sent"]) simp
  qed
qed

section \<open>Properties\<close>

text \<open>
  C9: A backlog is transmitted, in order: when the entries of the transmit queue are all due and nothing is submitted, the loop hands exactly their wire images to the radio,
  by increasing priority number and then due time, within as many rounds as there are entries, which are steps of the dispatcher, as long as the budget allows it.
\<close>
theorem backlog_is_sent:
  assumes "radio_driver rd rinv" "random_source (pf_random pf)" "platform_ok pf" "pf_radio pf = tapped rd"
    and "system_inv pf (\<lambda>(r, tp). rinv r) s" "live pf s" "sy_phase s = Top" "sy_tx_in s = []"
    and "es = tx_entries (dp_tx_queue (sy_dp s))" "\<forall>e \<in> set es. send_after e \<le> ck_time (pf_clock pf) (sy_clock s)"
    and "\<forall>k < length es. \<forall>t. rounds k pf s = Some t \<longrightarrow> time_left pf 3 (sy_clock t) \<and>
      (\<forall>e \<in> set es. affordable pf (dp_duty_cycle (sy_dp t)) (wire_len (te_packet e)))"
  shows "\<exists>t sent. rounds (length es) pf s = Some t \<and> dispatch_reachable pf s t \<and> tx_entries (dp_tx_queue (sy_dp t)) = [] \<and>
    mset sent = mset es \<and> sorted (map tx_key sent) \<and>
    map fst (tp_sent (tape_of (sy_dp t))) = map fst (tp_sent (tape_of (sy_dp s))) @ map (wire_bytes \<circ> te_packet) sent"
  using rounds_send [OF assms(1-6,8-)] rounds_reachable [OF _ assms(7)] by blast

text \<open>One entry, due.\<close>

lemma backlog_is_sent_witness:
  "\<exists>s t. tx_entries (dp_tx_queue (sy_dp s)) = [\<lparr>te_packet = sample_packet, te_priority = 1, send_after = 5\<rparr>] \<and>
    rounds 1 tap_platform s = Some t \<and> map fst (tp_sent (tape_of (sy_dp t))) = [wire_bytes sample_packet]"
proof -
  let ?pf = tap_platform and ?e = "\<lparr>te_packet = sample_packet, te_priority = 1, send_after = 5\<rparr>" and ?J = "\<lambda>(r, tp :: tape). containers_ok list_containers \<and> mock_ok r"
  let ?init = "start_system ?pf (MockRadio_new, blank) (MockRng_new 7) DispatcherConfig_default (10, 0)"
  let ?s = "?init\<lparr>sy_dp := (sy_dp ?init)\<lparr>dp_tx_queue := \<lparr>tx_entries = [?e]\<rparr>\<rparr>\<rparr>"
  have cad: "cad_retry_min_ms DispatcherConfig_default = 120" by (simp add: DispatcherConfig_default_def)
  have l: "live ?pf ?s"
    using sample_packet_wf cad by (simp add: live_def start_system_def Dispatcher_new_def default_tracker demo_clock_def)
  have i0: "system_inv ?pf ?J ?init" by (rule start_system_inv) (simp add: mock_ok_new)
  then have "dispatcher_inv ?pf ?J (sy_dp ?s)" by (simp add: system_inv_def dispatcher_inv_def)
  with i0 have i: "system_inv ?pf ?J ?s" by (simp add: system_inv_def)
  have f: "sy_phase ?s = Top" "sy_tx_in ?s = []" "\<forall>e \<in> set [?e]. send_after e \<le> ck_time (pf_clock ?pf) (sy_clock ?s)"
    by (simp_all add: start_system_def demo_clock_def)
  have "affordable ?pf (dp_duty_cycle (sy_dp ?s)) (wire_len sample_packet)"
    using mock_affordable wf_wire_len_le [OF sample_packet_wf]
    by (simp add: affordable_def start_system_def Dispatcher_new_def mock_radio_def)
  moreover have "time_left ?pf 3 (sy_clock ?s)" unfolding start_system_def by simp (rule demo_time_left; simp)
  ultimately have g: "\<forall>k < length [?e]. \<forall>t. rounds k ?pf ?s = Some t \<longrightarrow> time_left ?pf 3 (sy_clock t) \<and>
      (\<forall>e \<in> set [?e]. affordable ?pf (dp_duty_cycle (sy_dp t)) (wire_len (te_packet e)))" by simp
  have q: "[?e] = tx_entries (dp_tx_queue (sy_dp ?s))" by simp
  from backlog_is_sent [OF mock.radio_driver_axioms _ tap_platform_ok tap_platform_simps(1) i l f(1,2) q f(3) g] mock_rng.random_source_axioms
  obtain t sent where t: "rounds 1 ?pf ?s = Some t" "mset sent = {#?e#}"
    "map fst (tp_sent (tape_of (sy_dp t))) = map fst (tp_sent (tape_of (sy_dp ?s))) @ map (wire_bytes \<circ> te_packet) sent" by auto
  have "sent = [?e]" using t(2) by simp
  moreover have "tp_sent (tape_of (sy_dp ?s)) = []" by (simp add: start_system_def Dispatcher_new_def blank_def)
  ultimately have "map fst (tp_sent (tape_of (sy_dp t))) = [wire_bytes sample_packet]" using t(3) by simp
  with t(1) q [symmetric] show ?thesis by (intro exI [of _ ?s] exI [of _ t] conjI)
qed

end
