(* ===== verification/Fine_Grained.thy ===== *)
theory Fine_Grained
  imports Traffic
begin

text \<open>
  The loop of the dispatcher cut at every \<open>await\<close> of a transmission (\<open>crates/meshcore-dispatch/src/dispatcher.rs\<close>): listening to the channel, the pause before
  listening again and the transmission itself, between which the other task runs. \<open>fine_step\<close> is the step relation of the dispatcher among tasks that submit and
  take packets at any of these points.
\<close>

section \<open>A round in pieces\<close>

text \<open>
  Where the dispatcher is inside a round: nowhere (it is at the top of its loop or waits there), about to listen on behalf of an entry until the deadline,
  in the pause of the given duration that began at an instant, or about to transmit the bytes, the start having been noted.
\<close>

datatype stage =
  Resting
| Listening TxEntry instant
| Pausing TxEntry instant instant duration
| Transmitting TxEntry instant "u8 list"

text \<open>From \<open>maybe_transmit\<close> to the first wait of \<open>wait_for_clear_channel\<close>.\<close>

definition begin_transmit :: "('r, 'g, 'w) platform \<Rightarrow> ('r, 'g, 'w) system \<Rightarrow> (('r, 'g, 'w) system \<times> stage) option" where
  "begin_transmit pf s = do {
     let d = sy_dp s;
     let (now, w) = ck_now (pf_clock pf) (sy_clock s);
     dc \<leftarrow> refill (pf_time pf) (dp_duty_cycle d) now;
     let d = d\<lparr>dp_duty_cycle := dc\<rparr>;
     (ready, q) \<leftarrow> tx_pop_ready (pf_tx pf) now (dp_tx_queue d);
     let d = d\<lparr>dp_tx_queue := q\<rparr>;
     case ready of
       None \<Rightarrow> Some (s\<lparr>sy_dp := d, sy_clock := w, sy_phase := Waiting (next_wake_time d)\<rparr>, Resting)
     | Some entry \<Rightarrow>
         let est_airtime = rd_estimate_airtime_ms (pf_radio pf) (dp_radio d) (wire_len (te_packet entry))
         in if \<not> can_transmit (dp_duty_cycle d) est_airtime
            then let d = d\<lparr>dp_tx_queue := snd (tx_push_entry (pf_tx pf) (pf_TX_Q pf) (dp_tx_queue d) entry)\<rparr>
                 in Some (s\<lparr>sy_dp := d, sy_clock := w, sy_phase := Waiting (next_wake_time d)\<rparr>, Resting)
            else do {
              let (now, w) = ck_now (pf_clock pf) w;
              deadline \<leftarrow> inst_add (pf_time pf) now (dur_from_millis (pf_time pf) (ucast (cad_timeout_ms (dp_config d))));
              Some (s\<lparr>sy_dp := d, sy_clock := w\<rparr>, Listening entry deadline)
            }
   }"

text \<open>From the top of the loop to its first wait.\<close>

definition enter_round :: "('r, 'g, 'w) platform \<Rightarrow> ('r, 'g, 'w) system \<Rightarrow> (('r, 'g, 'w) system \<times> stage) option" where
  "enter_round pf s = do {
     let d = sy_dp s;
     (tx_in, q, w) \<leftarrow> drain_submissions (length (sy_tx_in s) + 1) pf (sy_tx_in s, dp_tx_queue d, sy_clock s);
     let (now, w) = ck_now (pf_clock pf) w;
     (dq, rx_out) \<leftarrow> deliver_ready (rx_len (dp_rx_delay_queue d) + 1) pf now (dp_rx_delay_queue d, sy_rx_out s);
     begin_transmit pf (s\<lparr>sy_dp := d\<lparr>dp_tx_queue := q, dp_rx_delay_queue := dq\<rparr>, sy_tx_in := tx_in, sy_rx_out := rx_out, sy_clock := w\<rparr>)
   }"

text \<open>From the end of carrier sensing to the transmission.\<close>

definition begin_send :: "('r, 'g, 'w) platform \<Rightarrow> TxEntry \<Rightarrow> ('r, 'g, 'w) system \<Rightarrow> (('r, 'g, 'w) system \<times> stage) option" where
  "begin_send pf entry s = do {
     (len, buf) \<leftarrow> write_to (te_packet entry) (sy_buf s);
     let (tx_start, w) = ck_now (pf_clock pf) (sy_clock s);
     data \<leftarrow> slice buf 0 len;
     Some (s\<lparr>sy_buf := buf, sy_clock := w\<rparr>, Transmitting entry tx_start data)
   }"

text \<open>An iteration of the loop of \<open>wait_for_clear_channel\<close>, to its pause or its end.\<close>

definition listen :: "('r, 'g, 'w) platform \<Rightarrow> TxEntry \<Rightarrow> instant \<Rightarrow> ('r, 'g, 'w) system \<Rightarrow> (('r, 'g, 'w) system \<times> stage) option" where
  "listen pf entry deadline s =
     (case rd_channel_active (pf_radio pf) (dp_radio (sy_dp s)) of
        (Inl _, r) \<Rightarrow> begin_send pf entry (s\<lparr>sy_dp := (sy_dp s)\<lparr>dp_radio := r\<rparr>\<rparr>)
      | (Inr active, r) \<Rightarrow>
          (let d = (sy_dp s)\<lparr>dp_radio := r\<rparr>
           in if \<not> active then begin_send pf entry (s\<lparr>sy_dp := d\<rparr>)
              else case ck_now (pf_clock pf) (sy_clock s) of (now, w) \<Rightarrow>
                if now \<ge> deadline then begin_send pf entry (s\<lparr>sy_dp := d, sy_clock := w\<rparr>)
                else case next_u32 (pf_random pf) (dp_rng d) (cad_retry_min_ms (dp_config d)) (cad_retry_max_ms (dp_config d)) of (delay, g) \<Rightarrow>
                  Some (s\<lparr>sy_dp := d\<lparr>dp_rng := g\<rparr>, sy_clock := w\<rparr>,
                    Pausing entry deadline (ck_time (pf_clock pf) w) (dur_from_millis (pf_time pf) (ucast delay)))))"

text \<open>The transmission, its accounting, and the wake-up time the loop waits for.\<close>

definition send_frame :: "('r, 'g, 'w) platform \<Rightarrow> TxEntry \<Rightarrow> instant \<Rightarrow> u8 list \<Rightarrow> ('r, 'g, 'w) system \<Rightarrow> ('r, 'g, 'w) system option" where
  "send_frame pf entry tx_start data s = do {
     let (tx_result, r) = rd_send (pf_radio pf) data (dp_radio (sy_dp s));
     let d = (sy_dp s)\<lparr>dp_radio := r\<rparr>;
     let (tx_end, w) = ck_now (pf_clock pf) (sy_clock s);
     elapsed \<leftarrow> inst_sub (pf_time pf) tx_end tx_start;
     let actual_airtime = (ucast (dur_as_millis (pf_time pf) elapsed) :: u32);
     let d = (case tx_result of
       Inr _ \<Rightarrow> d\<lparr>dp_duty_cycle := deduct (dp_duty_cycle d) actual_airtime,
                 dp_stats := count_sent (packet_is_flood (te_packet entry)) actual_airtime (dp_stats d)\<rparr>
     | Inl _ \<Rightarrow> d);
     Some (s\<lparr>sy_dp := d, sy_clock := w, sy_phase := Waiting (next_wake_time d)\<rparr>)
   }"

text \<open>A panic inside a round stops the system.\<close>

definition fine_outcome :: "('r, 'g, 'w) system \<Rightarrow> (('r, 'g, 'w) system \<times> stage) option \<Rightarrow> ('r, 'g, 'w) system \<times> stage" where
  "fine_outcome s r = (case r of None \<Rightarrow> (s\<lparr>sy_phase := Stopped\<rparr>, Resting) | Some x \<Rightarrow> x)"

text \<open>The pieces of a round.\<close>

inductive piece_step :: "('r, 'g, 'w) platform \<Rightarrow> ('r, 'g, 'w) system \<times> stage \<Rightarrow> ('r, 'g, 'w) system \<times> stage \<Rightarrow> bool" for pf where
  piece_top: "sy_phase s = Top \<Longrightarrow> piece_step pf (s, Resting) (fine_outcome s (enter_round pf s))"
| piece_listen: "piece_step pf (s, Listening entry deadline) (fine_outcome s (listen pf entry deadline s))"
| piece_pause: "piece_step pf (s, Pausing entry deadline since dur)
    (s\<lparr>sy_clock := ck_after (pf_clock pf) dur (sy_clock s)\<rparr>, Listening entry deadline)"
| piece_send: "piece_step pf (s, Transmitting entry tx_start data)
    (fine_outcome s (map_option (\<lambda>t. (t, Resting)) (send_frame pf entry tx_start data s)))"

text \<open>
  The steps of the dispatcher with its rounds in pieces. What it waits for at the end of a round is as before; submitting and taking packets is possible at every
  stage.
\<close>

inductive fine_step :: "('r, 'g, 'w) platform \<Rightarrow> ('r, 'g, 'w) system \<times> stage \<Rightarrow> ('r, 'g, 'w) system \<times> stage \<Rightarrow> bool" for pf where
  fine_piece: "piece_step pf x y \<Longrightarrow> fine_step pf x y"
| fine_wait: "sy_phase s = Waiting wake \<Longrightarrow> dispatch_step pf s t \<Longrightarrow> fine_step pf (s, Resting) (t, Resting)"
| fine_submit: "ch_try_send (pf_tx_in pf) (pf_TX_Q pf) (sy_tx_in s) req = Inr tx_in \<Longrightarrow>
    fine_step pf (s, st) (s\<lparr>sy_tx_in := tx_in\<rparr>, st)"
| fine_consume: "ch_try_receive (pf_rx_out pf) (sy_rx_out s) = Some (p, rx_out) \<Longrightarrow>
    fine_step pf (s, st) (s\<lparr>sy_rx_out := rx_out\<rparr>, st)"

inductive fine_reachable :: "('r, 'g, 'w) platform \<Rightarrow> ('r, 'g, 'w) system \<times> stage \<Rightarrow> ('r, 'g, 'w) system \<times> stage \<Rightarrow> bool" for pf x where
  fine_here: "fine_reachable pf x x"
| fine_more: "fine_reachable pf x y \<Longrightarrow> fine_step pf y z \<Longrightarrow> fine_reachable pf x z"

section \<open>The pieces make up a round\<close>

text \<open>What the rest of a round computes if nothing else runs.\<close>

definition after_listening :: "('r, 'g, 'w) platform \<Rightarrow> TxEntry \<Rightarrow> ('r, 'g, 'w) system \<Rightarrow> ('r, 'g, 'w) system option" where
  "after_listening pf entry s = do {
     (t, st) \<leftarrow> begin_send pf entry s;
     case st of Transmitting e tx_start data \<Rightarrow> send_frame pf e tx_start data t | _ \<Rightarrow> None
   }"

fun remaining :: "('r, 'g, 'w) platform \<Rightarrow> ('r, 'g, 'w) system \<times> stage \<Rightarrow> ('r, 'g, 'w) system option" where
  "remaining pf (s, Resting) = Some s"
| "remaining pf (s, Listening entry deadline) = do {
     (clear, r, g, w) \<leftarrow> cad_loop pf (dp_config (sy_dp s)) deadline (dp_radio (sy_dp s)) (dp_rng (sy_dp s)) (sy_clock s);
     after_listening pf entry (s\<lparr>sy_dp := (sy_dp s)\<lparr>dp_radio := r, dp_rng := g\<rparr>, sy_clock := w\<rparr>)
   }"
| "remaining pf (s, Pausing entry deadline since dur) = do {
     (clear, r, g, w) \<leftarrow> cad_loop pf (dp_config (sy_dp s)) deadline (dp_radio (sy_dp s)) (dp_rng (sy_dp s)) (ck_after (pf_clock pf) dur (sy_clock s));
     after_listening pf entry (s\<lparr>sy_dp := (sy_dp s)\<lparr>dp_radio := r, dp_rng := g\<rparr>, sy_clock := w\<rparr>)
   }"
| "remaining pf (s, Transmitting entry tx_start data) = send_frame pf entry tx_start data s"

lemma after_listening_eq:
  "after_listening pf entry s = Option.bind (begin_send pf entry s) (remaining pf)"
  by (auto simp: after_listening_def begin_send_def Let_def case_prod_beta split: Option.bind_split)

lemma remaining_listen: "Option.bind (listen pf entry deadline s) (remaining pf) = remaining pf (s, Listening entry deadline)"
proof -
  obtain res r where ca: "rd_channel_active (pf_radio pf) (dp_radio (sy_dp s)) = (res, r)" by fastforce
  obtain now w where n: "ck_now (pf_clock pf) (sy_clock s) = (now, w)" by fastforce
  obtain delay g where dl: "next_u32 (pf_random pf) (dp_rng (sy_dp s)) (cad_retry_min_ms (dp_config (sy_dp s)))
      (cad_retry_max_ms (dp_config (sy_dp s))) = (delay, g)" by fastforce
  show ?thesis
    by (subst remaining.simps(2), subst cad_loop.simps)
      (auto simp: listen_def ca n dl after_listening_eq [symmetric] Let_def split: sum.split)
qed

lemma after_listening_round:
  "do {
     (clear, d, w) \<leftarrow> wait_for_clear_channel pf d w;
     after_listening pf entry (s\<lparr>sy_dp := d, sy_clock := w\<rparr>)
   } = do {
     (d, buf, w) \<leftarrow> transmit_entry pf entry (d, sy_buf s, w);
     Some (s\<lparr>sy_dp := d, sy_buf := buf, sy_clock := w, sy_phase := Waiting (next_wake_time d)\<rparr>)
   }"
proof (cases "wait_for_clear_channel pf d w")
  case None
  then show ?thesis by (simp add: transmit_entry_def)
next
  case (Some x)
  obtain clear d1 w1 where x: "x = (clear, d1, w1)" by (cases x)
  obtain t1 w2 where n1: "ck_now (pf_clock pf) w1 = (t1, w2)" by fastforce
  obtain t2 w3 where n2: "ck_now (pf_clock pf) w2 = (t2, w3)" by fastforce
  show ?thesis
  proof (cases "write_to (te_packet entry) (sy_buf s)")
    case None
    with Some x show ?thesis by (simp add: transmit_entry_def after_listening_def begin_send_def)
  next
    case wt: (Some y)
    obtain n buf where y: "y = (n, buf)" by (cases y)
    show ?thesis
    proof (cases "slice buf 0 n")
      case None
      with Some x wt y n1 show ?thesis by (simp add: transmit_entry_def after_listening_def begin_send_def)
    next
      case sl: (Some data)
      obtain res r where snd: "rd_send (pf_radio pf) data (dp_radio d1) = (res, r)" by fastforce
      show ?thesis
        using Some x wt y n1 sl n2 snd
        by (cases "inst_sub (pf_time pf) t2 t1"; cases res)
          (simp_all add: transmit_entry_def after_listening_def begin_send_def send_frame_def Let_def)
    qed
  qed
qed

lemma remaining_begin_transmit:
  "Option.bind (begin_transmit pf s) (remaining pf) = do {
     (d, buf, w) \<leftarrow> maybe_transmit pf (sy_dp s, sy_buf s, sy_clock s);
     Some (s\<lparr>sy_dp := d, sy_buf := buf, sy_clock := w, sy_phase := Waiting (next_wake_time d)\<rparr>)
   }"
proof -
  obtain now w1 where n: "ck_now (pf_clock pf) (sy_clock s) = (now, w1)" by fastforce
  obtain now2 w2 where n2: "ck_now (pf_clock pf) w1 = (now2, w2)" by fastforce
  show ?thesis
  proof (cases "refill (pf_time pf) (dp_duty_cycle (sy_dp s)) now")
    case None
    then show ?thesis by (simp add: begin_transmit_def maybe_transmit_def n)
  next
    case rf: (Some dc)
    show ?thesis
    proof (cases "tx_pop_ready (pf_tx pf) now (dp_tx_queue (sy_dp s))")
      case None
      then show ?thesis by (simp add: begin_transmit_def maybe_transmit_def n rf)
    next
      case (Some y)
      obtain ready q where y: "y = (ready, q)" by (cases y)
      note facts = n n2 rf Some y
      let ?d = "(sy_dp s)\<lparr>dp_duty_cycle := dc, dp_tx_queue := q\<rparr>"
      show ?thesis
      proof (cases ready)
        case None
        then show ?thesis by (simp add: begin_transmit_def maybe_transmit_def facts Let_def)
      next
        case (Some e)
        show ?thesis
        proof (cases "can_transmit dc (rd_estimate_airtime_ms (pf_radio pf) (dp_radio (sy_dp s)) (wire_len (te_packet e)))")
          case False
          with Some show ?thesis by (simp add: begin_transmit_def maybe_transmit_def facts Let_def)
        next
          case True
          have "Option.bind (begin_transmit pf s) (remaining pf) = do {
              (clear, d, w) \<leftarrow> wait_for_clear_channel pf ?d w1;
              after_listening pf e (s\<lparr>sy_dp := d, sy_clock := w\<rparr>)
            }"
            using True Some
            by (cases "inst_add (pf_time pf) now2 (dur_from_millis (pf_time pf) (ucast (cad_timeout_ms (dp_config (sy_dp s)))))")
              (simp_all add: begin_transmit_def wait_for_clear_channel_def facts Let_def split_def)
          then show ?thesis
            unfolding after_listening_round using True Some by (simp add: maybe_transmit_def facts Let_def)
        qed
      qed
    qed
  qed
qed

lemma remaining_enter_round: "Option.bind (enter_round pf s) (remaining pf) = loop_top pf s"
proof (cases "drain_submissions (length (sy_tx_in s) + 1) pf (sy_tx_in s, dp_tx_queue (sy_dp s), sy_clock s)")
  case None
  then show ?thesis by (simp add: enter_round_def loop_top_def del: drain_submissions.simps deliver_ready.simps)
next
  case ds: (Some x)
  obtain tx_in q w where x: "x = (tx_in, q, w)" by (cases x)
  obtain now w1 where n: "ck_now (pf_clock pf) w = (now, w1)" by fastforce
  show ?thesis
  proof (cases "deliver_ready (rx_len (dp_rx_delay_queue (sy_dp s)) + 1) pf now (dp_rx_delay_queue (sy_dp s), sy_rx_out s)")
    case None
    with ds x n show ?thesis by (simp add: enter_round_def loop_top_def Let_def del: drain_submissions.simps deliver_ready.simps)
  next
    case (Some y)
    obtain dq out where y: "y = (dq, out)" by (cases y)
    let ?s = "s\<lparr>sy_dp := (sy_dp s)\<lparr>dp_tx_queue := q, dp_rx_delay_queue := dq\<rparr>, sy_tx_in := tx_in, sy_rx_out := out, sy_clock := w1\<rparr>"
    have "enter_round pf s = begin_transmit pf ?s"
      using ds x n Some y by (simp add: enter_round_def Let_def del: drain_submissions.simps deliver_ready.simps)
    then show ?thesis
      using ds x n Some y
      by (cases "maybe_transmit pf ((sy_dp s)\<lparr>dp_tx_queue := q, dp_rx_delay_queue := dq\<rparr>, sy_buf s, w1)")
        (auto simp: remaining_begin_transmit loop_top_def Let_def simp del: drain_submissions.simps deliver_ready.simps)
  qed
qed


text \<open>What other tasks do to the channels meanwhile changes nothing of it.\<close>

lemma remaining_channels:
  "remaining pf (s\<lparr>sy_tx_in := xs\<rparr>, st) = map_option (\<lambda>t. t\<lparr>sy_tx_in := xs\<rparr>) (remaining pf (s, st))"
  "remaining pf (s\<lparr>sy_rx_out := ys\<rparr>, st) = map_option (\<lambda>t. t\<lparr>sy_rx_out := ys\<rparr>) (remaining pf (s, st))"
  by (cases st; auto simp: after_listening_def begin_send_def send_frame_def Let_def case_prod_beta split: Option.bind_splits; fail)+

lemma remaining_keeps_channels:
  assumes "remaining pf (s, st) = Some t" shows "sy_tx_in t = sy_tx_in s \<and> sy_rx_out t = sy_rx_out s"
  using assms
  by (cases st) (auto simp: after_listening_def begin_send_def send_frame_def Let_def case_prod_beta bind_eq_Some_conv)


section \<open>Fine steps do what rounds do\<close>

lemma fine_reachable_trans: "fine_reachable pf y z \<Longrightarrow> fine_reachable pf x y \<Longrightarrow> fine_reachable pf x z"
  by (induction rule: fine_reachable.induct) (auto intro: fine_more)

lemma piece_send_steps:
  assumes "after_listening pf entry s = Some t" "begin_send pf entry s = Some x"
  shows "rtranclp (piece_step pf) x (t, Resting)"
proof -
  from assms(2) obtain u tx_start data where x: "x = (u, Transmitting entry tx_start data)"
    by (auto simp: begin_send_def bind_eq_Some_conv Let_def case_prod_beta)
  then have "fine_outcome u (map_option (\<lambda>t. (t, Resting)) (send_frame pf entry tx_start data u)) = (t, Resting)"
    using assms by (simp add: after_listening_eq fine_outcome_def)
  then show ?thesis unfolding x using piece_send r_into_rtranclp by metis
qed

lemma listen_done:
  assumes "listen pf entry deadline s = begin_send pf entry u" "after_listening pf entry u = Some t"
  shows "rtranclp (piece_step pf) (s, Listening entry deadline) (t, Resting)"
proof -
  from assms(2) obtain x where x: "begin_send pf entry u = Some x" by (auto simp: after_listening_eq bind_eq_Some_conv)
  then have "fine_outcome s (listen pf entry deadline s) = x" by (simp add: assms(1) fine_outcome_def)
  then have "piece_step pf (s, Listening entry deadline) x" using piece_listen by metis
  then show ?thesis using piece_send_steps [OF assms(2) x] by (rule converse_rtranclp_into_rtranclp)
qed

lemma cad_steps:
  fixes pf :: "('a, 'b, 'c) platform"
  assumes "cad_loop pf (dp_config (sy_dp s)) deadline (dp_radio (sy_dp s)) (dp_rng (sy_dp s)) (sy_clock s) = Some y"
    and "after_listening pf entry (s\<lparr>sy_dp := (sy_dp s)\<lparr>dp_radio := fst (snd y), dp_rng := fst (snd (snd y))\<rparr>, sy_clock := snd (snd (snd y))\<rparr>) = Some t"
  shows "rtranclp (piece_step pf) (s, Listening entry deadline) (t, Resting)"
proof -
  have "\<forall>s. config = dp_config (sy_dp s) \<longrightarrow> r0 = dp_radio (sy_dp s) \<longrightarrow> g0 = dp_rng (sy_dp s) \<longrightarrow> w0 = sy_clock s \<longrightarrow>
      after_listening pf entry (s\<lparr>sy_dp := (sy_dp s)\<lparr>dp_radio := fst (snd y), dp_rng := fst (snd (snd y))\<rparr>, sy_clock := snd (snd (snd y))\<rparr>) = Some t \<longrightarrow>
      rtranclp (piece_step pf) (s, Listening entry deadline) (t, Resting)"
    if "cad_loop pf config deadline r0 g0 w0 = Some y" for config r0 g0 w0 y
    using that
  proof (induction rule: cad_loop.raw_induct [rotated 1, consumes 1])
    case (1 f pf config deadline r0 g0 w0 y)
    show ?case
    proof (intro allI impI)
      fix s :: "('a, 'b, 'c) system"
      assume s: "config = dp_config (sy_dp s)" "r0 = dp_radio (sy_dp s)" "g0 = dp_rng (sy_dp s)" "w0 = sy_clock s"
      let ?u = "s\<lparr>sy_dp := (sy_dp s)\<lparr>dp_radio := fst (snd y), dp_rng := fst (snd (snd y))\<rparr>, sy_clock := snd (snd (snd y))\<rparr>"
      assume al: "after_listening pf entry ?u = Some t"
      obtain res r where ca: "rd_channel_active (pf_radio pf) (dp_radio (sy_dp s)) = (res, r)" by fastforce
      obtain now w where n: "ck_now (pf_clock pf) (sy_clock s) = (now, w)" by fastforce
      obtain delay g where dl: "next_u32 (pf_random pf) (dp_rng (sy_dp s)) (cad_retry_min_ms (dp_config (sy_dp s)))
          (cad_retry_max_ms (dp_config (sy_dp s))) = (delay, g)" by fastforce
      let ?dur = "dur_from_millis (pf_time pf) (ucast delay)"
      let ?v = "s\<lparr>sy_dp := (sy_dp s)\<lparr>dp_radio := r, dp_rng := g\<rparr>, sy_clock := ck_after (pf_clock pf) ?dur w\<rparr>"
      show "rtranclp (piece_step pf) (s, Listening entry deadline) (t, Resting)"
      proof (cases "res = Inr True \<and> \<not> deadline \<le> now")
        case True
        then have "fine_outcome s (listen pf entry deadline s) = (s\<lparr>sy_dp := (sy_dp s)\<lparr>dp_radio := r, dp_rng := g\<rparr>, sy_clock := w\<rparr>,
            Pausing entry deadline (ck_time (pf_clock pf) w) ?dur)"
          by (simp add: listen_def fine_outcome_def ca n dl Let_def)
        then have "rtranclp (piece_step pf) (s, Listening entry deadline) (s\<lparr>sy_dp := (sy_dp s)\<lparr>dp_radio := r, dp_rng := g\<rparr>, sy_clock := w\<rparr>,
            Pausing entry deadline (ck_time (pf_clock pf) w) ?dur)" using piece_listen r_into_rtranclp by metis
        from rtranclp.rtrancl_into_rtrancl [OF this piece_pause] have "rtranclp (piece_step pf) (s, Listening entry deadline) (?v, Listening entry deadline)" by simp
        moreover have "f pf config deadline r g (ck_after (pf_clock pf) ?dur w) = Some y"
          using "1"(2) True by (simp add: s ca n dl)
        from "1"(1) [OF this] al have "rtranclp (piece_step pf) (?v, Listening entry deadline) (t, Resting)" by (simp add: s)
        ultimately show ?thesis by (rule rtranclp_trans)
      next
        case False
        then have "listen pf entry deadline s = begin_send pf entry ?u"
          using "1"(2) by (auto simp: listen_def s ca n dl Let_def split: sum.splits if_splits)
        then show ?thesis using al by (rule listen_done)
      qed
    qed
  qed
  with assms show ?thesis by blast
qed

lemma remaining_steps:
  assumes "remaining pf (s, st) = Some t"
  shows "rtranclp (piece_step pf) (s, st) (t, Resting)"
proof (cases st)
  case Resting
  with assms show ?thesis by simp
next
  case (Listening entry deadline)
  with assms show ?thesis by (auto simp: bind_eq_Some_conv intro!: cad_steps)
next
  case (Pausing entry deadline since dur)
  let ?s = "s\<lparr>sy_clock := ck_after (pf_clock pf) dur (sy_clock s)\<rparr>"
  have "remaining pf (?s, Listening entry deadline) = Some t" using assms Pausing by simp
  then have "rtranclp (piece_step pf) (?s, Listening entry deadline) (t, Resting)" by (auto simp: bind_eq_Some_conv intro!: cad_steps)
  then show ?thesis unfolding Pausing using piece_pause converse_rtranclp_into_rtranclp by metis
next
  case (Transmitting entry tx_start data)
  then have "fine_outcome s (map_option (\<lambda>t. (t, Resting)) (send_frame pf entry tx_start data s)) = (t, Resting)"
    using assms by (simp add: fine_outcome_def)
  then show ?thesis unfolding Transmitting using piece_send r_into_rtranclp by metis
qed

lemma round_steps:
  assumes "sy_phase s = Top" "loop_top pf s = Some t"
  shows "rtranclp (piece_step pf) (s, Resting) (t, Resting)"
proof -
  from assms(2) obtain y where y: "enter_round pf s = Some y" "remaining pf y = Some t"
    by (auto simp: remaining_enter_round [symmetric] bind_eq_Some_conv)
  have "piece_step pf (s, Resting) y" using piece_top [OF assms(1), of pf] y(1) by (simp add: fine_outcome_def)
  then show ?thesis using remaining_steps y(2) by (metis converse_rtranclp_into_rtranclp surj_pair)
qed

lemma pieces_fine: "rtranclp (piece_step pf) x y \<Longrightarrow> fine_reachable pf x y"
  by (induction rule: rtranclp.induct) (auto intro: fine_here fine_more fine_piece)

lemma dispatch_step_fine:
  assumes "dispatch_step pf s t" "sy_phase t \<noteq> Stopped"
  shows "fine_reachable pf (s, Resting) (t, Resting)"
  using assms(1)
proof (cases rule: dispatch_step.cases)
  case top
  then have "loop_top pf s = Some t" using assms(2) by (auto simp: outcome_def split: option.splits)
  then show ?thesis using round_steps top pieces_fine by blast
next
  case (submit req tx_in)
  then show ?thesis using fine_more [OF fine_here fine_submit] by fastforce
next
  case (consume p rx_out)
  then show ?thesis using fine_more [OF fine_here fine_consume] by fastforce
qed (use assms(1) in \<open>auto intro: fine_more [OF fine_here fine_wait]\<close>)

lemma dispatch_reachable_fine:
  assumes "dispatch_reachable pf s t" "sy_phase t \<noteq> Stopped"
  shows "fine_reachable pf (s, Resting) (t, Resting)"
  using assms
proof (induction rule: dispatch_reachable.induct)
  case (more t u)
  then have "sy_phase t \<noteq> Stopped" using stopped_for_good by blast
  then show ?case using fine_reachable_trans [OF dispatch_step_fine] more by blast
qed (rule fine_here)

text \<open>
  The other direction: a state inside a round is on the way from the top of the round to what the whole round, followed by what the other tasks did meanwhile,
  leads to.
\<close>

definition simulated :: "('r, 'g, 'w) platform \<Rightarrow> ('r, 'g, 'w) system \<Rightarrow> ('r, 'g, 'w) system \<times> stage \<Rightarrow> bool" where
  "simulated pf s = (\<lambda>(t, st).
     if st = Resting then dispatch_reachable pf s t \<or> sy_phase t = Stopped \<and> (\<exists>u. dispatch_reachable pf s u \<and> sy_phase u = Stopped)
     else \<exists>u. dispatch_reachable pf s u \<and> sy_phase u = Top \<and>
       (case remaining pf (t, st) of None \<Rightarrow> loop_top pf u = None
        | Some t' \<Rightarrow> \<exists>v. loop_top pf u = Some v \<and> dispatch_reachable pf v t'))"

lemma simulated_resting: "simulated pf s (t, Resting) \<Longrightarrow> sy_phase t \<noteq> Stopped \<Longrightarrow> dispatch_reachable pf s t"
  by (simp add: simulated_def)

lemma simulated_outcome:
  assumes "simulated pf s (t, st)" "st \<noteq> Resting" "Option.bind r (remaining pf) = remaining pf (t, st)"
  shows "simulated pf s (fine_outcome t r)"
proof -
  from assms(1,2) obtain u where u: "dispatch_reachable pf s u" "sy_phase u = Top"
    and c: "case remaining pf (t, st) of None \<Rightarrow> loop_top pf u = None
      | Some t' \<Rightarrow> \<exists>v. loop_top pf u = Some v \<and> dispatch_reachable pf v t'" by (auto simp: simulated_def)
  have r: "dispatch_reachable pf s (outcome u (loop_top pf u))" using u by (blast intro: dispatch_reachable.more dispatch_step.top)
  show ?thesis
  proof (cases r)
    case None
    then have "sy_phase (outcome u (loop_top pf u)) = Stopped" using c assms(3) by (auto simp: outcome_def split: option.splits)
    with r None show ?thesis by (auto simp: simulated_def fine_outcome_def)
  next
    case (Some y)
    obtain t1 st1 where y: "y = (t1, st1)" by (cases y)
    show ?thesis
    proof (cases "st1 = Resting")
      case True
      then obtain v where "loop_top pf u = Some v" "dispatch_reachable pf v t1" using c assms(3) Some y by (auto split: option.splits)
      then have "dispatch_reachable pf s t1" using r dispatch_reachable_trans by (fastforce simp: outcome_def)
      with True Some y show ?thesis by (simp add: simulated_def fine_outcome_def)
    next
      case False
      with u c assms(3) Some y show ?thesis by (auto simp: simulated_def fine_outcome_def)
    qed
  qed
qed

lemma simulated_channels:
  assumes "simulated pf s (t, st)" "dispatch_step pf t t'" "sy_phase t' = sy_phase t"
    and "\<And>v. remaining pf (t, st) = Some v \<Longrightarrow> \<exists>v'. remaining pf (t', st) = Some v' \<and> dispatch_step pf v v'"
    and "remaining pf (t, st) = None \<Longrightarrow> remaining pf (t', st) = None"
  shows "simulated pf s (t', st)"
proof (cases "st = Resting")
  case True
  with assms(1-3) show ?thesis by (auto simp: simulated_def intro: dispatch_reachable.more)
next
  case False
  with assms(1) obtain u where u: "dispatch_reachable pf s u" "sy_phase u = Top"
    and c: "case remaining pf (t, st) of None \<Rightarrow> loop_top pf u = None
      | Some t' \<Rightarrow> \<exists>v. loop_top pf u = Some v \<and> dispatch_reachable pf v t'" by (auto simp: simulated_def)
  have "case remaining pf (t', st) of None \<Rightarrow> loop_top pf u = None
      | Some t' \<Rightarrow> \<exists>v. loop_top pf u = Some v \<and> dispatch_reachable pf v t'"
  proof (cases "remaining pf (t, st)")
    case None
    with c assms(5) show ?thesis by simp
  next
    case (Some v)
    with assms(4) obtain v' where "remaining pf (t', st) = Some v'" "dispatch_step pf v v'" by blast
    with c Some show ?thesis by (auto intro: dispatch_reachable.more)
  qed
  with False u show ?thesis by (auto simp: simulated_def)
qed

lemma piece_step_simulated:
  assumes "piece_step pf x y" "simulated pf s x"
  shows "simulated pf s y"
  using assms(1)
proof (cases rule: piece_step.cases)
  case (piece_top t)
  then have r: "dispatch_reachable pf s t" using assms(2) simulated_resting by fastforce
  show ?thesis
  proof (cases "enter_round pf t")
    case None
    then have "loop_top pf t = None" by (simp add: remaining_enter_round [symmetric])
    then have "dispatch_reachable pf s (t\<lparr>sy_phase := Stopped\<rparr>)"
      using dispatch_reachable.more [OF r dispatch_step.top [OF piece_top(3)]] by (simp add: outcome_def)
    with None show ?thesis by (simp add: piece_top(2) fine_outcome_def simulated_def)
  next
    case (Some z)
    obtain t1 st1 where z: "z = (t1, st1)" by (cases z)
    have l: "loop_top pf t = remaining pf (t1, st1)" using Some z by (simp add: remaining_enter_round [symmetric])
    show ?thesis
    proof (cases "st1 = Resting")
      case True
      then have "dispatch_step pf t t1" using dispatch_step.top [OF piece_top(3)] l by (metis outcome_def option.simps(5) remaining.simps(1))
      with r True Some z show ?thesis by (auto simp: piece_top(2) fine_outcome_def simulated_def intro: dispatch_reachable.more)
    next
      case False
      have "case remaining pf (t1, st1) of None \<Rightarrow> loop_top pf t = None
          | Some t' \<Rightarrow> \<exists>v. loop_top pf t = Some v \<and> dispatch_reachable pf v t'"
        by (cases "remaining pf (t1, st1)") (simp_all add: l dispatch_reachable.here)
      with False r piece_top(3) Some z show ?thesis by (auto simp: piece_top(2) fine_outcome_def simulated_def)
    qed
  qed
next
  case (piece_listen t entry deadline)
  show ?thesis
    unfolding piece_listen(2) by (rule simulated_outcome [OF assms(2) [unfolded piece_listen(1)] _ remaining_listen]) simp
next
  case (piece_pause t entry deadline since dur)
  with assms(2) show ?thesis by (simp add: simulated_def)
next
  case (piece_send t entry tx_start data)
  show ?thesis
    unfolding piece_send(2)
    by (rule simulated_outcome [OF assms(2) [unfolded piece_send(1)]])
      (auto simp: map_option_case split: option.split)
qed

lemma fine_step_simulated:
  assumes "fine_step pf x y" "simulated pf s x"
  shows "simulated pf s y"
  using assms(1)
proof (cases rule: fine_step.cases)
  case fine_piece
  then show ?thesis using piece_step_simulated assms(2) by blast
next
  case (fine_wait t wake t')
  then have "dispatch_reachable pf s t" using assms(2) simulated_resting by fastforce
  with fine_wait show ?thesis by (auto simp: simulated_def intro: dispatch_reachable.more)
next
  case (fine_submit t req tx_in st)
  have "dispatch_step pf v (v\<lparr>sy_tx_in := tx_in\<rparr>)" if "sy_tx_in v = sy_tx_in t" for v
    using dispatch_step.submit [of pf v req tx_in] that fine_submit(3) by simp
  with assms(2) show ?thesis
    unfolding fine_submit(1,2)
    by (rule_tac simulated_channels) (auto simp: remaining_channels dest: remaining_keeps_channels)
next
  case (fine_consume t p rx_out st)
  have "dispatch_step pf v (v\<lparr>sy_rx_out := rx_out\<rparr>)" if "sy_rx_out v = sy_rx_out t" for v
    using dispatch_step.consume [of pf v p rx_out] that fine_consume(3) by simp
  with assms(2) show ?thesis
    unfolding fine_consume(1,2)
    by (rule_tac simulated_channels) (auto simp: remaining_channels dest: remaining_keeps_channels)
qed

lemma fine_reachable_simulated:
  assumes "fine_reachable pf (s, Resting) x"
  shows "simulated pf s x"
  using assms
proof (induction rule: fine_reachable.induct)
  case fine_here
  then show ?case by (simp add: simulated_def dispatch_reachable.here)
next
  case (fine_more y z)
  then show ?case by (blast intro: fine_step_simulated)
qed

text \<open>A panic inside a round is a panic of the round.\<close>

lemma fine_panic:
  assumes "fine_reachable pf (s, Resting) (t, Resting)" "sy_phase t = Stopped"
  shows "\<exists>u. dispatch_reachable pf s u \<and> sy_phase u = Stopped"
  using fine_reachable_simulated [OF assms(1)] assms(2) by (auto simp: simulated_def)

section \<open>Properties\<close>

text \<open>
  C7: It makes no difference that a round of the loop is one step of the model: cutting it at every wait of a transmission, with submissions and deliveries by other
  tasks at each of them, the dispatcher comes to exactly the states between rounds that it comes to when the rounds are not interrupted.
\<close>
theorem rounds_are_atomic:
  assumes "sy_phase t \<noteq> Stopped"
  shows "fine_reachable pf (s, Resting) (t, Resting) \<longleftrightarrow> dispatch_reachable pf s t"
proof
  assume "fine_reachable pf (s, Resting) (t, Resting)"
  from fine_reachable_simulated [OF this] show "dispatch_reachable pf s t" using assms by (rule simulated_resting)
qed (rule dispatch_reachable_fine [OF _ assms])

text \<open>The round that transmits the sample packet.\<close>

lemma rounds_are_atomic_witness:
  "\<exists>t. sy_phase t \<noteq> Stopped \<and> wire_bytes sample_packet \<in> fst ` set (tp_sent (tape_of (sy_dp t))) \<and>
    fine_reachable tap_platform (tap_start, Resting) (t, Resting)"
proof -
  obtain t where t: "dispatch_run tap_platform tap_start [tap_request] [] t" "wire_bytes sample_packet \<in> fst ` set (tp_sent (tape_of (sy_dp t)))"
    "sy_phase t \<noteq> Stopped" using tap_run by blast
  then show ?thesis using rounds_are_atomic [OF t(3), of tap_platform tap_start] run_reachable [OF t(1)] by blast
qed

end
