(* ===== verification/Interleaving.thy ===== *)
theory Interleaving
  imports Fine_Grained Firmware
begin

text \<open>
  The firmware with the responder running between the pieces of a transmission: it takes packets, submits its requests and lets time pass while the dispatcher listens, pauses
  or transmits (\<open>boards/rak4631/src/main.rs\<close> and \<open>crates/meshcore-dispatch/src/dispatcher.rs\<close>).
\<close>

section \<open>Interleaved steps\<close>

text \<open>
  The firmware, the stage the dispatcher is at, and the packet the responder is working on, with the clock as it was when the responder took it: an iteration of the responder
  waits for the serial port, too.
\<close>

type_synonym ('r, 'g, 'w) running = "('r, 'g, 'w) firmware \<times> stage \<times> (RxPacket \<times> 'w) option"

definition dispatched :: "('r, 'g, 'w) firmware \<Rightarrow> (RxPacket \<times> 'w) option \<Rightarrow> ('r, 'g, 'w) system \<times> stage \<Rightarrow> ('r, 'g, 'w) running" where
  "dispatched f busy = (\<lambda>(s, st). (f\<lparr>fw_sys := s\<rparr>, st, busy))"

text \<open>What the responder began at an earlier reading of the clock comes to its end now.\<close>

definition finished ::
    "('r, 'g, 'w) platform \<Rightarrow> ('r, 'g, 'w) firmware \<Rightarrow> (user \<times> TxRequest option \<times> 'w) option \<Rightarrow> 'w \<Rightarrow> (user \<times> TxRequest option \<times> 'w) option \<Rightarrow> bool" where
  "finished pf f r w r' \<longleftrightarrow> ck_time (pf_clock pf) (sy_clock (fw_sys f)) \<le> ck_time (pf_clock pf) w \<and>
     (case r of None \<Rightarrow> r' = None
      | Some (u, req, w1) \<Rightarrow> ck_time (pf_clock pf) w1 \<le> ck_time (pf_clock pf) w \<and> r' = Some (u, req, w))"

text \<open>
  The pieces of a round and the branches of the wait; the start-up of the responder, which began at some time after its clock was set; the beginning and the end
  of an iteration; handing over the request. A pause is over at any time after its end.
\<close>

inductive interleaved_step ::
    "('r, 'g, 'w) platform \<Rightarrow> crypto \<Rightarrow> u32 \<Rightarrow> ('r, 'g, 'w) running \<Rightarrow> ('r, 'g, 'w) running \<Rightarrow> bool" for pf c BUILD_EPOCH where
  il_top: "sy_phase (fw_sys f) = Top \<Longrightarrow> interleaved_step pf c BUILD_EPOCH (f, Resting, busy)
    (dispatched f busy (fine_outcome (fw_sys f) (enter_round pf (fw_sys f))))"
| il_listen: "interleaved_step pf c BUILD_EPOCH (f, Listening entry deadline, busy)
    (dispatched f busy (fine_outcome (fw_sys f) (listen pf entry deadline (fw_sys f))))"
| il_pause: "saturating_add since dur \<le> ck_time (pf_clock pf) w \<Longrightarrow> ck_time (pf_clock pf) (sy_clock (fw_sys f)) \<le> ck_time (pf_clock pf) w \<Longrightarrow>
    interleaved_step pf c BUILD_EPOCH (f, Pausing entry deadline since dur, busy)
      (dispatched f busy ((fw_sys f)\<lparr>sy_clock := w\<rparr>, Listening entry deadline))"
| il_send: "interleaved_step pf c BUILD_EPOCH (f, Transmitting entry tx_start data, busy)
    (dispatched f busy (fine_outcome (fw_sys f) (map_option (\<lambda>t. (t, Resting)) (send_frame pf entry tx_start data (fw_sys f)))))"
| il_radio: "sy_phase (fw_sys f) = Waiting wake \<Longrightarrow> interleaved_step pf c BUILD_EPOCH (f, Resting, busy)
    (dispatched f busy (outcome (fw_sys f) (on_radio pf (fw_sys f)), Resting))"
| il_submission: "sy_phase (fw_sys f) = Waiting wake \<Longrightarrow> ch_try_receive (pf_tx_in pf) (sy_tx_in (fw_sys f)) = Some (req, rest) \<Longrightarrow>
    interleaved_step pf c BUILD_EPOCH (f, Resting, busy) (dispatched f busy (outcome (fw_sys f) (on_submission pf (fw_sys f) req rest), Resting))"
| il_timer: "sy_phase (fw_sys f) = Waiting (Some at) \<Longrightarrow> at \<le> ck_time (pf_clock pf) w \<Longrightarrow>
    ck_time (pf_clock pf) (sy_clock (fw_sys f)) \<le> ck_time (pf_clock pf) w \<Longrightarrow>
    interleaved_step pf c BUILD_EPOCH (f, Resting, busy) (dispatched f busy ((fw_sys f)\<lparr>sy_clock := w, sy_phase := Top\<rparr>, Resting))"
| il_start: "fw_task f = Booting rtc \<Longrightarrow> base_instant rtc \<le> ck_time (pf_clock pf) w0 \<Longrightarrow> finished pf f (user_boot pf c BUILD_EPOCH rtc w0) w r \<Longrightarrow>
    interleaved_step pf c BUILD_EPOCH (f, st, None) (task_outcome f (sy_rx_out (fw_sys f)) r, st, None)"
| il_receive: "fw_task f = Running u \<Longrightarrow> ch_try_receive (pf_rx_out pf) (sy_rx_out (fw_sys f)) = Some (p, rest) \<Longrightarrow>
    interleaved_step pf c BUILD_EPOCH (f, st, None) (f\<lparr>fw_sys := (fw_sys f)\<lparr>sy_rx_out := rest\<rparr>\<rparr>, st, Some (p, sy_clock (fw_sys f)))"
| il_finish: "fw_task f = Running u \<Longrightarrow> finished pf f (user_step pf c (u, w0) p) w r \<Longrightarrow>
    interleaved_step pf c BUILD_EPOCH (f, st, Some (p, w0)) (task_outcome f (sy_rx_out (fw_sys f)) r, st, None)"
| il_submit: "fw_task f = Sending u req \<Longrightarrow> ch_try_send (pf_tx_in pf) (pf_TX_Q pf) (sy_tx_in (fw_sys f)) req = Inr tx_in \<Longrightarrow>
    interleaved_step pf c BUILD_EPOCH (f, st, None) (f\<lparr>fw_sys := (fw_sys f)\<lparr>sy_tx_in := tx_in\<rparr>, fw_task := Running u\<rparr>, st, None)"

inductive interleaved_reachable ::
    "('r, 'g, 'w) platform \<Rightarrow> crypto \<Rightarrow> u32 \<Rightarrow> ('r, 'g, 'w) running \<Rightarrow> ('r, 'g, 'w) running \<Rightarrow> bool" for pf c BUILD_EPOCH x where
  il_here: "interleaved_reachable pf c BUILD_EPOCH x x"
| il_more: "interleaved_reachable pf c BUILD_EPOCH x y \<Longrightarrow> interleaved_step pf c BUILD_EPOCH y z \<Longrightarrow> interleaved_reachable pf c BUILD_EPOCH x z"

section \<open>The invariant at every stage\<close>

text \<open>The entry in transmission is well formed, and the noted start of a transmission is not in the future.\<close>

definition stage_ok :: "('r, 'g, 'w) platform \<Rightarrow> ('r, 'g, 'w) system \<Rightarrow> stage \<Rightarrow> bool" where
  "stage_ok pf s st = (case st of
     Resting \<Rightarrow> True
   | Listening entry _ \<Rightarrow> wf_packet (te_packet entry)
   | Pausing entry _ _ _ \<Rightarrow> wf_packet (te_packet entry)
   | Transmitting entry tx_start _ \<Rightarrow> wf_packet (te_packet entry) \<and> tx_start \<le> ck_time (pf_clock pf) (sy_clock s))"

text \<open>What every piece of a round keeps.\<close>

definition piece_ok :: "('r, 'g, 'w) platform \<Rightarrow> ('r \<Rightarrow> bool) \<Rightarrow> ('r, 'g, 'w) system \<Rightarrow> ('r, 'g, 'w) system \<times> stage \<Rightarrow> bool" where
  "piece_ok pf rinv s = (\<lambda>(t, st). system_inv pf rinv t \<and> live pf t \<and> stage_ok pf t st \<and>
     ck_time (pf_clock pf) (sy_clock s) \<le> ck_time (pf_clock pf) (sy_clock t))"

lemma begin_transmit_piece:
  assumes pf: "platform_ok pf" and s: "system_inv pf rinv s" "live pf s" and r: "begin_transmit pf s = Some x"
  shows "piece_ok pf rinv s x"
proof -
  let ?d = "sy_dp s"
  note ck = platform_okD(7) [OF pf]
  obtain now w1 where n: "ck_now (pf_clock pf) (sy_clock s) = (now, w1)" by fastforce
  obtain now2 w2 where n2: "ck_now (pf_clock pf) w1 = (now2, w2)" by fastforce
  from r n obtain dc ready q where rf: "refill (pf_time pf) (dp_duty_cycle ?d) now = Some dc"
    and pop: "tx_pop_ready (pf_tx pf) now (dp_tx_queue ?d) = Some (ready, q)"
    by (auto simp: begin_transmit_def bind_eq_Some_conv Let_def)
  note t1 = clock_okD [OF ck n] and t2 = clock_okD [OF ck n2]
    and sub = tx_pop_subset [OF platform_okD(2) [OF pf] pop] and le = tx_pop_le [OF platform_okD(2) [OF pf] pop]
    and lr = refill_last [OF rf] and di = refill_duty_inv [OF rf]
  show ?thesis
  proof (cases ready)
    case None
    with r n rf pop have "x = (s\<lparr>sy_dp := ?d\<lparr>dp_duty_cycle := dc, dp_tx_queue := q\<rparr>, sy_clock := w1,
        sy_phase := Waiting (next_wake_time (?d\<lparr>dp_duty_cycle := dc, dp_tx_queue := q\<rparr>))\<rparr>, Resting)"
      by (simp add: begin_transmit_def Let_def)
    then show ?thesis using s t1 sub le lr di by (auto simp: piece_ok_def stage_ok_def system_inv_def dispatcher_inv_def live_def)
  next
    case (Some e)
    then have wf: "wf_packet (te_packet e)" using sub s(2) by (simp add: live_def)
    show ?thesis
    proof (cases "can_transmit dc (rd_estimate_airtime_ms (pf_radio pf) (dp_radio ?d) (wire_len (te_packet e)))")
      case False
      let ?q = "snd (tx_push_entry (pf_tx pf) (pf_TX_Q pf) q e)"
      from False r n rf pop Some have x: "x = (s\<lparr>sy_dp := ?d\<lparr>dp_duty_cycle := dc, dp_tx_queue := ?q\<rparr>, sy_clock := w1,
          sy_phase := Waiting (next_wake_time (?d\<lparr>dp_duty_cycle := dc, dp_tx_queue := ?q\<rparr>))\<rparr>, Resting)"
        by (simp add: begin_transmit_def Let_def)
      have "length (tx_entries q) \<le> pf_TX_Q pf" using le s(1) by (simp add: system_inv_def dispatcher_inv_def)
      then have "length (tx_entries ?q) \<le> pf_TX_Q pf" by (rule tx_push_entry_le [OF platform_okD(2) [OF pf]])
      moreover have "set (tx_entries ?q) \<subseteq> set (tx_entries (dp_tx_queue ?d))"
        using sub Some platform_okD(2) [OF pf] by (auto simp: tx_push_entry_def)
      ultimately show ?thesis unfolding x using s t1 lr di by (auto simp: piece_ok_def stage_ok_def system_inv_def dispatcher_inv_def live_def)
    next
      case True
      with r n n2 rf pop Some obtain dl where "x = (s\<lparr>sy_dp := ?d\<lparr>dp_duty_cycle := dc, dp_tx_queue := q\<rparr>, sy_clock := w2\<rparr>, Listening e dl)"
        by (auto simp: begin_transmit_def Let_def bind_eq_Some_conv)
      then show ?thesis
        using s t1 t2 sub le lr di wf by (auto simp: piece_ok_def stage_ok_def system_inv_def dispatcher_inv_def live_def)
    qed
  qed
qed

lemma piece_ok_trans:
  assumes "piece_ok pf rinv s x" "ck_time (pf_clock pf) (sy_clock r) \<le> ck_time (pf_clock pf) (sy_clock s)"
  shows "piece_ok pf rinv r x"
  using assms by (auto simp: piece_ok_def intro: order.trans)

lemma enter_round_piece:
  assumes pf: "platform_ok pf" and s: "system_inv pf rinv s" "live pf s" and r: "enter_round pf s = Some x"
  shows "piece_ok pf rinv s x"
proof -
  let ?d = "sy_dp s"
  from r obtain tx_in q w where ds: "drain_submissions (length (sy_tx_in s) + 1) pf (sy_tx_in s, dp_tx_queue ?d, sy_clock s) = Some (tx_in, q, w)"
    by (auto simp: enter_round_def bind_eq_Some_conv Let_def simp del: drain_submissions.simps deliver_ready.simps)
  obtain now w1 where n: "ck_now (pf_clock pf) w = (now, w1)" by fastforce
  from r ds n obtain dq out where dr: "deliver_ready (rx_len (dp_rx_delay_queue ?d) + 1) pf now (dp_rx_delay_queue ?d, sy_rx_out s) = Some (dq, out)"
    by (auto simp: enter_round_def bind_eq_Some_conv Let_def simp del: drain_submissions.simps deliver_ready.simps)
  let ?s = "s\<lparr>sy_dp := ?d\<lparr>dp_tx_queue := q, dp_rx_delay_queue := dq\<rparr>, sy_tx_in := tx_in, sy_rx_out := out, sy_clock := w1\<rparr>"
  from r ds n dr have b: "begin_transmit pf ?s = Some x"
    by (simp add: enter_round_def Let_def del: drain_submissions.simps deliver_ready.simps)
  note di = drain_submissions_inv [OF pf ds] and dd = drain_submissionsD [OF pf ds] and ri = deliver_ready_inv [OF pf dr]
    and t = clock_okD [OF platform_okD(7) [OF pf] n]
  have i: "system_inv pf rinv ?s" using s(1) di ri by (auto simp: system_inv_def dispatcher_inv_def)
  have "\<forall>e \<in> set (tx_entries q). wf_packet (te_packet e)" using dd s(2) by (fastforce simp: live_def)
  then have "live pf ?s" using dd t s(2) by (auto simp: live_def)
  from piece_ok_trans [OF begin_transmit_piece [OF pf i this b]] show ?thesis using dd t by auto
qed

lemma begin_send_piece:
  assumes pf: "platform_ok pf" and s: "system_inv pf rinv s" "live pf s" and e: "wf_packet (te_packet entry)"
  shows "\<exists>x. begin_send pf entry s = Some x \<and> piece_ok pf rinv s x"
proof -
  let ?p = "te_packet entry" and ?buf = "wire_bytes (te_packet entry) @ drop (wire_len (te_packet entry)) (sy_buf s)"
  have l: "length (sy_buf s) = MAX_TRANS_UNIT" using s(1) by (simp add: system_inv_def)
  have w: "sendable (length (sy_buf s)) entry" using wf_sendable [OF e] l by simp
  obtain tx_start w1 where n: "ck_now (pf_clock pf) (sy_clock s) = (tx_start, w1)" by fastforce
  have len: "length (wire_bytes ?p) = wire_len ?p" using w by (simp add: sendable_def length_wire_bytes)
  have "begin_send pf entry s = Some (s\<lparr>sy_buf := ?buf, sy_clock := w1\<rparr>, Transmitting entry tx_start (wire_bytes ?p))"
    using w n len by (simp add: begin_send_def write_to_eq sendable_def slice_def)
  moreover have "length ?buf = MAX_TRANS_UNIT" using w l len by (simp add: sendable_def)
  moreover note clock_okD [OF platform_okD(7) [OF pf] n]
  ultimately show ?thesis using s e by (auto simp: piece_ok_def stage_ok_def system_inv_def live_def)
qed

lemma send_frame_total:
  assumes "platform_ok pf" "tx_start \<le> ck_time (pf_clock pf) (sy_clock s)"
  shows "\<exists>t. send_frame pf entry tx_start data s = Some t"
proof -
  obtain tx_end w where n: "ck_now (pf_clock pf) (sy_clock s) = (tx_end, w)" by fastforce
  have "tx_start \<le> tx_end" using assms(2) clock_okD [OF platform_okD(7) [OF assms(1)] n] by simp
  then show ?thesis
    by (cases "rd_send (pf_radio pf) data (dp_radio (sy_dp s))")
      (simp add: send_frame_def n time_okD(2) [OF platform_okD(6) [OF assms(1)]] Let_def)
qed

context radio_driver
begin

lemma listen_piece:
  assumes pf: "platform_ok pf" "pf_radio pf = rd" and s: "system_inv pf inv s" "live pf s" and e: "wf_packet (te_packet entry)"
  shows "\<exists>x. listen pf entry deadline s = Some x \<and> piece_ok pf inv s x"
proof -
  obtain res r where ca: "rd_channel_active rd (dp_radio (sy_dp s)) = (res, r)" by fastforce
  obtain now w where n: "ck_now (pf_clock pf) (sy_clock s) = (now, w)" by fastforce
  note t = clock_okD [OF platform_okD(7) [OF pf(1)] n]
  have "inv r" using channel_active_inv [of "dp_radio (sy_dp s)"] s(1) ca by (simp add: system_inv_def dispatcher_inv_def)
  then have i: "system_inv pf inv (s\<lparr>sy_dp := (sy_dp s)\<lparr>dp_radio := r\<rparr>\<rparr>)" "live pf (s\<lparr>sy_dp := (sy_dp s)\<lparr>dp_radio := r\<rparr>\<rparr>)"
    "system_inv pf inv (s\<lparr>sy_dp := (sy_dp s)\<lparr>dp_radio := r\<rparr>, sy_clock := w\<rparr>)" "live pf (s\<lparr>sy_dp := (sy_dp s)\<lparr>dp_radio := r\<rparr>, sy_clock := w\<rparr>)"
    "system_inv pf inv (s\<lparr>sy_dp := (sy_dp s)\<lparr>dp_radio := r, dp_rng := g\<rparr>, sy_clock := w\<rparr>)"
    "live pf (s\<lparr>sy_dp := (sy_dp s)\<lparr>dp_radio := r, dp_rng := g\<rparr>, sy_clock := w\<rparr>)" for g
    using s t by (auto simp: system_inv_def dispatcher_inv_def live_def)
  show ?thesis
  proof (cases "res = Inr True")
    case False
    then have "listen pf entry deadline s = begin_send pf entry (s\<lparr>sy_dp := (sy_dp s)\<lparr>dp_radio := r\<rparr>\<rparr>)"
      using ca pf(2) by (auto simp: listen_def Let_def split: sum.split)
    with begin_send_piece [OF pf(1) i(1,2) e] show ?thesis by (auto simp: piece_ok_def)
  next
    case True
    show ?thesis
    proof (cases "deadline \<le> now")
      case late: True
      with True have "listen pf entry deadline s = begin_send pf entry (s\<lparr>sy_dp := (sy_dp s)\<lparr>dp_radio := r\<rparr>, sy_clock := w\<rparr>)"
        using ca pf(2) n by (simp add: listen_def Let_def)
      with begin_send_piece [OF pf(1) i(3,4) e] show ?thesis using t by (force elim!: piece_ok_trans)
    next
      case False
      with True ca pf(2) n i(5,6) e t show ?thesis
        by (auto simp: listen_def Let_def piece_ok_def stage_ok_def split: prod.split)
    qed
  qed
qed

lemma send_frame_piece:
  assumes pf: "platform_ok pf" "pf_radio pf = rd" and s: "system_inv pf inv s" "live pf s" and t: "tx_start \<le> ck_time (pf_clock pf) (sy_clock s)"
  shows "\<exists>t. send_frame pf entry tx_start data s = Some t \<and> piece_ok pf inv s (t, Resting)"
proof -
  obtain res r where snd: "rd_send rd data (dp_radio (sy_dp s)) = (res, r)" by fastforce
  obtain tx_end w where n: "ck_now (pf_clock pf) (sy_clock s) = (tx_end, w)" by fastforce
  obtain u where u: "send_frame pf entry tx_start data s = Some u" using send_frame_total [OF pf(1) t] by blast
  have "inv r" using send_inv [of "dp_radio (sy_dp s)" data] s(1) snd by (simp add: system_inv_def dispatcher_inv_def)
  with u have "piece_ok pf inv s (u, Resting)"
    using s snd n pf(2) clock_okD [OF platform_okD(7) [OF pf(1)] n] deduct_inv
    by (cases res) (auto simp: send_frame_def bind_eq_Some_conv Let_def piece_ok_def stage_ok_def system_inv_def dispatcher_inv_def live_def deduct_def)
  with u show ?thesis by blast
qed

end

text \<open>With time left, entering a round does not panic.\<close>

lemma begin_transmit_total:
  assumes pf: "platform_ok pf" and s: "live pf s" and tl: "time_left pf 2 (sy_clock s)"
  shows "\<exists>x. begin_transmit pf s = Some x"
proof -
  let ?q = "dp_tx_queue (sy_dp s)"
  have t: "time_left pf (Suc (Suc 0)) (sy_clock s)" using tl by (simp add: numeral_2_eq_2)
  obtain now w1 where n: "ck_now (pf_clock pf) (sy_clock s) = (now, w1)" by fastforce
  obtain now2 w2 where n2: "ck_now (pf_clock pf) w1 = (now2, w2)" by fastforce
  note room = time_left_now(2) [OF pf time_left_now(1) [OF pf t n] n2]
  have "last_refill (dp_duty_cycle (sy_dp s)) \<le> now"
    using s clock_okD(2) [OF platform_okD(7) [OF pf] n] by (auto simp: live_def intro: order.trans)
  then obtain dc where rf: "refill (pf_time pf) (dp_duty_cycle (sy_dp s)) now = Some dc" using refill_total [OF pf] by blast
  have ad: "inst_add (pf_time pf) now2 (dur_from_millis (pf_time pf) (ucast ms)) =
      Some (now2 + dur_from_millis (pf_time pf) (ucast (ms :: u32)))" for ms
    using room by (simp add: time_okD(1) [OF platform_okD(6) [OF pf]])
  obtain ready q where "tx_pop_ready (pf_tx pf) now ?q = Some (ready, q)"
    using tx_pop_none [OF platform_okD(2) [OF pf], of ?q now] tx_pop_some [OF platform_okD(2) [OF pf], of _ ?q now] by metis
  with n n2 rf ad show ?thesis by (cases ready) (simp_all add: begin_transmit_def Let_def)
qed

lemma enter_round_total:
  assumes pf: "platform_ok pf" and s: "live pf s" and tl: "time_left pf (length (sy_tx_in s) + 3) (sy_clock s)"
  shows "\<exists>x. enter_round pf s = Some x"
proof -
  let ?d = "sy_dp s"
  obtain q w where ds: "drain_submissions (length (sy_tx_in s) + 1) pf (sy_tx_in s, dp_tx_queue ?d, sy_clock s) = Some ([], q, w)"
    and t1: "time_left pf 3 w" "ck_time (pf_clock pf) (sy_clock s) \<le> ck_time (pf_clock pf) w"
    and sub: "te_packet ` set (tx_entries q) \<subseteq> req_packet ` set (sy_tx_in s) \<union> te_packet ` set (tx_entries (dp_tx_queue ?d))"
    using drain_submissions_total [OF pf _ tl, of "length (sy_tx_in s) + 1" "dp_tx_queue ?d"] by (metis less_add_one)
  obtain now w1 where n: "ck_now (pf_clock pf) w = (now, w1)" by fastforce
  have tl3: "time_left pf (Suc 2) w" using t1(1) by (simp add: numeral_3_eq_3 numeral_2_eq_2)
  have t2: "time_left pf 2 w1" "ck_time (pf_clock pf) w \<le> ck_time (pf_clock pf) w1" by (rule time_left_now [OF pf tl3 n])+
  obtain dq out where dr: "deliver_ready (rx_len (dp_rx_delay_queue ?d) + 1) pf now (dp_rx_delay_queue ?d, sy_rx_out s) = Some (dq, out)"
    using deliver_ready_total [OF pf, of "dp_rx_delay_queue ?d" "rx_len (dp_rx_delay_queue ?d) + 1"] unfolding rx_len_def by (metis less_add_one)
  let ?s = "s\<lparr>sy_dp := ?d\<lparr>dp_tx_queue := q, dp_rx_delay_queue := dq\<rparr>, sy_tx_in := [], sy_rx_out := out, sy_clock := w1\<rparr>"
  have "\<forall>e \<in> set (tx_entries q). wf_packet (te_packet e)" using sub s by (fastforce simp: live_def)
  then have "live pf ?s" using s t1(2) t2(2) by (auto simp: live_def)
  from begin_transmit_total [OF pf this] t2(1) obtain x where "begin_transmit pf ?s = Some x" by auto
  with ds n dr show ?thesis by (simp add: enter_round_def Let_def del: drain_submissions.simps deliver_ready.simps)
qed

section \<open>The invariant of the interleaved firmware\<close>

definition busy_ok :: "('r, 'g, 'w) platform \<Rightarrow> task \<Rightarrow> (RxPacket \<times> 'w) option \<Rightarrow> bool" where
  "busy_ok pf t busy = (case busy of None \<Rightarrow> True | Some (p, w) \<Rightarrow> rx_wf p \<and> (\<exists>u. t = Running u \<and> user_ok pf u w))"

definition interleaved_inv :: "('r, 'g, 'w) platform \<Rightarrow> ('r \<Rightarrow> bool) \<Rightarrow> ('r, 'g, 'w) running \<Rightarrow> bool" where
  "interleaved_inv pf rinv = (\<lambda>(f, st, busy). fw_inv pf rinv f \<and> stage_ok pf (fw_sys f) st \<and> busy_ok pf (fw_task f) busy)"

lemma stage_ok_later: "stage_ok pf s st \<Longrightarrow> ck_time (pf_clock pf) (sy_clock s) \<le> ck_time (pf_clock pf) (sy_clock t) \<Longrightarrow> stage_ok pf t st"
  by (auto simp: stage_ok_def intro: order.trans split: stage.splits)

lemma dispatched_inv:
  assumes f: "interleaved_inv pf rinv (f, st, busy)" and r: "\<And>x. r = Some x \<Longrightarrow> piece_ok pf rinv (fw_sys f) x"
  shows "interleaved_inv pf rinv (dispatched f busy (fine_outcome (fw_sys f) r))"
proof (cases r)
  case None
  with f show ?thesis by (simp add: interleaved_inv_def dispatched_def fine_outcome_def stage_ok_def fw_inv_def system_inv_def live_def)
next
  case (Some x)
  then show ?thesis using f r [OF Some] task_ok_later
    by (cases x) (auto simp: interleaved_inv_def dispatched_def fine_outcome_def piece_ok_def fw_inv_def)
qed

lemma outcome_fine: "(outcome s r, Resting) = fine_outcome s (map_option (\<lambda>t. (t, Resting)) r)"
  by (simp add: outcome_def fine_outcome_def split: option.split)

text \<open>The end of the start-up or of an iteration.\<close>

lemma finished_inv:
  assumes f: "interleaved_inv pf rinv (f, st, busy)" and r: "r = Some (u, req, w1)" "user_ok pf u w1" "finished pf f r w r'"
    and q: "\<forall>x. req = Some x \<longrightarrow> wf_packet (req_packet x)"
  shows "interleaved_inv pf rinv (task_outcome f (sy_rx_out (fw_sys f)) r', st, None)"
proof -
  have r': "r' = Some (u, req, w)" and t: "ck_time (pf_clock pf) (sy_clock (fw_sys f)) \<le> ck_time (pf_clock pf) w" "user_ok pf u w"
    using r user_ok_later by (auto simp: finished_def)
  with f q show ?thesis using stage_ok_later [of pf "fw_sys f" st "(fw_sys f)\<lparr>sy_clock := w\<rparr>"]
    by (auto simp: interleaved_inv_def busy_ok_def fw_inv_def task_outcome_def system_inv_def live_def task_ok_def stage_ok_def split: option.split stage.splits)
qed

lemma channel_receive: "platform_ok pf \<Longrightarrow> ch_try_receive (pf_rx_out pf) xs = Some (p, rest) \<Longrightarrow> xs = p # rest"
  using platform_okD(5) [of pf] by (auto split: list.splits)

context radio_driver
begin

lemma interleaved_step_inv:
  assumes st: "interleaved_step pf c E x y" and pf: "platform_ok pf" "pf_radio pf = rd" and c: "crypto_ok c" and "interleaved_inv pf inv x"
  shows "interleaved_inv pf inv y"
  using st assms(5)
proof (cases rule: interleaved_step.cases)
  case (il_top f busy)
  with assms(5) have "system_inv pf inv (fw_sys f)" "live pf (fw_sys f)" by (simp_all add: interleaved_inv_def fw_inv_def)
  with assms(5) show ?thesis unfolding il_top(1,2) by (blast intro: dispatched_inv enter_round_piece [OF pf(1)])
next
  case (il_listen f entry deadline busy)
  with assms(5) have "system_inv pf inv (fw_sys f)" "live pf (fw_sys f)" "wf_packet (te_packet entry)"
    by (simp_all add: interleaved_inv_def fw_inv_def stage_ok_def)
  from listen_piece [OF pf this, of deadline] obtain z where "listen pf entry deadline (fw_sys f) = Some z" "piece_ok pf inv (fw_sys f) z" by blast
  with dispatched_inv [OF assms(5) [unfolded il_listen(1)], of "Some z"] show ?thesis unfolding il_listen(2) by simp
next
  case (il_pause since dur w f entry deadline busy)
  let ?s = "(fw_sys f)\<lparr>sy_clock := w\<rparr>"
  have "piece_ok pf inv (fw_sys f) (?s, Listening entry deadline)"
    using assms(5) il_pause by (auto simp: interleaved_inv_def fw_inv_def piece_ok_def stage_ok_def system_inv_def live_def)
  with dispatched_inv [OF assms(5) [unfolded il_pause(1)], of "Some (?s, Listening entry deadline)"] show ?thesis
    unfolding il_pause(2) by (simp add: fine_outcome_def)
next
  case (il_send f entry tx_start data busy)
  with assms(5) have "system_inv pf inv (fw_sys f)" "live pf (fw_sys f)" "tx_start \<le> ck_time (pf_clock pf) (sy_clock (fw_sys f))"
    by (simp_all add: interleaved_inv_def fw_inv_def stage_ok_def)
  from send_frame_piece [OF pf this, of entry data] obtain t where
    "send_frame pf entry tx_start data (fw_sys f) = Some t" "piece_ok pf inv (fw_sys f) (t, Resting)" by blast
  with dispatched_inv [OF assms(5) [unfolded il_send(1)], of "Some (t, Resting)"] show ?thesis unfolding il_send(2) by simp
next
  case (il_radio f wake busy)
  with assms(5) have "system_inv pf inv (fw_sys f)" "live pf (fw_sys f)" by (simp_all add: interleaved_inv_def fw_inv_def)
  with assms(5) show ?thesis
    unfolding il_radio(1,2) outcome_fine using on_radio_inv [OF pf] on_radio_live [OF pf]
    by (intro dispatched_inv) (auto simp: piece_ok_def stage_ok_def)
next
  case (il_submission f wake req rest busy)
  with assms(5) have "system_inv pf inv (fw_sys f)" "live pf (fw_sys f)" by (simp_all add: interleaved_inv_def fw_inv_def)
  with assms(5) show ?thesis
    unfolding il_submission(1,2) outcome_fine
    using on_submission_inv [OF pf(1) _ il_submission(4)] on_submission_live [OF pf(1) _ il_submission(4)]
    by (intro dispatched_inv) (auto simp: piece_ok_def stage_ok_def)
next
  case (il_timer f at w busy)
  let ?s = "(fw_sys f)\<lparr>sy_clock := w, sy_phase := Top\<rparr>"
  have "piece_ok pf inv (fw_sys f) (?s, Resting)"
    using assms(5) il_timer by (auto simp: interleaved_inv_def fw_inv_def piece_ok_def stage_ok_def system_inv_def live_def)
  with dispatched_inv [OF assms(5) [unfolded il_timer(1)], of "Some (?s, Resting)"] show ?thesis
    unfolding il_timer(2) by (simp add: fine_outcome_def)
next
  case (il_start f rtc w0 w r st)
  from boot_request [OF pf(1) c il_start(4), of E] obtain u req w1 where
    b: "user_boot pf c E rtc w0 = Some (u, Some req, w1)" "user_ok pf u w1" "wf_packet (req_packet req)" by blast
  then show ?thesis unfolding il_start(2) using finished_inv [OF assms(5) [unfolded il_start(1)] b(1,2) il_start(5)] by simp
next
  case (il_receive f u p rest st)
  then show ?thesis
    using assms(5) channel_receive [OF pf(1) il_receive(4)]
    by (auto simp: interleaved_inv_def busy_ok_def fw_inv_def system_inv_def live_def task_ok_def stage_ok_def split: stage.splits)
next
  case (il_finish f u w0 p w r st)
  then have u: "user_ok pf u w0" "rx_wf p" using assms(5) by (auto simp: interleaved_inv_def busy_ok_def)
  from step_request [OF pf(1) c u] obtain u' req w1 where
    s: "user_step pf c (u, w0) p = Some (u', req, w1)" "user_ok pf u' w1" "\<forall>x. req = Some x \<longrightarrow> wf_packet (req_packet x)" by blast
  show ?thesis unfolding il_finish(2) by (rule finished_inv [OF assms(5) [unfolded il_finish(1)] s(1,2) il_finish(4) s(3)])
next
  case (il_submit f u req tx_in st)
  then show ?thesis using assms(5) platform_okD(4) [OF pf(1)]
    by (auto simp: interleaved_inv_def busy_ok_def fw_inv_def system_inv_def live_def task_ok_def stage_ok_def split: if_splits stage.splits)
qed

end

section \<open>No piece panics\<close>

lemma task_outcome_phase [simp]: "sy_phase (fw_sys (task_outcome f out r)) = sy_phase (fw_sys f)"
  by (simp add: task_outcome_def split: option.split)

lemma dispatched_phase [simp]: "fst (dispatched f busy (fine_outcome s r)) = f\<lparr>fw_sys := fst (fine_outcome s r)\<rparr>"
  "fst (dispatched f busy x) = f\<lparr>fw_sys := fst x\<rparr>"
  by (simp_all add: dispatched_def case_prod_beta)

lemma pieces_keep_phase:
  "begin_send pf entry s = Some (t, st) \<Longrightarrow> sy_phase t = sy_phase s"
  "listen pf entry deadline s = Some (t, st) \<Longrightarrow> sy_phase t = sy_phase s"
  "enter_round pf s = Some (t, st) \<Longrightarrow> sy_phase t \<noteq> Stopped \<or> sy_phase t = sy_phase s"
  "send_frame pf entry tx_start data s = Some t \<Longrightarrow> sy_phase t \<noteq> Stopped"
proof -
  show b: "begin_send pf entry s = Some (t, st) \<Longrightarrow> sy_phase t = sy_phase s" for s
    by (auto simp: begin_send_def bind_eq_Some_conv Let_def case_prod_beta)
  show "listen pf entry deadline s = Some (t, st) \<Longrightarrow> sy_phase t = sy_phase s"
    by (auto simp: listen_def Let_def split: sum.splits prod.splits if_splits dest!: b)
  show "enter_round pf s = Some (t, st) \<Longrightarrow> sy_phase t \<noteq> Stopped \<or> sy_phase t = sy_phase s"
    by (auto simp: enter_round_def begin_transmit_def bind_eq_Some_conv Let_def case_prod_beta simp del: drain_submissions.simps deliver_ready.simps
        split: option.splits if_splits)
  show "send_frame pf entry tx_start data s = Some t \<Longrightarrow> sy_phase t \<noteq> Stopped"
    by (auto simp: send_frame_def bind_eq_Some_conv Let_def case_prod_beta)
qed

lemma fine_outcome_running:
  "r = Some x \<Longrightarrow> sy_phase (fst x) \<noteq> Stopped \<Longrightarrow> sy_phase (fst (fine_outcome s r)) \<noteq> Stopped"
  by (simp add: fine_outcome_def)

lemma interleaved_progress:
  assumes pf: "platform_ok pf" "rak_platform lr pf" and f: "interleaved_inv pf (\<lambda>_. lora_ok lr) (f, st, busy)" "sy_phase (fw_sys f) \<noteq> Stopped"
    and t: "time_left pf 7 (sy_clock (fw_sys f))" and s: "interleaved_step pf c E (f, st, busy) y"
  shows "sy_phase (fw_sys (fst y)) \<noteq> Stopped"
proof -
  have r: "pf_radio pf = sx1262_radio lr" using pf(2) by (simp add: rak_platform_def)
  have i: "system_inv pf (\<lambda>_. lora_ok lr) (fw_sys f)" "live pf (fw_sys f)" using f(1) by (simp_all add: interleaved_inv_def fw_inv_def)
  have "length (sy_tx_in (fw_sys f)) \<le> 4" using i(1) pf(2) by (simp add: system_inv_def rak_platform_def)
  then have tl: "time_left pf (length (sy_tx_in (fw_sys f)) + 3) (sy_clock (fw_sys f))" "time_left pf 1 (sy_clock (fw_sys f))"
    by (intro time_left_mono [OF t]; simp)+
  show ?thesis
    using s
  proof (cases rule: interleaved_step.cases)
    case il_top
    from enter_round_total [OF pf(1) i(2) tl(1)] obtain t1 st1 where "enter_round pf (fw_sys f) = Some (t1, st1)" by fastforce
    with il_top f(2) pieces_keep_phase(3) [OF this] show ?thesis by (auto simp: fine_outcome_def)
  next
    case (il_listen entry deadline)
    then have "wf_packet (te_packet entry)" using f(1) by (simp add: interleaved_inv_def stage_ok_def)
    from radio_driver.listen_piece [OF sx.radio_driver_axioms pf(1) r i this, of deadline] obtain t1 st1 where
      "listen pf entry deadline (fw_sys f) = Some (t1, st1)" by fastforce
    with il_listen f(2) pieces_keep_phase(2) [OF this] show ?thesis by (auto simp: fine_outcome_def)
  next
    case (il_send entry tx_start data)
    then have "tx_start \<le> ck_time (pf_clock pf) (sy_clock (fw_sys f))" using f(1) by (simp add: interleaved_inv_def stage_ok_def)
    from send_frame_total [OF pf(1) this, of entry data] obtain t1 where "send_frame pf entry tx_start data (fw_sys f) = Some t1" by blast
    with il_send pieces_keep_phase(4) [OF this] show ?thesis by (auto simp: fine_outcome_def)
  next
    case (il_radio wake)
    from radio_driver.on_radio_total [OF sx.radio_driver_axioms pf(1) r i(1) tl(2)] obtain x where x: "on_radio pf (fw_sys f) = Some x" by blast
    then have "sy_phase x \<noteq> Stopped" by (auto simp: on_radio_def bind_eq_Some_conv)
    with x il_radio show ?thesis by (simp add: outcome_def)
  next
    case (il_submission wake req rest)
    from on_submission_total [OF pf(1) tl(2)] obtain x where x: "on_submission pf (fw_sys f) req rest = Some x" by blast
    then have "sy_phase x \<noteq> Stopped" by (auto simp: on_submission_def bind_eq_Some_conv split: prod.splits)
    with x il_submission show ?thesis by (simp add: outcome_def)
  qed (use f(2) in simp_all)
qed

section \<open>Uninterrupted runs are interleaved runs\<close>

lemma interleaved_trans:
  "interleaved_reachable pf c E y z \<Longrightarrow> interleaved_reachable pf c E x y \<Longrightarrow> interleaved_reachable pf c E x z"
  by (induction rule: interleaved_reachable.induct) (auto intro: il_more)

definition pause_ok :: "('r, 'g, 'w) platform \<Rightarrow> ('r, 'g, 'w) system \<times> stage \<Rightarrow> bool" where
  "pause_ok pf = (\<lambda>(s, st). case st of Pausing _ _ since _ \<Rightarrow> since \<le> ck_time (pf_clock pf) (sy_clock s) | _ \<Rightarrow> True)"

lemma begin_send_stage: "begin_send pf entry s = Some (t, st) \<Longrightarrow> \<exists>ts data. st = Transmitting entry ts data"
  by (auto simp: begin_send_def bind_eq_Some_conv Let_def case_prod_beta)

lemma pause_ok_listen: "listen pf entry deadline s = Some x \<Longrightarrow> pause_ok pf x"
  by (cases x) (auto simp: listen_def pause_ok_def Let_def split: sum.splits prod.splits if_splits dest: begin_send_stage)

lemma pause_ok_enter_round: "enter_round pf s = Some x \<Longrightarrow> pause_ok pf x"
  by (cases x) (auto simp: enter_round_def begin_transmit_def pause_ok_def bind_eq_Some_conv Let_def case_prod_beta
      simp del: drain_submissions.simps deliver_ready.simps split: option.splits if_splits)

lemma pause_ok_outcome: "(\<And>x. r = Some x \<Longrightarrow> pause_ok pf x) \<Longrightarrow> pause_ok pf (fine_outcome s r)"
  by (cases r) (simp_all add: fine_outcome_def pause_ok_def)

lemma piece_interleaved:
  assumes "platform_ok pf" "piece_step pf (s, st) (t, st')" "pause_ok pf (s, st)"
  shows "interleaved_step pf c E (f\<lparr>fw_sys := s\<rparr>, st, busy) (f\<lparr>fw_sys := t\<rparr>, st', busy) \<and> pause_ok pf (t, st')"
  using assms(2)
proof (cases rule: piece_step.cases)
  case piece_top
  note eq = piece_top(2) [symmetric]
  have p: "pause_ok pf (fine_outcome s (enter_round pf s))" by (rule pause_ok_outcome) (rule pause_ok_enter_round)
  from piece_top show ?thesis
    using il_top [of "f\<lparr>fw_sys := s\<rparr>" pf c E busy] p
    by (auto simp: dispatched_def eq)
next
  case (piece_listen entry deadline)
  note eq = piece_listen(2) [symmetric]
  have p: "pause_ok pf (fine_outcome s (listen pf entry deadline s))" by (rule pause_ok_outcome) (rule pause_ok_listen)
  from piece_listen show ?thesis
    using il_listen [of pf c E "f\<lparr>fw_sys := s\<rparr>" entry deadline busy] p
    by (auto simp: dispatched_def eq)
next
  case (piece_pause entry deadline since dur)
  let ?w = "ck_after (pf_clock pf) dur (sy_clock s)"
  have "saturating_add (ck_time (pf_clock pf) (sy_clock s)) dur \<le> ck_time (pf_clock pf) ?w"
    by (rule clock_ok_after [OF platform_okD(7) [OF assms(1)]])
  moreover have "saturating_add since dur \<le> saturating_add (ck_time (pf_clock pf) (sy_clock s)) dur"
    using assms(3) piece_pause by (simp add: pause_ok_def word_le_nat_alt unat_saturating_add)
  moreover have "ck_time (pf_clock pf) (sy_clock s) \<le> saturating_add (ck_time (pf_clock pf) (sy_clock s)) dur" by (rule saturating_add_ge)
  ultimately show ?thesis
    using piece_pause il_pause [of since dur pf ?w "f\<lparr>fw_sys := s\<rparr>" c E entry deadline busy]
    by (simp add: dispatched_def pause_ok_def)
next
  case (piece_send entry tx_start data)
  note eq = piece_send(2) [symmetric]
  from piece_send show ?thesis
    using il_send [of pf c E "f\<lparr>fw_sys := s\<rparr>" entry tx_start data busy]
      pause_ok_outcome [of "map_option (\<lambda>t. (t, Resting)) (send_frame pf entry tx_start data s)" pf s]
    by (auto simp: dispatched_def pause_ok_def eq)
qed

lemma pieces_interleaved:
  assumes "platform_ok pf" "rtranclp (piece_step pf) (s, Resting) x"
  shows "interleaved_reachable pf c E (f\<lparr>fw_sys := s\<rparr>, Resting, busy) (f\<lparr>fw_sys := fst x\<rparr>, snd x, busy) \<and> pause_ok pf x"
  using assms(2)
proof (induction rule: rtranclp_induct)
  case base
  then show ?case by (simp add: il_here pause_ok_def)
next
  case (step y z)
  then show ?case using piece_interleaved [OF assms(1), of "fst y" "snd y" "fst z" "snd z" c E f busy] by (auto intro: il_more)
qed

lemma firmware_step_interleaved:
  assumes pf: "platform_ok pf" and c: "crypto_ok c" and f: "fw_inv pf rinv f" and g: "firmware_step pf c E f g" "sy_phase (fw_sys g) \<noteq> Stopped"
  shows "interleaved_reachable pf c E (f, Resting, None) (g, Resting, None)"
  using g(1)
proof (cases rule: firmware_step.cases)
  case fw_top
  then have "loop_top pf (fw_sys f) = Some (fw_sys g)" using g(2) by (auto simp: outcome_def split: option.splits)
  from round_steps [OF fw_top(2) this] have "rtranclp (piece_step pf) (fw_sys f, Resting) (fw_sys g, Resting)" .
  from pieces_interleaved [OF pf this, of c E f None] show ?thesis unfolding fw_top(1) by simp
next
  case (fw_radio wake)
  from il_more [OF il_here il_radio [OF fw_radio(2)]] show ?thesis by (simp add: fw_radio(1) dispatched_def)
next
  case (fw_submission wake req rest)
  from il_more [OF il_here il_submission [OF fw_submission(2,3)]] show ?thesis by (simp add: fw_submission(1) dispatched_def)
next
  case (fw_timer at w)
  from il_more [OF il_here il_timer [OF fw_timer(2-4)]] show ?thesis by (simp add: fw_timer(1) dispatched_def)
next
  case (fw_start rtc)
  then have b: "base_instant rtc \<le> ck_time (pf_clock pf) (sy_clock (fw_sys f))" using f by (simp add: fw_inv_def task_ok_def)
  from boot_request [OF pf c b, of E] obtain u req w where
    r: "user_boot pf c E rtc (sy_clock (fw_sys f)) = Some (u, Some req, w)" "ck_time (pf_clock pf) (sy_clock (fw_sys f)) \<le> ck_time (pf_clock pf) w" by blast
  then have "finished pf f (user_boot pf c E rtc (sy_clock (fw_sys f))) w (Some (u, Some req, w))" by (simp add: finished_def)
  from il_more [OF il_here il_start [OF fw_start(2) b this]] show ?thesis by (simp add: fw_start(1) r(1))
next
  case (fw_receive u p rest)
  let ?f = "f\<lparr>fw_sys := (fw_sys f)\<lparr>sy_rx_out := rest\<rparr>\<rparr>" and ?w0 = "sy_clock (fw_sys f)"
  have u: "user_ok pf u ?w0" using f fw_receive(2) by (simp add: fw_inv_def task_ok_def)
  have "rx_wf p" using f channel_receive [OF pf fw_receive(3)] by (simp add: fw_inv_def system_inv_def)
  from step_request [OF pf c u this] obtain u' req w where
    r: "user_step pf c (u, ?w0) p = Some (u', req, w)" "ck_time (pf_clock pf) ?w0 \<le> ck_time (pf_clock pf) w" by blast
  then have fin: "finished pf ?f (user_step pf c (u, ?w0) p) w (Some (u', req, w))" by (simp add: finished_def)
  have "interleaved_reachable pf c E (f, Resting, None) (?f, Resting, Some (p, ?w0))"
    by (rule il_more [OF il_here il_receive [OF fw_receive(2,3)]])
  from il_more [OF this il_finish [OF _ fin]] show ?thesis using fw_receive(2) by (simp add: fw_receive(1) r(1) task_outcome_def)
next
  case (fw_send u req tx_in)
  from il_more [OF il_here il_submit [OF fw_send(2,3)]] show ?thesis by (simp add: fw_send(1))
qed

lemma firmware_stopped_for_good: "firmware_step pf c E f g \<Longrightarrow> sy_phase (fw_sys f) = Stopped \<Longrightarrow> sy_phase (fw_sys g) = Stopped"
  by (cases rule: firmware_step.cases) auto

text \<open>Every run in which rounds and iterations are one step each, up to a panic, is an interleaved run.\<close>

lemma firmware_reachable_interleaved:
  assumes rd: "radio_driver (pf_radio pf) rinv" and pf: "platform_ok pf" and c: "crypto_ok c" and f: "fw_inv pf rinv f"
    and g: "firmware_reachable pf c E f g" "sy_phase (fw_sys g) \<noteq> Stopped"
  shows "interleaved_reachable pf c E (f, Resting, None) (g, Resting, None)"
proof -
  have "fw_inv pf rinv g \<and> (sy_phase (fw_sys g) \<noteq> Stopped \<longrightarrow> interleaved_reachable pf c E (f, Resting, None) (g, Resting, None))"
    using g(1)
  proof (induction rule: firmware_reachable.induct)
    case fw_here
    then show ?case using f by (simp add: il_here)
  next
    case (fw_more g h)
    then show ?case
      using radio_driver.firmware_step_inv [OF rd fw_more(2) pf refl c] firmware_step_interleaved [OF pf c _ fw_more(2)]
        firmware_stopped_for_good [OF fw_more(2)] interleaved_trans by blast
  qed
  with g(2) show ?thesis by blast
qed

section \<open>Properties\<close>

text \<open>
  C1: The firmware never panics, however the two tasks are interleaved: the responder takes packets, submits requests and comes to the end of its iterations while
  the dispatcher is listening, pausing or transmitting. In every state they can reach from start-up, whatever is received and however the clock
  and the channel behave, the responder has not panicked, and as long as the tick counter leaves room for one more delay, no piece of the dispatcher's loop panics
  either (neither an index, nor a buffer, nor an instant or duration out of range).
\<close>
theorem interleaved_firmware_never_panics:
  assumes "platform_ok pf" "rak_platform lr pf" "lora_ok lr" "crypto_ok c"
    and "firmware_main pf lr l E w = Some f0" "interleaved_reachable pf c E (f0, Resting, None) (f, st, busy)"
  shows "fw_task f \<noteq> Panicked \<and>
    (\<forall>y. time_left pf 7 (sy_clock (fw_sys f)) \<and> sy_phase (fw_sys f) \<noteq> Stopped \<and> interleaved_step pf c E (f, st, busy) y \<longrightarrow>
      sy_phase (fw_sys (fst y)) \<noteq> Stopped)"
proof -
  have r: "pf_radio pf = sx1262_radio lr" using assms(2) by (simp add: rak_platform_def)
  have "interleaved_inv pf (\<lambda>_. lora_ok lr) (f0, Resting, None)"
    using firmware_main_inv [OF assms(1-3,5)] by (simp add: interleaved_inv_def stage_ok_def busy_ok_def)
  with assms(6) have "interleaved_inv pf (\<lambda>_. lora_ok lr) (f, st, busy)"
    by (induction "(f, st, busy)" arbitrary: f st busy rule: interleaved_reachable.induct)
      (auto intro: radio_driver.interleaved_step_inv [OF sx.radio_driver_axioms _ assms(1) r assms(4)])
  then show ?thesis using interleaved_progress [OF assms(1,2)] by (auto simp: interleaved_inv_def fw_inv_def task_ok_def)
qed

lemma interleaved_firmware_never_panics_witness:
  "\<exists>f0 y. firmware_main demo_board demo_lora () 1000 (0, 0) = Some f0 \<and> interleaved_step demo_board demo_crypto 1000 (f0, Resting, None) y \<and>
    sy_phase (fw_sys (fst y)) \<noteq> Stopped"
proof -
  obtain r where m: "firmware_main demo_board demo_lora () 1000 (0, 0) =
    Some \<lparr>fw_sys = start_system demo_board r (SimpleRng_new 0xDEADBEEF) DispatcherConfig_default (1000, 1),
      fw_task = Booting (VolatileRtcClock_new 0 1000)\<rparr>" (is "_ = Some ?f")
    using demo_board_main by blast
  have p: "sy_phase (fw_sys ?f) = Top" "sy_clock (fw_sys ?f) = (1000, 1)" by (simp_all add: start_system_def)
  then obtain y where y: "interleaved_step demo_board demo_crypto 1000 (?f, Resting, None) y" using interleaved_step.il_top by blast
  have "time_left demo_board 7 (1000, 1)" by (rule demo_time_left) simp_all
  with interleaved_firmware_never_panics [OF demo_board_ok demo_crypto_ok m il_here] y p have "sy_phase (fw_sys (fst y)) \<noteq> Stopped" by (cases y) auto
  with m y show ?thesis by blast
qed

end
