(* ===== verification/Interleaved_Traffic.thy ===== *)
theory Interleaved_Traffic
  imports Interleaving Provenance
begin

text \<open>
  What the firmware puts on the air when the responder runs in the middle of transmissions (\<open>boards/rak4631/src/main.rs\<close> over \<open>crates/meshcore-dispatch\<close>): the same as
  when it does not. The entry in transmission is neither in the queue nor yet on the air; it counts as still queued until the radio has it.
\<close>

section \<open>The entry in transmission\<close>

definition entry_of :: "stage \<Rightarrow> TxEntry option" where
  "entry_of st = (case st of
     Resting \<Rightarrow> None | Listening entry _ \<Rightarrow> Some entry | Pausing entry _ _ _ \<Rightarrow> Some entry | Transmitting entry _ _ \<Rightarrow> Some entry)"

definition held :: "('r, 'g, 'w) system \<times> stage \<Rightarrow> ('r, 'g, 'w) system" where
  "held = (\<lambda>(s, st). case entry_of st of
     None \<Rightarrow> s
   | Some entry \<Rightarrow> s\<lparr>sy_dp := (sy_dp s)\<lparr>dp_tx_queue := \<lparr>tx_entries = entry # tx_entries (dp_tx_queue (sy_dp s))\<rparr>\<rparr>\<rparr>)"

text \<open>The bytes about to be transmitted are the wire image of the entry.\<close>

definition frame_ok :: "stage \<Rightarrow> bool" where
  "frame_ok st = (case st of Transmitting entry _ data \<Rightarrow> data = wire_bytes (te_packet entry) | _ \<Rightarrow> True)"

definition held_conserved ::
    "TxRequest list \<Rightarrow> RxPacket list \<Rightarrow> ('r \<times> tape, 'g, 'w) system \<times> stage \<Rightarrow> bool" where
  "held_conserved subs got x \<longleftrightarrow> conserved subs got (held x) \<and> frame_ok (snd x)"

lemma held_resting [simp]: "held_conserved subs got (s, Resting) = conserved subs got s"
  by (simp add: held_conserved_def held_def entry_of_def frame_ok_def)

lemma conserved_cong:
  assumes "conserved subs got s" "outbound (sy_dp t) = outbound (sy_dp s)" "sy_tx_in t = sy_tx_in s" "tape_of (sy_dp t) = tape_of (sy_dp s)"
    "dp_rx_delay_queue (sy_dp t) = dp_rx_delay_queue (sy_dp s)" "sy_rx_out t = sy_rx_out s" "dp_stats (sy_dp t) = dp_stats (sy_dp s)"
  shows "conserved subs got t"
  using assms by (simp add: conserved_def inbound_def)

lemma begin_transmit_held:
  assumes pf: "platform_ok pf" and s: "conserved subs got s" and r: "begin_transmit pf s = Some x"
  shows "held_conserved subs got x"
proof -
  let ?d = "sy_dp s"
  obtain now w1 where n: "ck_now (pf_clock pf) (sy_clock s) = (now, w1)" by fastforce
  from r n obtain dc ready q where rf: "refill (pf_time pf) (dp_duty_cycle ?d) now = Some dc"
    and pop: "tx_pop_ready (pf_tx pf) now (dp_tx_queue ?d) = Some (ready, q)"
    by (auto simp: begin_transmit_def bind_eq_Some_conv Let_def)
  note bag = tx_pop_bag [OF platform_okD(2) [OF pf] pop]
  show ?thesis
  proof (cases ready)
    case None
    with r n rf pop bag s show ?thesis by (auto simp: begin_transmit_def Let_def intro!: conserved_cong [OF s] simp: outbound_def)
  next
    case (Some e)
    show ?thesis
    proof (cases "can_transmit dc (rd_estimate_airtime_ms (pf_radio pf) (dp_radio ?d) (wire_len (te_packet e)))")
      case False
      with r n rf pop Some obtain t where x: "x = (t, Resting)"
        and t: "sy_dp t = ?d\<lparr>dp_duty_cycle := dc, dp_tx_queue := snd (tx_push_entry (pf_tx pf) (pf_TX_Q pf) q e)\<rparr>"
          "sy_tx_in t = sy_tx_in s" "sy_rx_out t = sy_rx_out s"
        by (auto simp: begin_transmit_def Let_def)
      have "outbound (sy_dp t) \<subseteq># outbound ?d"
        using bag Some platform_okD(2) [OF pf] by (auto simp: t outbound_def tx_push_entry_def)
      then show ?thesis unfolding x held_resting
        using s by (intro conservedI [OF s, where new = "[]"]) (simp_all add: t inbound_def conserved_def subset_mset.add_right_mono)
    next
      case True
      obtain now2 w2 where n2: "ck_now (pf_clock pf) w1 = (now2, w2)" by fastforce
      from True r n n2 rf pop Some obtain dl where
        x: "x = (s\<lparr>sy_dp := ?d\<lparr>dp_duty_cycle := dc, dp_tx_queue := q\<rparr>, sy_clock := w2\<rparr>, Listening e dl)"
        by (auto simp: begin_transmit_def Let_def bind_eq_Some_conv)
      show ?thesis using bag Some
        by (auto simp: x held_conserved_def held_def entry_of_def frame_ok_def outbound_def intro!: conserved_cong [OF s])
    qed
  qed
qed

lemma enter_round_held:
  assumes pf: "platform_ok pf" and s: "conserved subs got s" and r: "enter_round pf s = Some x"
  shows "held_conserved subs got x"
proof -
  let ?d = "sy_dp s"
  from r obtain tx_in q w where ds: "drain_submissions (length (sy_tx_in s) + 1) pf (sy_tx_in s, dp_tx_queue ?d, sy_clock s) = Some (tx_in, q, w)"
    by (auto simp: enter_round_def bind_eq_Some_conv Let_def simp del: drain_submissions.simps deliver_ready.simps)
  obtain now w1 where n: "ck_now (pf_clock pf) w = (now, w1)" by fastforce
  from r ds n obtain dq out where dr: "deliver_ready (rx_len (dp_rx_delay_queue ?d) + 1) pf now (dp_rx_delay_queue ?d, sy_rx_out s) = Some (dq, out)"
    by (auto simp: enter_round_def bind_eq_Some_conv Let_def simp del: drain_submissions.simps deliver_ready.simps)
  from r ds n dr have "begin_transmit pf (s\<lparr>sy_dp := ?d\<lparr>dp_tx_queue := q, dp_rx_delay_queue := dq\<rparr>, sy_tx_in := tx_in, sy_rx_out := out,
      sy_clock := w1\<rparr>) = Some x"
    by (simp add: enter_round_def Let_def del: drain_submissions.simps deliver_ready.simps)
  then show ?thesis by (rule begin_transmit_held [OF pf collect_conserved [OF pf s ds dr]])
qed

lemma held_weaken: "held_conserved subs got (s, st) \<Longrightarrow> conserved subs got s"
  by (rule conservedI [where s = "held (s, st)" and new = "[]"])
    (auto simp: held_conserved_def held_def entry_of_def outbound_def inbound_def conserved_def subset_mset.add_right_mono split: stage.splits)

lemma begin_send_held:
  assumes "begin_send pf entry s = Some x" "conserved subs got (held (s, Listening entry deadline))"
  shows "held_conserved subs got x"
proof -
  let ?p = "te_packet entry"
  obtain ts w where n: "ck_now (pf_clock pf) (sy_clock s) = (ts, w)" by fastforce
  from assms(1) obtain k buf where wt: "write_to ?p (sy_buf s) = Some (k, buf)" by (auto simp: begin_send_def bind_eq_Some_conv)
  then have ok: "path_complete ?p" "k = wire_len ?p" "buf = wire_bytes ?p @ drop k (sy_buf s)"
    by (auto simp: write_to_eq split: if_splits)
  then have "slice buf 0 k = Some (wire_bytes ?p)" by (simp add: slice_def length_wire_bytes)
  with assms(1) wt n have x: "x = (s\<lparr>sy_buf := buf, sy_clock := w\<rparr>, Transmitting entry ts (wire_bytes ?p))" by (simp add: begin_send_def)
  show ?thesis
    by (auto simp: x held_conserved_def frame_ok_def held_def entry_of_def intro!: conserved_cong [OF assms(2)])
qed

lemma listen_held:
  assumes rd: "pf_radio pf = tapped rd" and s: "held_conserved subs got (s, Listening entry deadline)" and l: "listen pf entry deadline s = Some x"
  shows "held_conserved subs got x"
proof -
  obtain res r where ca: "rd_channel_active (pf_radio pf) (dp_radio (sy_dp s)) = (res, r)" by (rule prod.exhaust)
  obtain now w where n: "ck_now (pf_clock pf) (sy_clock s) = (now, w)" by (rule prod.exhaust)
  have tp: "snd r = tape_of (sy_dp s)" using ca by (auto simp: rd)
  have c: "conserved subs got (held (s\<lparr>sy_dp := (sy_dp s)\<lparr>dp_radio := r, dp_rng := g\<rparr>, sy_clock := v\<rparr>, st))"
    if st: "entry_of st = Some entry" for g v st
  proof (rule conserved_cong)
    show "conserved subs got (held (s, Listening entry deadline))" using s by (simp add: held_conserved_def)
  qed (simp_all add: held_def st entry_of_def [of "Listening entry deadline"] outbound_def tp)
  define u where "u v = s\<lparr>sy_dp := (sy_dp s)\<lparr>dp_radio := r, dp_rng := dp_rng (sy_dp s)\<rparr>, sy_clock := v\<rparr>" for v
  have u: "s\<lparr>sy_dp := (sy_dp s)\<lparr>dp_radio := r\<rparr>\<rparr> = u (sy_clock s)" "s\<lparr>sy_dp := (sy_dp s)\<lparr>dp_radio := r\<rparr>, sy_clock := w\<rparr> = u w"
    "(u v)\<lparr>sy_clock := w\<rparr> = u w" for v
    by (simp_all add: u_def)
  have b: "held_conserved subs got x" if "begin_send pf entry (u v) = Some x" for v
    by (rule begin_send_held [OF that [unfolded u_def] c]) (simp add: entry_of_def)
  show ?thesis
  proof (cases "res = Inr True \<and> \<not> deadline \<le> now")
    case True
    then obtain g since dur where "x = (s\<lparr>sy_dp := (sy_dp s)\<lparr>dp_radio := r, dp_rng := g\<rparr>, sy_clock := w\<rparr>, Pausing entry deadline since dur)"
      using l ca n by (auto simp: listen_def Let_def split: prod.splits)
    with c show ?thesis by (simp add: held_conserved_def frame_ok_def entry_of_def)
  next
    case False
    then have "\<exists>v. begin_send pf entry (u v) = Some x"
      using l ca n by (auto simp: listen_def Let_def u split: sum.splits if_splits)
    then show ?thesis using b by blast
  qed
qed

lemma send_frame_held:
  assumes rd: "pf_radio pf = tapped rd" and s: "held_conserved subs got (s, Transmitting entry tx_start data)"
    and t: "send_frame pf entry tx_start data s = Some t"
  shows "conserved subs got t"
proof -
  let ?d = "sy_dp s" and ?x = "rd_send (pf_radio pf) data (dp_radio (sy_dp s))"
  from t obtain ms where t': "sy_tx_in t = sy_tx_in s" "sy_rx_out t = sy_rx_out s"
    "dp_radio (sy_dp t) = snd ?x" "dp_tx_queue (sy_dp t) = dp_tx_queue ?d" "dp_rx_delay_queue (sy_dp t) = dp_rx_delay_queue ?d"
    "dp_stats (sy_dp t) = (if isl (fst ?x) then dp_stats ?d else count_sent (packet_is_flood (te_packet entry)) ms (dp_stats ?d))"
    by (cases "fst ?x") (auto simp: send_frame_def bind_eq_Some_conv Let_def case_prod_beta)
  have data: "data = wire_bytes (te_packet entry)" using s by (simp add: held_conserved_def frame_ok_def)
  have c: "conserved subs got (held (s, Transmitting entry tx_start data))" using s by (simp add: held_conserved_def)
  have tp: "tape_of (sy_dp t) = (tape_of ?d)\<lparr>tp_sent := tp_sent (tape_of ?d) @ [(wire_bytes (te_packet entry), \<not> isl (fst ?x))]\<rparr>"
    using t'(3) by (simp add: rd data)
  have st: "stats_agree (dp_stats ?d) (tape_of ?d)" using held_weaken [OF s] by (simp add: conserved_def)
  show ?thesis
  proof (rule conservedI [OF c, where new = "[]"])
    show "stats_agree (dp_stats (sy_dp t)) (tape_of (sy_dp t))"
      using stats_agree_sent [OF st, of "\<not> isl (fst ?x)" "te_packet entry" ms] unfolding tp t'(6) by (cases "isl (fst ?x)") simp_all
  qed (simp_all add: t'(1,2,4,5) tp held_def entry_of_def outbound_def inbound_def tx_image_def)
qed

section \<open>What the two tasks do\<close>

lemma held_fields [simp]: "sy_tx_in (held (s, st)) = sy_tx_in s" "sy_rx_out (held (s, st)) = sy_rx_out s"
  by (simp_all add: held_def split: option.split)

lemma held_update:
  "held (s\<lparr>sy_tx_in := xs\<rparr>, st) = (held (s, st))\<lparr>sy_tx_in := xs\<rparr>" "held (s\<lparr>sy_rx_out := ys\<rparr>, st) = (held (s, st))\<lparr>sy_rx_out := ys\<rparr>"
  "held (s\<lparr>sy_clock := w\<rparr>, st) = (held (s, st))\<lparr>sy_clock := w\<rparr>"
  by (simp_all add: held_def split: option.split)

lemma held_clock: "held_conserved subs got (s, st) \<Longrightarrow> held_conserved subs got (s\<lparr>sy_clock := w\<rparr>, st)"
  by (simp add: held_conserved_def held_update conserved_def)

text \<open>
  As \<open>fw_traffic\<close>, with the packet the responder is working on among those it took.
\<close>

definition running_traffic :: "crypto \<Rightarrow> ('r \<times> tape, 'g, 'w) running \<Rightarrow> bool" where
  "running_traffic c = (\<lambda>(f, st, busy). \<exists>subs got. held_conserved subs got (fw_sys f, st) \<and> (\<forall>r \<in> set subs. occasioned c got r) \<and>
     (\<forall>p \<in> set got. rx_wf p) \<and> task_traffic c subs got (fw_task f) \<and>
     (case busy of None \<Rightarrow> True | Some (p, _) \<Rightarrow> p \<in> set got \<and> length subs \<le> length got))"

lemma running_dispatched:
  assumes "running_traffic c (f, st, busy)" "\<And>subs got x. r = Some x \<Longrightarrow> held_conserved subs got (fw_sys f, st) \<Longrightarrow> held_conserved subs got x"
  shows "running_traffic c (dispatched f busy (fine_outcome (fw_sys f) r))"
proof -
  from assms(1) obtain subs got where h: "held_conserved subs got (fw_sys f, st)"
    and t: "\<forall>r \<in> set subs. occasioned c got r" "\<forall>p \<in> set got. rx_wf p" "task_traffic c subs got (fw_task f)"
      "case busy of None \<Rightarrow> True | Some (p, _) \<Rightarrow> p \<in> set got \<and> length subs \<le> length got" by (auto simp: running_traffic_def)
  have "held_conserved subs got (fine_outcome (fw_sys f) r)"
  proof (cases r)
    case None
    with held_weaken [OF h] show ?thesis by (simp add: fine_outcome_def conserved_def)
  next
    case (Some x)
    with assms(2) h show ?thesis by (simp add: fine_outcome_def)
  qed
  with t show ?thesis unfolding running_traffic_def dispatched_def
    by (auto simp: case_prod_beta intro!: exI [of _ subs] exI [of _ got])
qed

lemma running_finished:
  assumes "held_conserved subs got (fw_sys f, st)" "\<forall>r \<in> set subs. occasioned c got r" "\<forall>p \<in> set got. rx_wf p"
    and "finished pf f (Some (u, req, w1)) w r" "task_traffic c subs got (case req of None \<Rightarrow> Running u | Some x \<Rightarrow> Sending u x)"
  shows "running_traffic c (task_outcome f (sy_rx_out (fw_sys f)) r, st, None)"
proof -
  have r: "r = Some (u, req, w)" using assms(4) by (simp add: finished_def)
  have "held_conserved subs got ((fw_sys f)\<lparr>sy_rx_out := sy_rx_out (fw_sys f), sy_clock := w\<rparr>, st)" using held_clock [OF assms(1)] by simp
  with assms(2,3,5) show ?thesis unfolding running_traffic_def r task_outcome_def
    by (auto intro!: exI [of _ subs] exI [of _ got])
qed

lemma interleaved_step_traffic:
  assumes rd: "radio_driver rd rinv" and pf: "platform_ok pf" "pf_radio pf = tapped rd" and c: "crypto_ok c"
    and i: "interleaved_inv pf (\<lambda>(r, tp). rinv r) x" and t: "running_traffic c x" and st: "interleaved_step pf c E x y"
  shows "running_traffic c y"
  using st
proof (cases rule: interleaved_step.cases)
  case (il_top f busy)
  show ?thesis unfolding il_top(2)
    by (rule running_dispatched [OF t [unfolded il_top(1)]]) (use enter_round_held [OF pf(1)] in simp)
next
  case (il_listen f entry deadline busy)
  show ?thesis unfolding il_listen(2)
    by (rule running_dispatched [OF t [unfolded il_listen(1)]]) (rule listen_held [OF pf(2)])
next
  case (il_pause since dur w f entry deadline busy)
  from running_dispatched [OF t [unfolded il_pause(1)], of "Some ((fw_sys f)\<lparr>sy_clock := w\<rparr>, Listening entry deadline)"] held_clock
  show ?thesis unfolding il_pause(2)
    by (auto simp: fine_outcome_def held_conserved_def held_def entry_of_def frame_ok_def conserved_def)
next
  case (il_send f entry tx_start data busy)
  show ?thesis unfolding il_send(2)
    by (rule running_dispatched [OF t [unfolded il_send(1)]]) (auto intro: send_frame_held [OF pf(2)])
next
  case (il_radio f wake busy)
  have "system_inv pf (\<lambda>(r, tp). rinv r) (fw_sys f)" using i il_radio(1) by (simp add: interleaved_inv_def fw_inv_def)
  then show ?thesis unfolding il_radio(2) outcome_fine
    by (intro running_dispatched [OF t [unfolded il_radio(1)]]) (auto intro: on_radio_conserved [OF rd pf])
next
  case (il_submission f wake req rest busy)
  show ?thesis unfolding il_submission(2) outcome_fine
    by (rule running_dispatched [OF t [unfolded il_submission(1)]]) (auto intro: on_submission_conserved [OF pf(1) il_submission(4)])
next
  case (il_timer f at w busy)
  from running_dispatched [OF t [unfolded il_timer(1)], of "Some ((fw_sys f)\<lparr>sy_clock := w, sy_phase := Top\<rparr>, Resting)"]
  show ?thesis unfolding il_timer(2) by (simp add: fine_outcome_def conserved_def)
next
  case (il_start f rtc w0 w r st)
  from t obtain subs got where h: "held_conserved subs got (fw_sys f, st)" "\<forall>r \<in> set subs. occasioned c got r" "\<forall>p \<in> set got. rx_wf p"
    and e: "subs = []" "got = []" using il_start(1,3) by (auto simp: running_traffic_def task_traffic_def)
  from boot_greets [OF pf(1) c il_start(4), of E] obtain u req w1 where
    b: "user_boot pf c E rtc w0 = Some (u, Some req, w1)" "on_channel c u" "greeting c (req_packet req)" by blast
  then have "task_traffic c subs got (case Some req of None \<Rightarrow> Running u | Some x \<Rightarrow> Sending u x)"
    by (simp add: task_traffic_def occasioned_def e)
  from running_finished [OF h _ this] il_start(5) b(1) show ?thesis unfolding il_start(2) by simp
next
  case (il_receive f u p rest st)
  from t obtain subs got where h: "held_conserved subs got (fw_sys f, st)" "\<forall>r \<in> set subs. occasioned c got r" "\<forall>p \<in> set got. rx_wf p"
    and u: "on_channel c u" "length subs \<le> length got + 1" using il_receive(1,3) by (auto simp: running_traffic_def task_traffic_def)
  have "rx_wf p" using i channel_receive [OF pf(1) il_receive(4)] il_receive(1) by (simp add: interleaved_inv_def fw_inv_def system_inv_def)
  moreover have "held_conserved subs (got @ [p]) ((fw_sys f)\<lparr>sy_rx_out := rest\<rparr>, st)"
    using conserved_take [OF pf(1), of subs got "held (fw_sys f, st)"] h(1) il_receive(4) by (simp add: held_conserved_def held_update)
  ultimately show ?thesis unfolding il_receive(2) running_traffic_def
    using h(2,3) u il_receive(3) by (auto simp: task_traffic_def intro!: exI [of _ subs] exI [of _ "got @ [p]"] intro: occasioned_more)
next
  case (il_finish f u w0 p w r st)
  from t obtain subs got where h: "held_conserved subs got (fw_sys f, st)" "\<forall>r \<in> set subs. occasioned c got r" "\<forall>p \<in> set got. rx_wf p"
    and u: "on_channel c u" "p \<in> set got" "length subs \<le> length got" using il_finish(1,3) by (auto simp: running_traffic_def task_traffic_def)
  have uo: "user_ok pf u w0" "rx_wf p" using i il_finish(1,3) by (auto simp: interleaved_inv_def busy_ok_def)
  from step_answers [OF pf(1) c uo u(1)] obtain u' req w1 where
    us: "user_step pf c (u, w0) p = Some (u', req, w1)" "on_channel c u'" "\<forall>r. req = Some r \<longrightarrow> answers c (rx_packet p) (req_packet r)" by blast
  then have "task_traffic c subs got (case req of None \<Rightarrow> Running u' | Some r \<Rightarrow> Sending u' r)"
    using u by (auto simp: task_traffic_def occasioned_def split: option.split)
  from running_finished [OF h _ this] il_finish(4) us(1) show ?thesis unfolding il_finish(2) by simp
next
  case (il_submit f u req tx_in st)
  from t obtain subs got where h: "held_conserved subs got (fw_sys f, st)" "\<forall>r \<in> set subs. occasioned c got r" "\<forall>p \<in> set got. rx_wf p"
    and u: "on_channel c u" "occasioned c got req" "length subs \<le> length got" using il_submit(1,3) by (auto simp: running_traffic_def task_traffic_def)
  have "held_conserved (subs @ [req]) got ((fw_sys f)\<lparr>sy_tx_in := tx_in\<rparr>, st)"
    using conserved_submit [OF pf(1), of subs got "held (fw_sys f, st)"] h(1) il_submit(4) by (simp add: held_conserved_def held_update)
  then show ?thesis unfolding il_submit(2) running_traffic_def
    using h(2,3) u by (auto simp: task_traffic_def intro!: exI [of _ "subs @ [req]"] exI [of _ got])
qed

lemma interleaved_traffic:
  assumes rd: "radio_driver rd rinv" and pf: "platform_ok pf" "pf_radio pf = tapped rd" and c: "crypto_ok c"
    and x: "interleaved_inv pf (\<lambda>(r, tp). rinv r) x" "running_traffic c x" and y: "interleaved_reachable pf c E x y"
  shows "interleaved_inv pf (\<lambda>(r, tp). rinv r) y \<and> running_traffic c y"
  using y
proof (induction rule: interleaved_reachable.induct)
  case il_here
  then show ?case using x by simp
next
  case (il_more y z)
  then show ?case
    using interleaved_step_traffic [OF rd pf c _ _ il_more(2)]
      radio_driver.interleaved_step_inv [OF radio_driver.tapped_driver [OF rd] il_more(2) pf c] by blast
qed

section \<open>Properties\<close>

text \<open>
  C2: Everything the firmware transmits is occasioned by what it received, however the two tasks are interleaved: every frame handed to the radio is the wire image of its
  greeting, or of an answer, encrypted for the channel, to a command in a well-formed packet that the radio received before; and it hands over at most one frame more than it received.
\<close>
theorem interleaved_firmware_only_answers:
  assumes "radio_driver rd rinv" "platform_ok pf" "pf_radio pf = tapped rd" "crypto_ok c" "rinv r"
    and "base_instant rtc \<le> ck_time (pf_clock pf) w" "0 < dur_from_millis (pf_time pf) (ucast (cad_retry_min_ms config))"
    and "interleaved_reachable pf c E (\<lparr>fw_sys = start_system pf (r, blank) g config w, fw_task = Booting rtc\<rparr>, Resting, None) (f, st, busy)"
    and "tp = tape_of (sy_dp (fw_sys f))"
  shows "length (tp_sent tp) \<le> length (tp_heard tp) + 1 \<and>
    (\<forall>x \<in> fst ` set (tp_sent tp). \<exists>q. x = wire_bytes q \<and>
      (greeting c q \<or> (\<exists>p. wf_packet p \<and> wire_bytes p \<in> fst ` set (tp_heard tp) \<and> answers c p q)))"
proof -
  let ?f0 = "\<lparr>fw_sys = start_system pf (r, blank) g config w, fw_task = Booting rtc\<rparr>" and ?inv = "\<lambda>(r, tp :: tape). rinv r"
  have "fw_inv pf ?inv ?f0"
    using assms(5-7) platform_okD(6) [OF assms(2)] by (intro firmware_start_inv) simp_all
  then have "interleaved_inv pf ?inv (?f0, Resting, None)" by (simp add: interleaved_inv_def stage_ok_def busy_ok_def)
  moreover have "running_traffic c (?f0, Resting, None)"
    using start_run_ok(2) [of rinv, OF assms(5)] unfolding running_traffic_def
    by (auto intro!: exI [of _ "[]"] simp: task_traffic_def)
  ultimately have i: "interleaved_inv pf ?inv (f, st, busy)" and t: "running_traffic c (f, st, busy)"
    using interleaved_traffic [OF assms(1-4) _ _ assms(8)] by blast+
  from t obtain subs got where h: "held_conserved subs got (fw_sys f, st)" "\<forall>r \<in> set subs. occasioned c got r" "\<forall>p \<in> set got. rx_wf p"
    and k: "task_traffic c subs got (fw_task f)" by (auto simp: running_traffic_def)
  have s: "conserved subs got (fw_sys f)" by (rule held_weaken [OF h(1)])
  have "fw_task f \<noteq> Panicked" using i by (auto simp: interleaved_inv_def fw_inv_def task_ok_def)
  then have "length subs \<le> length got + 1" using k by (auto simp: task_traffic_def split: task.splits)
  then show ?thesis using frames_at_most [OF s assms(9)] frame_occasioned [OF s h(2,3) assms(9)] by blast
qed

text \<open>The greeting on the air.\<close>

lemma interleaved_firmware_only_answers_witness:
  "\<exists>f q. interleaved_reachable tap_platform demo_crypto 1000 (tap_fw, Resting, None) (f, Resting, None) \<and>
    wire_bytes q \<in> fst ` set (tp_sent (tape_of (sy_dp (fw_sys f)))) \<and> (greeting demo_crypto q \<or> (\<exists>p. answers demo_crypto p q))"
proof -
  obtain f x where f: "firmware_reachable tap_platform demo_crypto 1000 tap_fw f" "sy_phase (fw_sys f) \<noteq> Stopped"
    and x: "x \<in> fst ` set (tp_sent (tape_of (sy_dp (fw_sys f))))" using tap_greets by blast
  have il: "interleaved_reachable tap_platform demo_crypto 1000 (tap_fw, Resting, None) (f, Resting, None)"
    by (rule firmware_reachable_interleaved [OF tap_driver(1) tap_platform_ok demo_crypto_ok tap_fw_inv f])
  have "containers_ok list_containers \<and> mock_ok MockRadio_new" "base_instant (VolatileRtcClock_new 0 1000) \<le> ck_time (pf_clock tap_platform) (0, 0)"
    "0 < dur_from_millis (pf_time tap_platform) (ucast (cad_retry_min_ms DispatcherConfig_default))"
    by (simp_all add: mock_ok_new VolatileRtcClock_new_def DispatcherConfig_default_def)
  from interleaved_firmware_only_answers [OF mock.radio_driver_axioms tap_platform_ok tap_platform_simps(1) demo_crypto_ok this il refl] x
  obtain q where "x = wire_bytes q" "greeting demo_crypto q \<or> (\<exists>p. answers demo_crypto p q)" by blast
  with il x show ?thesis by (intro exI [of _ f] exI [of _ q] conjI) simp_all
qed

end
