(* ===== verification/Testing.thy ===== *)
theory Testing
  imports Packet Mock
begin

text \<open>
  What the unit tests inside the source files are written with. A test is a value of type \<open>unit option\<close>: \<^const>\<open>None\<close> is a panic, of an assertion, of an
  \<open>unwrap\<close> or of the code under test; a test over third-party code takes it as a parameter and is shown to pass for whatever satisfies the documented contract,
  which for the containers of \<open>heapless\<close> determines them.
\<close>

section \<open>Assertions and loops\<close>

definition assert :: "bool \<Rightarrow> unit option" where
  "assert b = (if b then Some () else None)"

definition assert_eq :: "'a \<Rightarrow> 'a \<Rightarrow> unit option" where
  "assert_eq a b = assert (a = b)"

definition assert_ne :: "'a \<Rightarrow> 'a \<Rightarrow> unit option" where
  "assert_ne a b = assert (a \<noteq> b)"

fun for_each :: "'a list \<Rightarrow> ('a \<Rightarrow> unit option) \<Rightarrow> unit option" where
  "for_each [] body = Some ()"
| "for_each (x # xs) body = do { _ \<leftarrow> body x; for_each xs body }"

fun for_each_with :: "'a list \<Rightarrow> ('a \<Rightarrow> 's \<Rightarrow> 's option) \<Rightarrow> 's \<Rightarrow> 's option" where
  "for_each_with [] body s = Some s"
| "for_each_with (x # xs) body s = do { s \<leftarrow> body x s; for_each_with xs body s }"

text \<open>\<open>Result::unwrap_err\<close>; \<open>unwrap\<close> is \<^const>\<open>result_ok\<close>, and \<open>is_err\<close> is \<^const>\<open>isl\<close>.\<close>

fun result_err :: "'e + 'a \<Rightarrow> 'e option" where
  "result_err (Inl e) = Some e"
| "result_err (Inr a) = None"

text \<open>A store of 255 zero bytes, as the tests that serialise a packet allocate it.\<close>

definition zeroed :: "nat \<Rightarrow> u8 list" where
  "zeroed n = replicate n 0"

lemma assert_iff [simp]: "assert b = Some u \<longleftrightarrow> b" "assert b = None \<longleftrightarrow> \<not> b"
  by (simp_all add: assert_def)

lemma assert_True [simp]: "assert True = Some ()" "assert_eq a a = Some ()"
  by (simp_all add: assert_def assert_eq_def)

lemma for_each_iff: "for_each xs body = Some u \<longleftrightarrow> (\<forall>x \<in> set xs. body x = Some ())"
  by (induction xs) (auto split: Option.bind_split)

section \<open>The contracts determine the containers\<close>

lemma on_lists:
  assumes "heapless_ok hv" "P list_heapless"
  shows "P hv"
proof -
  have "hv = list_heapless"
    by (intro heapless.equality ext) (simp_all add: heapless_okD [OF assms(1)] list_heapless_def)
  then show ?thesis using assms(2) by simp
qed

lemma on_deques:
  assumes "deque_ok dq" "P list_deque"
  shows "P dq"
proof -
  have "dq = list_deque"
    by (intro deque.equality ext) (simp_all add: deque_okD [OF assms(1)] list_deque_def)
  then show ?thesis using assms(2) by simp
qed

lemma on_containers:
  assumes "containers_ok ct" "P list_containers"
  shows "P ct"
proof -
  have "ct_bytes ct = list_heapless" "ct_sent ct = list_deque" "ct_recv ct = list_deque"
    using assms(1) on_lists [of "ct_bytes ct" "\<lambda>h. h = list_heapless"] on_deques [of "ct_sent ct" "\<lambda>d. d = list_deque"]
      on_deques [of "ct_recv ct" "\<lambda>d. d = list_deque"] by (auto simp: containers_ok_def)
  then have "ct = list_containers" by (cases ct) (simp add: list_containers_def)
  then show ?thesis using assms(2) by simp
qed

end
