(* ===== verification/Wire_Tests.thy ===== *)
theory Wire_Tests
  imports Testing Dispatch_Types Console
begin

text \<open>
  The unit tests of \<open>crates/meshcore-core/src/header.rs\<close> and \<open>packet.rs\<close>: each \<open>#[test]\<close> function is a definition of the same name, which the model passes.
\<close>

section \<open>Header\<close>

definition route_type_round_trip :: "unit option" where
  "route_type_round_trip = for_each [0x00, 0x01, 0x02, 0x03] (\<lambda>v. do {
     rt \<leftarrow> result_ok (RouteType_try_from v);
     assert_eq (RouteType_as_u8 rt) v
   })"

definition route_type_invalid :: "unit option" where
  "route_type_invalid = do {
     _ \<leftarrow> assert (isl (RouteType_try_from 0x04));
     assert (isl (RouteType_try_from 0xFF))
   }"

definition route_type_is_flood :: "unit option" where
  "route_type_is_flood = do {
     _ \<leftarrow> assert (is_flood Flood);
     _ \<leftarrow> assert (is_flood TransportFlood);
     _ \<leftarrow> assert (\<not> is_flood Direct);
     assert (\<not> is_flood TransportDirect)
   }"

definition route_type_is_direct :: "unit option" where
  "route_type_is_direct = do {
     _ \<leftarrow> assert (is_direct Direct);
     _ \<leftarrow> assert (is_direct TransportDirect);
     _ \<leftarrow> assert (\<not> is_direct Flood);
     assert (\<not> is_direct TransportFlood)
   }"

definition route_type_has_transport_codes :: "unit option" where
  "route_type_has_transport_codes = do {
     _ \<leftarrow> assert (RouteType_has_transport_codes TransportFlood);
     _ \<leftarrow> assert (RouteType_has_transport_codes TransportDirect);
     _ \<leftarrow> assert (\<not> RouteType_has_transport_codes Flood);
     assert (\<not> RouteType_has_transport_codes Direct)
   }"

definition payload_type_round_trip :: "unit option" where
  "payload_type_round_trip =
     for_each [0x00, 0x01, 0x02, 0x03, 0x04, 0x05, 0x06, 0x07, 0x08, 0x09, 0x0A, 0x0B, 0x0F] (\<lambda>v. do {
       pt \<leftarrow> result_ok (PayloadType_try_from v);
       assert_eq (PayloadType_as_u8 pt) v
     })"

definition payload_type_reserved_values_are_invalid :: "unit option" where
  "payload_type_reserved_values_are_invalid = do {
     _ \<leftarrow> assert_eq (PayloadType_try_from 0x0C) (Inl (InvalidPayloadType 0x0C));
     _ \<leftarrow> assert_eq (PayloadType_try_from 0x0D) (Inl (InvalidPayloadType 0x0D));
     assert_eq (PayloadType_try_from 0x0E) (Inl (InvalidPayloadType 0x0E))
   }"

definition payload_type_out_of_range :: "unit option" where
  "payload_type_out_of_range = assert (isl (PayloadType_try_from 0x10))"

definition payload_version_round_trip :: "unit option" where
  "payload_version_round_trip = for_each [0x00, 0x01, 0x02, 0x03] (\<lambda>v. do {
     pv \<leftarrow> result_ok (PayloadVersion_try_from v);
     assert_eq (PayloadVersion_as_u8 pv) v
   })"

definition payload_version_invalid :: "unit option" where
  "payload_version_invalid = assert (isl (PayloadVersion_try_from 0x04))"

definition header_round_trip_all_combinations :: "unit option" where
  "header_round_trip_all_combinations =
     (let route_vals = [0x00, 0x01, 0x02, 0x03];
          payload_vals = [0x00, 0x01, 0x02, 0x03, 0x04, 0x05, 0x06, 0x07, 0x08, 0x09, 0x0A, 0x0B, 0x0F];
          version_vals = [0x00, 0x01, 0x02, 0x03]
      in for_each route_vals (\<lambda>r. for_each payload_vals (\<lambda>p. for_each version_vals (\<lambda>v. do {
           let byte = r OR push_bit PH_TYPE_SHIFT p OR push_bit PH_VER_SHIFT v;
           hdr \<leftarrow> result_ok (PacketHeader_try_from byte);
           let encoded = PacketHeader_into_u8 hdr;
           assert_eq encoded byte
         }))))"

definition header_bit_layout_matches_c :: "unit option" where
  "header_bit_layout_matches_c = do {
     let byte = 0x09;
     hdr \<leftarrow> result_ok (PacketHeader_try_from byte);
     _ \<leftarrow> assert_eq (hdr_route_type hdr) Flood;
     _ \<leftarrow> assert_eq (hdr_payload_type hdr) TxtMsg;
     _ \<leftarrow> assert_eq (hdr_version hdr) V1;
     assert_eq (PacketHeader_into_u8 hdr) 0x09
   }"

definition header_direct_ack_v1 :: "unit option" where
  "header_direct_ack_v1 = do {
     let byte = 0x0E;
     hdr \<leftarrow> result_ok (PacketHeader_try_from byte);
     _ \<leftarrow> assert_eq (hdr_route_type hdr) Direct;
     _ \<leftarrow> assert_eq (hdr_payload_type hdr) Ack;
     assert_eq (hdr_version hdr) V1
   }"

definition header_transport_flood_advert_v1 :: "unit option" where
  "header_transport_flood_advert_v1 = do {
     let byte = 0x10;
     hdr \<leftarrow> result_ok (PacketHeader_try_from byte);
     _ \<leftarrow> assert_eq (hdr_route_type hdr) TransportFlood;
     _ \<leftarrow> assert_eq (hdr_payload_type hdr) Advert;
     assert_eq (hdr_version hdr) V1
   }"

definition header_invalid_payload_type_in_byte :: "unit option" where
  "header_invalid_payload_type_in_byte = do {
     let byte = 0x01 OR push_bit 2 0x0C;
     assert_eq (PacketHeader_try_from byte) (Inl (InvalidPayloadType 0x0C))
   }"

definition do_not_retransmit_constant :: "unit option" where
  "do_not_retransmit_constant = do {
     _ \<leftarrow> assert (PacketHeader_is_do_not_retransmit 0xFF);
     _ \<leftarrow> assert (\<not> PacketHeader_is_do_not_retransmit 0x00);
     assert (\<not> PacketHeader_is_do_not_retransmit 0xFE)
   }"

definition do_not_retransmit_still_parses :: "unit option" where
  "do_not_retransmit_still_parses = do {
     hdr \<leftarrow> result_ok (PacketHeader_try_from 0xFF);
     _ \<leftarrow> assert_eq (hdr_route_type hdr) TransportDirect;
     _ \<leftarrow> assert_eq (hdr_payload_type hdr) RawCustom;
     assert_eq (hdr_version hdr) V4
   }"

lemma header_tests_pass:
  "route_type_round_trip = Some ()" "route_type_invalid = Some ()" "route_type_is_flood = Some ()" "route_type_is_direct = Some ()"
  "route_type_has_transport_codes = Some ()" "payload_type_round_trip = Some ()" "payload_type_reserved_values_are_invalid = Some ()"
  "payload_type_out_of_range = Some ()" "payload_version_round_trip = Some ()" "payload_version_invalid = Some ()"
  "header_bit_layout_matches_c = Some ()" "header_direct_ack_v1 = Some ()" "header_transport_flood_advert_v1 = Some ()"
  "header_invalid_payload_type_in_byte = Some ()" "do_not_retransmit_constant = Some ()" "do_not_retransmit_still_parses = Some ()"
  by code_simp+

lemma header_round_trip_all_combinations_passes: "header_round_trip_all_combinations = Some ()"
  by code_simp

section \<open>Packet\<close>

definition new_creates_valid_empty_packet :: "unit option" where
  "new_creates_valid_empty_packet = do {
     let pkt = Packet_new;
     _ \<leftarrow> assert_eq (header pkt) 0;
     _ \<leftarrow> assert_eq (path_len pkt) 0;
     _ \<leftarrow> assert_eq (transport_codes pkt) (0, 0);
     _ \<leftarrow> assert (path pkt = []);
     _ \<leftarrow> assert (payload pkt = []);
     _ \<leftarrow> assert_eq (snr pkt) 0;
     _ \<leftarrow> assert (is_valid_path_len pkt);
     _ \<leftarrow> assert_eq (path_hash_size pkt) 1;
     _ \<leftarrow> assert_eq (path_hash_count pkt) 0;
     assert_eq (path_byte_len pkt) 0
   }"

definition path_encoding_size1_count5 :: "unit option" where
  "path_encoding_size1_count5 = do {
     let pkt = set_path_hash_size_and_count Packet_new 1 5;
     _ \<leftarrow> assert_eq (path_len pkt) 0x05;
     _ \<leftarrow> assert_eq (path_hash_size pkt) 1;
     _ \<leftarrow> assert_eq (path_hash_count pkt) 5;
     _ \<leftarrow> assert_eq (path_byte_len pkt) 5;
     assert (is_valid_path_len pkt)
   }"

definition path_encoding_size2_count10 :: "unit option" where
  "path_encoding_size2_count10 = do {
     let pkt = set_path_hash_size_and_count Packet_new 2 10;
     _ \<leftarrow> assert_eq (path_len pkt) 0x4A;
     _ \<leftarrow> assert_eq (path_hash_size pkt) 2;
     _ \<leftarrow> assert_eq (path_hash_count pkt) 10;
     _ \<leftarrow> assert_eq (path_byte_len pkt) 20;
     assert (is_valid_path_len pkt)
   }"

definition path_encoding_invalid_size_bits :: "unit option" where
  "path_encoding_invalid_size_bits = do {
     let pkt = Packet_new\<lparr>path_len := 0xC0 OR 5\<rparr>;
     assert (\<not> is_valid_path_len pkt)
   }"

text \<open>\<open>extend_from_slice(..).unwrap()\<close> on the path and on the payload of a packet.\<close>

definition extend_path :: "u8 heapless \<Rightarrow> Packet \<Rightarrow> u8 list \<Rightarrow> Packet option" where
  "extend_path hv pkt bs = map_option (\<lambda>v. pkt\<lparr>path := v\<rparr>) (result_ok (hv_extend_from_slice hv MAX_PATH_SIZE (path pkt) bs))"

definition extend_payload :: "u8 heapless \<Rightarrow> Packet \<Rightarrow> u8 list \<Rightarrow> Packet option" where
  "extend_payload hv pkt bs = map_option (\<lambda>v. pkt\<lparr>payload := v\<rparr>) (result_ok (hv_extend_from_slice hv MAX_PACKET_PAYLOAD (payload pkt) bs))"

definition round_trip_flood_no_transport :: "u8 heapless \<Rightarrow> unit option" where
  "round_trip_flood_no_transport hv = do {
     let header_byte = PacketHeader_into_u8 \<lparr>hdr_route_type = Flood, hdr_payload_type = TxtMsg, hdr_version = V1\<rparr>;
     let pkt = Packet_new\<lparr>header := header_byte\<rparr>;
     let pkt = set_path_hash_size_and_count pkt 1 2;
     pkt \<leftarrow> extend_path hv pkt [0xAA, 0xBB];
     pkt \<leftarrow> extend_payload hv pkt (bytes_of ''Hello, mesh!'');
     (written, buf) \<leftarrow> write_to pkt (zeroed 255);
     _ \<leftarrow> assert_eq written (wire_len pkt);
     wire \<leftarrow> slice buf 0 written;
     (ok, pkt2) \<leftarrow> read_from hv Packet_new wire;
     _ \<leftarrow> assert ok;
     _ \<leftarrow> assert_eq (header pkt2) (header pkt);
     _ \<leftarrow> assert_eq (path_len pkt2) (path_len pkt);
     _ \<leftarrow> assert_eq (transport_codes pkt2) (0, 0);
     _ \<leftarrow> assert_eq (path pkt2) (path pkt);
     assert_eq (payload pkt2) (payload pkt)
   }"

definition round_trip_transport_flood :: "u8 heapless \<Rightarrow> unit option" where
  "round_trip_transport_flood hv = do {
     let header_byte = PacketHeader_into_u8 \<lparr>hdr_route_type = TransportFlood, hdr_payload_type = Advert, hdr_version = V1\<rparr>;
     let pkt = Packet_new\<lparr>header := header_byte, transport_codes := (0x1234, 0x5678)\<rparr>;
     let pkt = set_path_hash_size_and_count pkt 1 0;
     pkt \<leftarrow> extend_payload hv pkt [1, 2, 3, 4, 5];
     (written, buf) \<leftarrow> write_to pkt (zeroed 255);
     _ \<leftarrow> assert_eq written (wire_len pkt);
     wire \<leftarrow> slice buf 0 written;
     (ok, pkt2) \<leftarrow> read_from hv Packet_new wire;
     _ \<leftarrow> assert ok;
     _ \<leftarrow> assert_eq (header pkt2) (header pkt);
     _ \<leftarrow> assert_eq (transport_codes pkt2) (0x1234, 0x5678);
     assert_eq (payload pkt2) [1, 2, 3, 4, 5]
   }"

definition round_trip_direct_with_path :: "u8 heapless \<Rightarrow> unit option" where
  "round_trip_direct_with_path hv = do {
     let header_byte = PacketHeader_into_u8 \<lparr>hdr_route_type = Direct, hdr_payload_type = Response, hdr_version = V1\<rparr>;
     let pkt = Packet_new\<lparr>header := header_byte\<rparr>;
     let pkt = set_path_hash_size_and_count pkt 2 3;
     pkt \<leftarrow> extend_path hv pkt [0x01, 0x02, 0x03, 0x04, 0x05, 0x06];
     pkt \<leftarrow> extend_payload hv pkt (bytes_of ''response data'');
     (written, buf) \<leftarrow> write_to pkt (zeroed 255);
     _ \<leftarrow> assert_eq written (wire_len pkt);
     wire \<leftarrow> slice buf 0 written;
     (ok, pkt2) \<leftarrow> read_from hv Packet_new wire;
     _ \<leftarrow> assert ok;
     _ \<leftarrow> assert_eq (header pkt2) (header pkt);
     _ \<leftarrow> assert_eq (path_len pkt2) (path_len pkt);
     _ \<leftarrow> assert_eq (path_hash_size pkt2) 2;
     _ \<leftarrow> assert_eq (path_hash_count pkt2) 3;
     _ \<leftarrow> assert_eq (path pkt2) [0x01, 0x02, 0x03, 0x04, 0x05, 0x06];
     assert_eq (payload pkt2) (bytes_of ''response data'')
   }"

definition read_from_rejects_too_short :: "u8 heapless \<Rightarrow> unit option" where
  "read_from_rejects_too_short hv = do {
     (ok, pkt) \<leftarrow> read_from hv Packet_new [];
     _ \<leftarrow> assert (\<not> ok);
     (ok, pkt) \<leftarrow> read_from hv pkt [0x09];
     assert (\<not> ok)
   }"

definition read_from_rejects_invalid_path_len :: "u8 heapless \<Rightarrow> unit option" where
  "read_from_rejects_invalid_path_len hv = do {
     (ok, pkt) \<leftarrow> read_from hv Packet_new [0x09, 0xC5];
     assert (\<not> ok)
   }"

definition do_not_retransmit_marker :: "unit option" where
  "do_not_retransmit_marker = do {
     let pkt = Packet_new;
     _ \<leftarrow> assert (\<not> is_do_not_retransmit pkt);
     let pkt = mark_do_not_retransmit pkt;
     _ \<leftarrow> assert (is_do_not_retransmit pkt);
     assert_eq (header pkt) 0xFF
   }"

text \<open>A failing \<open>push\<close> is ignored.\<close>

fun push_times :: "'a heapless \<Rightarrow> nat \<Rightarrow> 'a \<Rightarrow> nat \<Rightarrow> 'a list \<Rightarrow> 'a list" where
  "push_times hv N x 0 v = v"
| "push_times hv N x (Suc k) v = push_times hv N x k (case hv_push hv N v x of Inl _ \<Rightarrow> v | Inr v \<Rightarrow> v)"

definition wire_len_matches_write_to :: "u8 heapless \<Rightarrow> unit option" where
  "wire_len_matches_write_to hv =
     (let configs = [(0x09, False, 1, 0, 0), (0x09, False, 1, 3, 10), (0x10, True, 1, 0, 5), (0x0F, True, 2, 4, 20)]
      in for_each configs (\<lambda>(hdr, has_tc :: bool, hash_size, hash_count, payload_len). do {
        let pkt = Packet_new\<lparr>header := hdr\<rparr>;
        let pkt = set_path_hash_size_and_count pkt hash_size hash_count;
        let path_bytes = unat hash_count * unat hash_size;
        let pkt = pkt\<lparr>path := push_times hv MAX_PATH_SIZE 0xAA path_bytes (path pkt)\<rparr>;
        let pkt = pkt\<lparr>payload := push_times hv MAX_PACKET_PAYLOAD 0xBB payload_len (payload pkt)\<rparr>;
        let pkt = (if has_transport_codes pkt then pkt\<lparr>transport_codes := (0x1111, 0x2222)\<rparr> else pkt);
        (written, buf) \<leftarrow> write_to pkt (zeroed 255);
        assert_eq written (wire_len pkt)
      }))"

text \<open>\<open>f32::abs\<close> and \<open>f32::EPSILON\<close>.\<close>

fun f32_abs :: "f32 \<Rightarrow> f32" where
  "f32_abs F32_NaN = F32_NaN"
| "f32_abs (F32_Inf s) = F32_Inf False"
| "f32_abs (F32_Fin s m e) = F32_Fin False m e"

definition f32_EPSILON :: f32 where
  "f32_EPSILON = f32_lit 1 (2 ^ 23)"

definition snr_f32_conversion :: "unit option" where
  "snr_f32_conversion = do {
     let pkt = Packet_new\<lparr>snr := 20\<rparr>;
     _ \<leftarrow> assert (f32_lt (f32_abs (f32_sub (snr_f32 pkt) (f32_lit 5 1))) f32_EPSILON);
     let pkt = pkt\<lparr>snr := - 8\<rparr>;
     _ \<leftarrow> assert (f32_lt (f32_abs (f32_sub (snr_f32 pkt) (f32_lit (- 2) 1))) f32_EPSILON);
     let pkt = pkt\<lparr>snr := 0\<rparr>;
     assert (f32_lt (f32_abs (f32_sub (snr_f32 pkt) (f32_lit 0 1))) f32_EPSILON)
   }"

definition set_path_hash_count_preserves_size :: "unit option" where
  "set_path_hash_count_preserves_size = do {
     let pkt = set_path_hash_size_and_count Packet_new 2 5;
     _ \<leftarrow> assert_eq (path_hash_size pkt) 2;
     _ \<leftarrow> assert_eq (path_hash_count pkt) 5;
     let pkt = set_path_hash_count pkt 10;
     _ \<leftarrow> assert_eq (path_hash_size pkt) 2;
     assert_eq (path_hash_count pkt) 10
   }"

definition transport_codes_little_endian :: "u8 heapless \<Rightarrow> unit option" where
  "transport_codes_little_endian hv = do {
     let pkt = Packet_new\<lparr>header := 0x00, transport_codes := (0x0102, 0x0304)\<rparr>;
     let pkt = set_path_hash_size_and_count pkt 1 0;
     (written, buf) \<leftarrow> write_to pkt (zeroed 255);
     b1 \<leftarrow> idx buf 1;
     _ \<leftarrow> assert_eq b1 0x02;
     b2 \<leftarrow> idx buf 2;
     _ \<leftarrow> assert_eq b2 0x01;
     b3 \<leftarrow> idx buf 3;
     _ \<leftarrow> assert_eq b3 0x04;
     b4 \<leftarrow> idx buf 4;
     _ \<leftarrow> assert_eq b4 0x03;
     wire \<leftarrow> slice buf 0 written;
     (ok, pkt2) \<leftarrow> read_from hv Packet_new wire;
     _ \<leftarrow> assert ok;
     assert_eq (transport_codes pkt2) (0x0102, 0x0304)
   }"

lemma packet_tests_pass:
  "new_creates_valid_empty_packet = Some ()" "path_encoding_size1_count5 = Some ()" "path_encoding_size2_count10 = Some ()"
  "path_encoding_invalid_size_bits = Some ()" "do_not_retransmit_marker = Some ()" "snr_f32_conversion = Some ()"
  "set_path_hash_count_preserves_size = Some ()"
  by code_simp+

lemma packet_io_tests_pass:
  assumes "heapless_ok hv"
  shows "round_trip_flood_no_transport hv = Some ()" "round_trip_transport_flood hv = Some ()" "round_trip_direct_with_path hv = Some ()"
    "read_from_rejects_too_short hv = Some ()" "read_from_rejects_invalid_path_len hv = Some ()" "wire_len_matches_write_to hv = Some ()"
    "transport_codes_little_endian hv = Some ()"
  by (rule on_lists [OF assms], code_simp)+

end
