(* ===== verification/Dedup_Tests.thy ===== *)
theory Dedup_Tests
  imports Wire_Tests Dedup
begin

text \<open>
  The unit tests of \<open>crates/meshcore-core/src/dedup.rs\<close>. The digest is a parameter: a test passes with every digest that tells the packets of the test apart and gives none
  of them the zero hash; a few pass with every digest.
\<close>

section \<open>The tests\<close>

definition make_grp_txt :: "u8 heapless \<Rightarrow> u8 list \<Rightarrow> Packet option" where
  "make_grp_txt hv pl = do {
     let header_byte = PacketHeader_into_u8 \<lparr>hdr_route_type = Flood, hdr_payload_type = GrpTxt, hdr_version = V1\<rparr>;
     let pkt = Packet_new\<lparr>header := header_byte\<rparr>;
     let pkt = set_path_hash_size_and_count pkt 1 0;
     extend_payload hv pkt pl
   }"

definition first_packet_not_duplicate :: "u8 heapless \<Rightarrow> (u8 list \<Rightarrow> u8 list) \<Rightarrow> unit option" where
  "first_packet_not_duplicate hv sha = do {
     let dedup = PacketDedup_new 16;
     pkt \<leftarrow> make_grp_txt hv (bytes_of ''hello'');
     (seen, dedup) \<leftarrow> has_seen sha dedup pkt;
     assert (\<not> seen)
   }"

definition same_packet_is_duplicate :: "u8 heapless \<Rightarrow> (u8 list \<Rightarrow> u8 list) \<Rightarrow> unit option" where
  "same_packet_is_duplicate hv sha = do {
     let dedup = PacketDedup_new 16;
     pkt \<leftarrow> make_grp_txt hv (bytes_of ''hello'');
     (seen, dedup) \<leftarrow> has_seen sha dedup pkt;
     _ \<leftarrow> assert (\<not> seen);
     (seen, dedup) \<leftarrow> has_seen sha dedup pkt;
     _ \<leftarrow> assert seen;
     (seen, dedup) \<leftarrow> has_seen sha dedup pkt;
     assert seen
   }"

definition different_payloads_not_duplicate :: "u8 heapless \<Rightarrow> (u8 list \<Rightarrow> u8 list) \<Rightarrow> unit option" where
  "different_payloads_not_duplicate hv sha = do {
     let dedup = PacketDedup_new 16;
     pkt1 \<leftarrow> make_grp_txt hv (bytes_of ''hello'');
     pkt2 \<leftarrow> make_grp_txt hv (bytes_of ''world'');
     (seen, dedup) \<leftarrow> has_seen sha dedup pkt1;
     _ \<leftarrow> assert (\<not> seen);
     (seen, dedup) \<leftarrow> has_seen sha dedup pkt2;
     assert (\<not> seen)
   }"

definition different_types_not_duplicate :: "u8 heapless \<Rightarrow> (u8 list \<Rightarrow> u8 list) \<Rightarrow> unit option" where
  "different_types_not_duplicate hv sha = do {
     let dedup = PacketDedup_new 16;
     pkt1 \<leftarrow> make_grp_txt hv (bytes_of ''same payload'');
     let header_byte = PacketHeader_into_u8 \<lparr>hdr_route_type = Flood, hdr_payload_type = Advert, hdr_version = V1\<rparr>;
     let pkt2 = Packet_new\<lparr>header := header_byte\<rparr>;
     let pkt2 = set_path_hash_size_and_count pkt2 1 0;
     pkt2 \<leftarrow> extend_payload hv pkt2 (bytes_of ''same payload'');
     (seen, dedup) \<leftarrow> has_seen sha dedup pkt1;
     _ \<leftarrow> assert (\<not> seen);
     (seen, dedup) \<leftarrow> has_seen sha dedup pkt2;
     assert (\<not> seen)
   }"

definition eviction_after_capacity :: "u8 heapless \<Rightarrow> (u8 list \<Rightarrow> u8 list) \<Rightarrow> unit option" where
  "eviction_after_capacity hv sha = do {
     let dedup = PacketDedup_new 4;
     pkts \<leftarrow> those (map (\<lambda>i. make_grp_txt hv (replicate 8 i)) [0, 1, 2, 3]);
     dedup \<leftarrow> for_each_with pkts (\<lambda>pkt dedup. do { (seen, dedup) \<leftarrow> has_seen sha dedup pkt; _ \<leftarrow> assert (\<not> seen); Some dedup }) dedup;
     dedup \<leftarrow> for_each_with pkts (\<lambda>pkt dedup. do { (seen, dedup) \<leftarrow> has_seen sha dedup pkt; _ \<leftarrow> assert seen; Some dedup }) dedup;
     pkt5 \<leftarrow> make_grp_txt hv (bytes_of ''new packet'');
     (seen, dedup) \<leftarrow> has_seen sha dedup pkt5;
     _ \<leftarrow> assert (\<not> seen);
     pkt0 \<leftarrow> idx pkts 0;
     (seen, dedup) \<leftarrow> has_seen sha dedup pkt0;
     _ \<leftarrow> assert (\<not> seen);
     (seen, dedup) \<leftarrow> has_seen sha dedup pkt5;
     assert seen
   }"

definition clear_entry_removes_hash :: "u8 heapless \<Rightarrow> (u8 list \<Rightarrow> u8 list) \<Rightarrow> unit option" where
  "clear_entry_removes_hash hv sha = do {
     let dedup = PacketDedup_new 16;
     pkt \<leftarrow> make_grp_txt hv (bytes_of ''clearable'');
     (seen, dedup) \<leftarrow> has_seen sha dedup pkt;
     _ \<leftarrow> assert (\<not> seen);
     (seen, dedup) \<leftarrow> has_seen sha dedup pkt;
     _ \<leftarrow> assert seen;
     let dedup = clear_entry sha dedup pkt;
     (seen, dedup) \<leftarrow> has_seen sha dedup pkt;
     assert (\<not> seen)
   }"

definition stats_tracking :: "u8 heapless \<Rightarrow> (u8 list \<Rightarrow> u8 list) \<Rightarrow> unit option" where
  "stats_tracking hv sha = do {
     let dedup = PacketDedup_new 16;
     pkt \<leftarrow> make_grp_txt hv (bytes_of ''flood stats'');
     (_, dedup) \<leftarrow> has_seen sha dedup pkt;
     (_, dedup) \<leftarrow> has_seen sha dedup pkt;
     (_, dedup) \<leftarrow> has_seen sha dedup pkt;
     _ \<leftarrow> assert_eq (flood_dups dedup) 2;
     _ \<leftarrow> assert_eq (direct_dups dedup) 0;
     let dedup = reset_stats dedup;
     assert_eq (flood_dups dedup) 0
   }"

definition wire_roundtrip_still_deduplicates :: "u8 heapless \<Rightarrow> (u8 list \<Rightarrow> u8 list) \<Rightarrow> unit option" where
  "wire_roundtrip_still_deduplicates hv sha = do {
     let dedup = PacketDedup_new 16;
     pkt \<leftarrow> make_grp_txt hv (bytes_of ''over the wire'');
     (seen, dedup) \<leftarrow> has_seen sha dedup pkt;
     _ \<leftarrow> assert (\<not> seen);
     (len, buf) \<leftarrow> write_to pkt (zeroed 255);
     wire \<leftarrow> slice buf 0 len;
     (ok, pkt2) \<leftarrow> read_from hv Packet_new wire;
     _ \<leftarrow> assert ok;
     (seen, dedup) \<leftarrow> has_seen sha dedup pkt2;
     assert seen
   }"

definition same_payload_different_path_is_duplicate :: "u8 heapless \<Rightarrow> (u8 list \<Rightarrow> u8 list) \<Rightarrow> unit option" where
  "same_payload_different_path_is_duplicate hv sha = do {
     let dedup = PacketDedup_new 16;
     pkt1 \<leftarrow> make_grp_txt hv (bytes_of ''pathtest'');
     let pkt1 = set_path_hash_size_and_count pkt1 1 2;
     pkt1 \<leftarrow> extend_path hv pkt1 [0xAA, 0xBB];
     pkt2 \<leftarrow> make_grp_txt hv (bytes_of ''pathtest'');
     let pkt2 = set_path_hash_size_and_count pkt2 1 3;
     pkt2 \<leftarrow> extend_path hv pkt2 [0xCC, 0xDD, 0xEE];
     (seen, dedup) \<leftarrow> has_seen sha dedup pkt1;
     _ \<leftarrow> assert (\<not> seen);
     (seen, dedup) \<leftarrow> has_seen sha dedup pkt2;
     assert seen
   }"

section \<open>They pass\<close>

definition grp_frame :: "u8 list \<Rightarrow> Packet" where
  "grp_frame pl = Packet_new\<lparr>header := 0x15, payload := pl\<rparr>"

abbreviation text_hash :: "(u8 list \<Rightarrow> u8 list) \<Rightarrow> string \<Rightarrow> u8 list" where
  "text_hash sha t \<equiv> packet_hash sha (grp_frame (bytes_of t))"

lemma make_grp_txt_eq:
  assumes "heapless_ok hv" "length pl \<le> MAX_PACKET_PAYLOAD"
  shows "make_grp_txt hv pl = Some (grp_frame pl)"
proof -
  have "set_path_hash_size_and_count (Packet_new\<lparr>header := 0x15\<rparr>) 1 0 = Packet_new\<lparr>header := 0x15\<rparr>" by code_simp
  moreover have "PacketHeader_into_u8 \<lparr>hdr_route_type = Flood, hdr_payload_type = GrpTxt, hdr_version = V1\<rparr> = 0x15" by code_simp
  ultimately show ?thesis using assms by (simp add: make_grp_txt_def extend_payload_def grp_frame_def Packet_new_def)
qed

lemma grp_frame_flood: "route_type (grp_frame pl) = Inr Flood"
proof -
  have "RouteType_try_from (0x15 AND PH_ROUTE_MASK) = Inr Flood" by code_simp
  then show ?thesis by (simp add: route_type_def grp_frame_def)
qed

lemma new_table [simp]: "PacketDedup_new 16 = \<lparr>hashes = ZERO_HASH # replicate 15 ZERO_HASH, next_idx = 0, direct_dups = 0, flood_dups = 0\<rparr>"
  by (simp add: PacketDedup_new_def numeral_eq_Suc)

lemmas dedup_eval = make_grp_txt_eq has_seen_def put_def MAX_PACKET_PAYLOAD_def grp_frame_flood Let_def

lemma first_packets_pass:
  assumes "heapless_ok hv"
  shows "text_hash sha ''hello'' \<noteq> ZERO_HASH \<Longrightarrow> first_packet_not_duplicate hv sha = Some ()"
    and "text_hash sha ''hello'' \<noteq> ZERO_HASH \<Longrightarrow> same_packet_is_duplicate hv sha = Some ()"
    and "text_hash sha ''hello'' \<noteq> ZERO_HASH \<Longrightarrow> text_hash sha ''world'' \<noteq> ZERO_HASH \<Longrightarrow> text_hash sha ''hello'' \<noteq> text_hash sha ''world'' \<Longrightarrow>
      different_payloads_not_duplicate hv sha = Some ()"
    and "text_hash sha ''clearable'' \<noteq> ZERO_HASH \<Longrightarrow> clear_entry_removes_hash hv sha = Some ()"
    and "text_hash sha ''flood stats'' \<noteq> ZERO_HASH \<Longrightarrow> stats_tracking hv sha = Some ()"
  using assms
  by (simp_all add: first_packet_not_duplicate_def same_packet_is_duplicate_def different_payloads_not_duplicate_def
      clear_entry_removes_hash_def clear_entry_def stats_tracking_def reset_stats_def dedup_eval)

lemma different_types_pass:
  assumes "heapless_ok hv" "a = packet_hash sha (grp_frame (bytes_of ''same payload''))"
    and "b = packet_hash sha (Packet_new\<lparr>header := 0x11, payload := bytes_of ''same payload''\<rparr>)"
    and "a \<noteq> ZERO_HASH" "b \<noteq> ZERO_HASH" "a \<noteq> b"
  shows "different_types_not_duplicate hv sha = Some ()"
proof -
  have "set_path_hash_size_and_count (Packet_new\<lparr>header := 0x11\<rparr>) 1 0 = Packet_new\<lparr>header := 0x11\<rparr>" by code_simp
  moreover have "PacketHeader_into_u8 \<lparr>hdr_route_type = Flood, hdr_payload_type = Advert, hdr_version = V1\<rparr> = 0x11" by code_simp
  moreover have "extend_payload hv (Packet_new\<lparr>header := 0x11\<rparr>) (bytes_of ''same payload'')
    = Some (Packet_new\<lparr>header := 0x11, payload := bytes_of ''same payload''\<rparr>)"
    using assms(1) by (simp add: extend_payload_def Packet_new_def MAX_PACKET_PAYLOAD_def)
  ultimately show ?thesis
    using assms(1,4-6) by (simp add: different_types_not_duplicate_def dedup_eval assms(2,3))
qed

lemma eviction_passes:
  assumes "heapless_ok hv" "distinct (ZERO_HASH # text_hash sha ''new packet'' # map (\<lambda>i. packet_hash sha (grp_frame (replicate 8 i))) [0, 1, 2, 3])"
  shows "eviction_after_capacity hv sha = Some ()"
proof -
  obtain a b c d e where h: "packet_hash sha (grp_frame (replicate 8 0)) = a" "packet_hash sha (grp_frame (replicate 8 1)) = b"
    "packet_hash sha (grp_frame (replicate 8 2)) = c" "packet_hash sha (grp_frame (replicate 8 3)) = d" "text_hash sha ''new packet'' = e"
    by blast
  have n: "PacketDedup_new 4 = \<lparr>hashes = [ZERO_HASH, ZERO_HASH, ZERO_HASH, ZERO_HASH], next_idx = 0, direct_dups = 0, flood_dups = 0\<rparr>"
    by (simp add: PacketDedup_new_def numeral_eq_Suc)
  have m: "make_grp_txt hv (replicate 8 i) = Some (grp_frame (replicate 8 i))" for i
    by (rule make_grp_txt_eq [OF assms(1)]) (simp add: MAX_PACKET_PAYLOAD_def)
  have m5: "make_grp_txt hv (bytes_of ''new packet'') = Some (grp_frame (bytes_of ''new packet''))"
    by (rule make_grp_txt_eq [OF assms(1)]) (simp add: MAX_PACKET_PAYLOAD_def)
  have "distinct [ZERO_HASH, e, a, b, c, d]" using assms(2) h by simp
  then have ne: "ZERO_HASH \<noteq> a" "ZERO_HASH \<noteq> b" "ZERO_HASH \<noteq> c" "ZERO_HASH \<noteq> d" "ZERO_HASH \<noteq> e" "a \<noteq> b" "a \<noteq> c" "a \<noteq> d" "a \<noteq> e"
    "b \<noteq> c" "b \<noteq> d" "b \<noteq> e" "c \<noteq> d" "c \<noteq> e" "d \<noteq> e" by auto
  define P where "P i = grp_frame (replicate 8 i)" for i
  define Q where "Q = grp_frame (bytes_of ''new packet'')"
  note hs = h [folded P_def Q_def] m [folded P_def] m5 [folded Q_def]
  have fl: "route_type (P i) = Inr Flood" "route_type Q = Inr Flood" for i by (simp_all add: P_def Q_def grp_frame_flood)
  show ?thesis
    by (simp add: eviction_after_capacity_def n hs fl has_seen_def put_def idx_def Let_def ne ne [symmetric])
qed

lemma wire_round_trip_passes:
  assumes "heapless_ok hv" "text_hash sha ''over the wire'' \<noteq> ZERO_HASH"
  shows "wire_roundtrip_still_deduplicates hv sha = Some ()"
proof -
  let ?p = "grp_frame (bytes_of ''over the wire'')"
  have w: "write_to ?p (zeroed 255) = Some (15, wire_bytes ?p @ zeroed 240)" by code_simp
  have s: "slice (wire_bytes ?p @ zeroed 240) 0 15 = Some (wire_bytes ?p)" by code_simp
  have r: "read_from hv Packet_new (wire_bytes ?p) = Some (True, ?p)" by (rule on_lists [OF assms(1)]) code_simp
  show ?thesis
    using assms by (simp add: wire_roundtrip_still_deduplicates_def w s r dedup_eval)
qed

lemma different_path_passes:
  assumes "heapless_ok hv" "text_hash sha ''pathtest'' \<noteq> ZERO_HASH"
  shows "same_payload_different_path_is_duplicate hv sha = Some ()"
proof -
  let ?p = "grp_frame (bytes_of ''pathtest'')"
  have e: "extend_path hv (set_path_hash_size_and_count ?p 1 2) [0xAA, 0xBB] = Some (?p\<lparr>path_len := 2, path := [0xAA, 0xBB]\<rparr>)"
    "extend_path hv (set_path_hash_size_and_count ?p 1 3) [0xCC, 0xDD, 0xEE] = Some (?p\<lparr>path_len := 3, path := [0xCC, 0xDD, 0xEE]\<rparr>)"
    by (rule on_lists [OF assms(1)], code_simp)+
  have "packet_hash sha (?p\<lparr>path_len := n, path := v\<rparr>) = packet_hash sha ?p" for n v
  proof -
    have "drop_bit 2 (0x15 :: u8) AND 0x0F \<noteq> PayloadType_as_u8 Trace" by code_simp
    then show ?thesis by (simp add: packet_hash_def grp_frame_def)
  qed
  moreover have "route_type (?p\<lparr>path_len := n, path := v\<rparr>) = Inr Flood" for n v
    using grp_frame_flood by (simp add: route_type_def)
  ultimately show ?thesis
    using assms by (simp add: same_payload_different_path_is_duplicate_def e make_grp_txt_eq MAX_PACKET_PAYLOAD_def has_seen_def put_def Let_def)
qed

text \<open>There is such a digest.\<close>

lemma dedup_tests_pass_on_lists:
  "first_packet_not_duplicate list_heapless toy_sha = Some ()" "different_types_not_duplicate list_heapless toy_sha = Some ()"
  "eviction_after_capacity list_heapless toy_sha = Some ()" "wire_roundtrip_still_deduplicates list_heapless toy_sha = Some ()"
  by code_simp+

end
