(* ===== verification/Crypto_Tests.thy ===== *)
theory Crypto_Tests
  imports Testing Console Crypto
begin

text \<open>
  The unit tests of \<open>crates/meshcore-core/src/crypto.rs\<close>. Most pass with every cipher and digest that satisfy their contract; the others pass exactly if the cipher
  changes a block, the tag tells two messages apart, or the curve operation commutes.
\<close>

section \<open>The tests\<close>

definition aes_round_trip_exact_block :: "crypto \<Rightarrow> unit option" where
  "aes_round_trip_exact_block c = do {
     let secret = replicate PUB_KEY_SIZE 0xAB;
     let plaintext = replicate 16 1;
     (enc_len, ct) \<leftarrow> aes_encrypt c secret (zeroed 16) plaintext;
     _ \<leftarrow> assert_eq enc_len 16;
     _ \<leftarrow> assert_ne ct plaintext;
     (dec_len, decrypted) \<leftarrow> aes_decrypt c secret (zeroed 16) ct;
     _ \<leftarrow> assert_eq dec_len 16;
     assert_eq decrypted plaintext
   }"

definition aes_round_trip_partial_block :: "crypto \<Rightarrow> unit option" where
  "aes_round_trip_partial_block c = do {
     let secret = replicate PUB_KEY_SIZE 0x42;
     let plaintext = bytes_of ''hello world'';
     (enc_len, ct) \<leftarrow> aes_encrypt c secret (zeroed 16) plaintext;
     _ \<leftarrow> assert_eq enc_len 16;
     (dec_len, decrypted) \<leftarrow> aes_decrypt c secret (zeroed 16) ct;
     _ \<leftarrow> assert_eq dec_len 16;
     start \<leftarrow> slice decrypted 0 11;
     _ \<leftarrow> assert_eq start plaintext;
     rest \<leftarrow> slice decrypted 11 16;
     assert_eq rest (zeroed 5)
   }"

definition aes_round_trip_multi_block :: "crypto \<Rightarrow> unit option" where
  "aes_round_trip_multi_block c = do {
     let secret = replicate PUB_KEY_SIZE 0x77;
     let plaintext = replicate 33 0xFF;
     (enc_len, ct) \<leftarrow> aes_encrypt c secret (zeroed 48) plaintext;
     _ \<leftarrow> assert_eq enc_len 48;
     (dec_len, decrypted) \<leftarrow> aes_decrypt c secret (zeroed 48) ct;
     _ \<leftarrow> assert_eq dec_len 48;
     start \<leftarrow> slice decrypted 0 33;
     _ \<leftarrow> assert_eq start plaintext;
     rest \<leftarrow> slice decrypted 33 48;
     assert_eq rest (zeroed 15)
   }"

definition mac_produces_two_bytes :: "crypto \<Rightarrow> unit option" where
  "mac_produces_two_bytes c = do {
     let secret = replicate PUB_KEY_SIZE 0x01;
     let data = bytes_of ''test data'';
     let mac = compute_mac c secret data;
     assert_eq (length mac) CIPHER_MAC_SIZE
   }"

definition mac_is_deterministic :: "crypto \<Rightarrow> unit option" where
  "mac_is_deterministic c = do {
     let secret = replicate PUB_KEY_SIZE 0x55;
     let data = bytes_of ''deterministic'';
     let mac1 = compute_mac c secret data;
     let mac2 = compute_mac c secret data;
     assert_eq mac1 mac2
   }"

definition mac_differs_with_different_keys :: "crypto \<Rightarrow> unit option" where
  "mac_differs_with_different_keys c = do {
     let secret1 = replicate PUB_KEY_SIZE 0x01;
     let secret2 = replicate PUB_KEY_SIZE 0x02;
     let data = bytes_of ''same data'';
     let mac1 = compute_mac c secret1 data;
     let mac2 = compute_mac c secret2 data;
     assert_ne mac1 mac2
   }"

definition encrypt_then_mac_round_trip :: "crypto \<Rightarrow> unit option" where
  "encrypt_then_mac_round_trip c = do {
     let secret = replicate PUB_KEY_SIZE 0xCD;
     let plaintext = bytes_of ''authenticated encryption'';
     (enc_len, encrypted) \<leftarrow> encrypt_then_mac c secret (zeroed 256) plaintext;
     _ \<leftarrow> assert_eq enc_len (CIPHER_MAC_SIZE + 32);
     src \<leftarrow> slice encrypted 0 enc_len;
     (dec_len, decrypted) \<leftarrow> mac_then_decrypt c secret (zeroed 256) src;
     _ \<leftarrow> assert (dec_len \<noteq> None);
     dec_len \<leftarrow> dec_len;
     start \<leftarrow> slice decrypted 0 (length plaintext);
     _ \<leftarrow> assert_eq start plaintext;
     assert_eq dec_len 32
   }"

definition mac_verification_failure :: "crypto \<Rightarrow> unit option" where
  "mac_verification_failure c = do {
     let secret = replicate PUB_KEY_SIZE 0xAA;
     let plaintext = bytes_of ''tamper test'';
     (enc_len, encrypted) \<leftarrow> encrypt_then_mac c secret (zeroed 256) plaintext;
     b \<leftarrow> idx encrypted CIPHER_MAC_SIZE;
     encrypted \<leftarrow> put encrypted CIPHER_MAC_SIZE (b XOR 0xFF);
     src \<leftarrow> slice encrypted 0 enc_len;
     (result, _) \<leftarrow> mac_then_decrypt c secret (zeroed 256) src;
     assert (result = None)
   }"

definition mac_verification_failure_tampered_mac :: "crypto \<Rightarrow> unit option" where
  "mac_verification_failure_tampered_mac c = do {
     let secret = replicate PUB_KEY_SIZE 0xBB;
     let plaintext = bytes_of ''tamper mac'';
     (enc_len, encrypted) \<leftarrow> encrypt_then_mac c secret (zeroed 256) plaintext;
     b \<leftarrow> idx encrypted 0;
     encrypted \<leftarrow> put encrypted 0 (b XOR 0xFF);
     src \<leftarrow> slice encrypted 0 enc_len;
     (result, _) \<leftarrow> mac_then_decrypt c secret (zeroed 256) src;
     assert (result = None)
   }"

text \<open>\<open>public_of\<close> is the public key \<open>ed25519_dalek\<close> derives from a seed.\<close>

definition ecdh_two_keypairs_same_shared_secret :: "crypto \<Rightarrow> (u8 list \<Rightarrow> u8 list) \<Rightarrow> unit option" where
  "ecdh_two_keypairs_same_shared_secret c public_of = do {
     let seed_a = replicate 32 1;
     let seed_b = replicate 32 2;
     let pub_a = public_of seed_a;
     let pub_b = public_of seed_b;
     shared_ab \<leftarrow> ecdh_shared_secret c seed_a pub_b;
     shared_ba \<leftarrow> ecdh_shared_secret c seed_b pub_a;
     _ \<leftarrow> assert_eq shared_ab shared_ba;
     assert_ne shared_ab (zeroed 32)
   }"

definition aes_empty_input :: "crypto \<Rightarrow> unit option" where
  "aes_empty_input c = do {
     let secret = replicate PUB_KEY_SIZE 0x11;
     (enc_len, ct) \<leftarrow> aes_encrypt c secret (zeroed 16) [];
     assert_eq enc_len 0
   }"

section \<open>They pass\<close>

lemma sealed_sizes [simp]: "padded_len 0 = 0" "padded_len 10 = 16" "padded_len 11 = 16" "padded_len 16 = 16" "padded_len 24 = 32" "padded_len 33 = 48"
  "length (zeroed n) = n"
  by (simp_all add: padded_len_def div_ceil_def zeroed_def)

lemma aes_opens_sealed:
  assumes "crypto_ok c" "16 \<le> length secret" "length dest = padded_len (length src)" "length dest2 = padded_len (length src)"
  shows "aes_encrypt c secret dest src = Some (padded_len (length src), ciphertext c secret src)"
    and "aes_decrypt c secret dest2 (ciphertext c secret src) = Some (padded_len (length src), zero_pad src)"
proof -
  have l: "length (ciphertext c secret src) = padded_len (length src)" by (rule length_ciphertext [OF assms(1,2)])
  have d: "padded_len n div 16 = div_ceil n 16" "div_ceil n 16 * 16 = padded_len n" for n by (simp_all add: padded_len_def)
  show "aes_encrypt c secret dest src = Some (padded_len (length src), ciphertext c secret src)"
    using assms(3) by (simp add: aes_encrypt_eq [OF assms(1,2)])
  show "aes_decrypt c secret dest2 (ciphertext c secret src) = Some (padded_len (length src), zero_pad src)"
    using assms(4) by (simp add: aes_decrypt_eq [OF assms(1,2)] l d decrypt_ciphertext [OF assms(1,2)])
qed

lemma aes_tests_pass:
  assumes "crypto_ok c"
  shows "aes_round_trip_exact_block c = Some () \<longleftrightarrow> ciphertext c (replicate 32 0xAB) (replicate 16 1) \<noteq> replicate 16 1"
    and "aes_round_trip_partial_block c = Some ()"
    and "aes_round_trip_multi_block c = Some ()"
    and "aes_empty_input c = Some ()"
proof -
  note o = aes_opens_sealed [OF assms]
  show "aes_round_trip_exact_block c = Some () \<longleftrightarrow> ciphertext c (replicate 32 0xAB) (replicate 16 1) \<noteq> replicate 16 1"
    using o [of "replicate 32 0xAB" "zeroed 16" "replicate 16 1" "zeroed 16"]
    by (simp add: aes_round_trip_exact_block_def PUB_KEY_SIZE_def Let_def zero_pad_def assert_ne_def bind_eq_Some_conv)
  define pt where "pt = bytes_of ''hello world''"
  have "length pt = 11" by (simp add: pt_def)
  then show "aes_round_trip_partial_block c = Some ()"
    using o [of "replicate 32 0x42" "zeroed 16" pt "zeroed 16"]
    by (simp add: aes_round_trip_partial_block_def pt_def [symmetric] PUB_KEY_SIZE_def Let_def zero_pad_def slice_def zeroed_def [of 5])
  show "aes_round_trip_multi_block c = Some ()"
    using o [of "replicate 32 0x77" "zeroed 48" "replicate 33 0xFF" "zeroed 48"]
    by (simp add: aes_round_trip_multi_block_def PUB_KEY_SIZE_def Let_def zero_pad_def slice_def zeroed_def [of 15])
  show "aes_empty_input c = Some ()"
    using aes_encrypt_eq [OF assms, of "replicate 32 0x11" "zeroed 16" "[]"] by (simp add: aes_empty_input_def PUB_KEY_SIZE_def Let_def)
qed

lemma mac_tests_pass:
  assumes "crypto_ok c"
  shows "mac_produces_two_bytes c = Some ()" "mac_is_deterministic c = Some ()"
    and "mac_differs_with_different_keys c = Some () \<longleftrightarrow>
      compute_mac c (replicate 32 1) (bytes_of ''same data'') \<noteq> compute_mac c (replicate 32 2) (bytes_of ''same data'')"
  by (simp_all add: mac_produces_two_bytes_def mac_is_deterministic_def mac_differs_with_different_keys_def length_compute_mac [OF assms]
      assert_ne_def PUB_KEY_SIZE_def CIPHER_MAC_SIZE_def Let_def)

lemma sealed_tests_pass:
  assumes c: "crypto_ok c"
  shows "encrypt_then_mac_round_trip c = Some ()"
    and "mac_verification_failure_tampered_mac c = Some ()"
    and "ct = ciphertext c (replicate 32 0xAA) (bytes_of ''tamper test'') \<Longrightarrow> mac_verification_failure c = Some () \<longleftrightarrow>
      compute_mac c (replicate 32 0xAA) (ct[0 := ct ! 0 XOR 0xFF]) \<noteq> compute_mac c (replicate 32 0xAA) ct"
proof -
  note e = encrypt_then_mac_eq [OF c] and d = mac_then_decrypt_eq [OF c]
  have s: "length (sealed c (replicate 32 k) m) = 2 + padded_len (length m)"
    "take 2 (sealed c (replicate 32 k) m) = compute_mac c (replicate 32 k) (ciphertext c (replicate 32 k) m)"
    "drop 2 (sealed c (replicate 32 k) m) = ciphertext c (replicate 32 k) m" for k m
    using length_compute_mac [OF c] length_ciphertext [OF c] by (simp_all add: sealed_def)
  define pt where "pt = bytes_of ''authenticated encryption''"
  have l24: "length pt = 24" by (simp add: pt_def)
  then have "ecb (aes128_decrypt_block c (replicate 16 0xCD)) 2 (ciphertext c (replicate 32 0xCD) pt) = pt @ replicate 8 0"
    using decrypt_ciphertext [OF c, of "replicate 32 0xCD" pt] by (simp add: div_ceil_def zero_pad_def numeral_2_eq_2)
  then show "encrypt_then_mac_round_trip c = Some ()"
    using l24 by (simp add: encrypt_then_mac_round_trip_def pt_def [symmetric] PUB_KEY_SIZE_def CIPHER_MAC_SIZE_def e d s slice_def Let_def)
  define tm where "tm = bytes_of ''tamper mac''"
  have l: "length tm = 10" by (simp add: tm_def)
  obtain m0 m1 where m: "compute_mac c (replicate 32 0xBB) (ciphertext c (replicate 32 0xBB) tm) = [m0, m1]"
    using length_compute_mac [OF c, of "replicate 32 0xBB" "ciphertext c (replicate 32 0xBB) tm"] by (auto simp: length_Suc_conv numeral_2_eq_2)
  have "bit (m0 XOR 0xFF) 0 \<noteq> bit m0 0" by (simp add: bit_xor_iff)
  then have x: "m0 XOR 0xFF \<noteq> m0" by metis
  have "sealed c (replicate 32 0xBB) tm = m0 # m1 # ciphertext c (replicate 32 0xBB) tm" by (simp add: sealed_def m)
  then show "mac_verification_failure_tampered_mac c = Some ()"
    using x l length_ciphertext [OF c, of "replicate 32 0xBB" tm]
    by (simp add: mac_verification_failure_tampered_mac_def tm_def [symmetric] PUB_KEY_SIZE_def e d m idx_def put_def slice_def numeral_2_eq_2 Let_def)
next
  assume ct: "ct = ciphertext c (replicate 32 0xAA) (bytes_of ''tamper test'')"
  define pt where "pt = bytes_of ''tamper test''"
  have l: "length pt = 11" by (simp add: pt_def)
  then have lc: "length ct = 16" using length_ciphertext [OF c, of "replicate 32 0xAA" pt] unfolding ct pt_def [symmetric] by simp
  obtain m0 m1 where m: "compute_mac c (replicate 32 0xAA) ct = [m0, m1]"
    using length_compute_mac [OF c, of "replicate 32 0xAA" ct] by (auto simp: length_Suc_conv numeral_2_eq_2)
  have se: "sealed c (replicate 32 0xAA) pt = m0 # m1 # ct" using m by (simp add: sealed_def ct pt_def)
  have en: "encrypt_then_mac c (replicate 32 0xAA) (zeroed 256) pt = Some (18, m0 # m1 # ct @ drop 18 (zeroed 256))"
    using l by (simp add: encrypt_then_mac_eq [OF c] se)
  have de: "mac_then_decrypt c (replicate 32 0xAA) (zeroed 256) (m0 # m1 # ct[0 := ct ! 0 XOR 0xFF]) = Some (r, buf) \<Longrightarrow>
      r = None \<longleftrightarrow> compute_mac c (replicate 32 0xAA) (ct[0 := ct ! 0 XOR 0xFF]) \<noteq> [m0, m1]" for r buf
    by (auto simp: mac_then_decrypt_eq [OF c] numeral_2_eq_2 Let_def split: if_splits)
  have "mac_then_decrypt c (replicate 32 0xAA) (zeroed 256) (m0 # m1 # ct[0 := ct ! 0 XOR 0xFF]) \<noteq> None"
    using lc by (simp add: mac_then_decrypt_eq [OF c] Let_def)
  then obtain r buf where rb: "mac_then_decrypt c (replicate 32 0xAA) (zeroed 256) (m0 # m1 # ct[0 := ct ! 0 XOR 0xFF]) = Some (r, buf)" by auto
  have "mac_verification_failure c = assert (r = None)"
    using lc rb by (simp add: mac_verification_failure_def pt_def [symmetric] en PUB_KEY_SIZE_def CIPHER_MAC_SIZE_def idx_def put_def slice_def
        nth_append list_update_append numeral_2_eq_2 Let_def)
  with de [OF rb] m show "mac_verification_failure c = Some () \<longleftrightarrow>
      compute_mac c (replicate 32 0xAA) (ct[0 := ct ! 0 XOR 0xFF]) \<noteq> compute_mac c (replicate 32 0xAA) ct" by simp
qed

lemma ecdh_test_passes:
  assumes "crypto_ok c" "k = (\<lambda>s p. the (ecdh_shared_secret c s p))"
  shows "ecdh_two_keypairs_same_shared_secret c public_of = Some () \<longleftrightarrow>
    k (replicate 32 1) (public_of (replicate 32 2)) = k (replicate 32 2) (public_of (replicate 32 1)) \<and>
    k (replicate 32 1) (public_of (replicate 32 2)) \<noteq> zeroed 32"
  by (simp add: ecdh_two_keypairs_same_shared_secret_def ecdh_eq [OF assms(1)] assms(2) assert_eq_def assert_ne_def bind_eq_Some_conv Let_def)

text \<open>Where the outcome depends on the primitives, there are some with which the test passes.\<close>

lemma crypto_tests_pass_on_toys:
  "aes_round_trip_exact_block toy_crypto = Some ()"
  "mac_differs_with_different_keys (toy_crypto\<lparr>hmac_sha256 := \<lambda>k m. (hd k XOR hd m) # replicate 31 0\<rparr>) = Some ()"
  "mac_verification_failure (toy_crypto\<lparr>hmac_sha256 := \<lambda>k m. (hd k XOR hd m) # replicate 31 0\<rparr>) = Some ()"
  by code_simp+

end
