(* ===== verification/Text_Tests.thy ===== *)
theory Text_Tests
  imports Wire_Tests Grp_Txt Identity
begin

text \<open>
  The unit tests of \<open>crates/meshcore-core/src/grp_txt.rs\<close> and \<open>identity.rs\<close>. They pass with every cipher, digest and signature scheme
  that satisfies its contract, except for three, which pass exactly if a forged or mistaken tag or signature is told apart.
\<close>

section \<open>Group texts\<close>

definition channel_key :: "crypto \<Rightarrow> u8 list \<Rightarrow> (u8 list \<times> u8) option" where
  "channel_key c name = do {
     let secret = zeroed 32;
     let hash = sha256 c name;
     h \<leftarrow> slice hash 0 16;
     secret \<leftarrow> copy_at secret 0 16 h;
     key \<leftarrow> slice secret 0 16;
     let h2 = sha256 c key;
     channel_hash \<leftarrow> idx h2 0;
     Some (secret, channel_hash)
   }"

text \<open>\<open>unwrap\<close> of the encoder and the decoder.\<close>

definition encode_unwrap :: "u8 heapless \<Rightarrow> crypto \<Rightarrow> u8 list \<Rightarrow> u8 \<Rightarrow> u32 \<Rightarrow> u8 list \<Rightarrow> Packet option" where
  "encode_unwrap hv c secret h ts msg = do { r \<leftarrow> encode_grp_txt hv c secret h ts msg; r }"

definition decode_unwrap :: "crypto \<Rightarrow> u8 list \<Rightarrow> u8 list \<Rightarrow> u8 list \<Rightarrow> DecodedGrpTxt option" where
  "decode_unwrap c secret pl scratch = do { (r, _) \<leftarrow> decode_grp_txt c secret pl scratch; r }"

definition roundtrip_basic :: "u8 heapless \<Rightarrow> crypto \<Rightarrow> unit option" where
  "roundtrip_basic hv c = do {
     (secret, ch_hash) \<leftarrow> channel_key c (bytes_of ''#meshcore-rs'');
     let msg = bytes_of ''bot: hello world'';
     let ts = 1700000000;
     pkt \<leftarrow> encode_unwrap hv c secret ch_hash ts msg;
     first \<leftarrow> idx (payload pkt) 0;
     _ \<leftarrow> assert_eq first ch_hash;
     _ \<leftarrow> assert (length (payload pkt) > MIN_GRP_TXT_PAYLOAD);
     decoded \<leftarrow> decode_unwrap c secret (payload pkt) (zeroed 256);
     _ \<leftarrow> assert_eq (timestamp decoded) ts;
     _ \<leftarrow> assert_eq (tx_type decoded) 0x00;
     assert_eq (message decoded) (bytes_of ''bot: hello world'')
   }"

definition roundtrip_empty_message :: "u8 heapless \<Rightarrow> crypto \<Rightarrow> unit option" where
  "roundtrip_empty_message hv c = do {
     (secret, ch_hash) \<leftarrow> channel_key c (bytes_of ''#test'');
     pkt \<leftarrow> encode_unwrap hv c secret ch_hash 42 [];
     decoded \<leftarrow> decode_unwrap c secret (payload pkt) (zeroed 256);
     _ \<leftarrow> assert_eq (timestamp decoded) 42;
     assert_eq (message decoded) []
   }"

definition wrong_key_fails_mac :: "u8 heapless \<Rightarrow> crypto \<Rightarrow> unit option" where
  "wrong_key_fails_mac hv c = do {
     (secret, ch_hash) \<leftarrow> channel_key c (bytes_of ''#meshcore-rs'');
     pkt \<leftarrow> encode_unwrap hv c secret ch_hash 100 (bytes_of ''secret msg'');
     (wrong_secret, _) \<leftarrow> channel_key c (bytes_of ''#wrong-channel'');
     (result, _) \<leftarrow> decode_grp_txt c wrong_secret (payload pkt) (zeroed 256);
     assert (result = None)
   }"

definition too_short_payload_fails :: "crypto \<Rightarrow> unit option" where
  "too_short_payload_fails c = do {
     let secret = zeroed 32;
     let short_payload = zeroed 3;
     (result, _) \<leftarrow> decode_grp_txt c secret short_payload (zeroed 256);
     assert (result = None)
   }"

definition matches_channel_works :: "unit option" where
  "matches_channel_works = do {
     _ \<leftarrow> assert (matches_channel [0xAB, 0x01, 0x02] 0xAB);
     _ \<leftarrow> assert (\<not> matches_channel [0xAB, 0x01, 0x02] 0xCD);
     assert (\<not> matches_channel [] 0xAB)
   }"

definition packet_header_is_grp_txt_flood :: "u8 heapless \<Rightarrow> crypto \<Rightarrow> unit option" where
  "packet_header_is_grp_txt_flood hv c = do {
     (secret, ch_hash) \<leftarrow> channel_key c (bytes_of ''#test'');
     pkt \<leftarrow> encode_unwrap hv c secret ch_hash 0 (bytes_of ''hi'');
     hdr \<leftarrow> result_ok (parsed_header pkt);
     _ \<leftarrow> assert_eq (hdr_payload_type hdr) GrpTxt;
     _ \<leftarrow> assert_eq (hdr_route_type hdr) Flood;
     assert_eq (hdr_version hdr) V1
   }"

definition wire_roundtrip :: "u8 heapless \<Rightarrow> crypto \<Rightarrow> unit option" where
  "wire_roundtrip hv c = do {
     (secret, ch_hash) \<leftarrow> channel_key c (bytes_of ''#meshcore-rs'');
     pkt \<leftarrow> encode_unwrap hv c secret ch_hash 1234567890 (bytes_of ''meshcore-rs: test'');
     (len, wire) \<leftarrow> write_to pkt (zeroed 255);
     wire \<leftarrow> slice wire 0 len;
     (ok, pkt2) \<leftarrow> read_from hv Packet_new wire;
     _ \<leftarrow> assert ok;
     decoded \<leftarrow> decode_unwrap c secret (payload pkt2) (zeroed 256);
     _ \<leftarrow> assert_eq (message decoded) (bytes_of ''meshcore-rs: test'');
     assert_eq (timestamp decoded) 1234567890
   }"

subsection \<open>They pass\<close>

lemma channel_key_eq:
  assumes "crypto_ok c"
  shows "\<exists>secret h. channel_key c name = Some (secret, h) \<and> length secret = 32 \<and> secret = take 16 (sha256 c name) @ zeroed 16"
proof -
  have l: "length (sha256 c m) = 32" for m using assms by (simp add: crypto_ok_def)
  then have "sha256 c (take 16 (sha256 c name)) \<noteq> []" by (metis list.size(3) zero_neq_numeral)
  then show ?thesis by (simp add: channel_key_def slice_def copy_at_def idx_def zeroed_def l Let_def)
qed

lemma grp_sent_and_opened:
  assumes hv: "heapless_ok hv" and c: "crypto_ok c" and s: "length secret = 32"
    and msg: "list_all (\<lambda>b. b < 0x80) msg" "length msg \<le> 171" "msg = [] \<or> last msg \<noteq> 0"
    and p: "p = grp_packet c secret h ts msg"
  shows "encode_unwrap hv c secret h ts msg = Some p"
    and "decode_unwrap c secret (payload p) (zeroed 256) = Some \<lparr>timestamp = ts, tx_type = 0, message = msg\<rparr>"
    and "\<exists>n buf. write_to p (zeroed 255) = Some (n, buf) \<and> (\<exists>wire. slice buf 0 n = Some wire \<and> read_from hv Packet_new wire = Some (True, p))"
proof -
  show "encode_unwrap hv c secret h ts msg = Some p" using msg(2) p by (simp add: encode_unwrap_def encode_grp_txt_eq [OF hv c s])
  have wf: "wf_packet p" using wf_grp_packet [OF c s msg(2)] p by simp
  then have "length (payload p) \<le> 184" by (simp add: wf_packet_def MAX_PACKET_PAYLOAD_def)
  then have "length (payload p) \<le> length (zeroed 256)" by (simp add: zeroed_def)
  from decode_grp_txt_eq [OF c s this] obtain buf where "decode_grp_txt c secret (payload p) (zeroed 256) = Some (open_grp_txt c secret (payload p), buf)"
    by blast
  then show "decode_unwrap c secret (payload p) (zeroed 256) = Some \<lparr>timestamp = ts, tx_type = 0, message = msg\<rparr>"
    using open_grp_packet [OF c s utf8_valid_ascii [OF msg(1)] msg(3)] p by (simp add: decode_unwrap_def)
  have "p\<lparr>snr := snr Packet_new\<rparr> = p" by (simp add: p grp_packet_def Packet_new_def)
  then have r: "read_from hv Packet_new (wire_bytes p) = Some (True, p)" using read_from_complete [OF hv wf, of Packet_new] by simp
  have "write_to p (zeroed 255) = Some (wire_len p, wire_bytes p @ drop (wire_len p) (zeroed 255))"
    using wf_path_complete [OF wf] wf_wire_len_le [OF wf] by (simp add: write_to_eq zeroed_def)
  moreover have "slice (wire_bytes p @ drop (wire_len p) (zeroed 255)) 0 (wire_len p) = Some (wire_bytes p)"
    using wf by (simp add: slice_def length_wire_bytes)
  ultimately show "\<exists>n buf. write_to p (zeroed 255) = Some (n, buf) \<and> (\<exists>wire. slice buf 0 n = Some wire \<and> read_from hv Packet_new wire = Some (True, p))"
    using r by blast
qed

lemma grp_tests_pass:
  assumes hv: "heapless_ok hv" and c: "crypto_ok c"
  shows "roundtrip_basic hv c = Some ()" "roundtrip_empty_message hv c = Some ()" "packet_header_is_grp_txt_flood hv c = Some ()"
    "wire_roundtrip hv c = Some ()"
proof -
  note o = grp_sent_and_opened [OF hv c _ _ _ _ refl]
  have p: "payload (grp_packet c secret h ts msg) = h # sealed c secret (grp_plaintext ts msg)" for secret h ts msg by (simp add: grp_packet_def)
  obtain secret h where k: "channel_key c (bytes_of ''#meshcore-rs'') = Some (secret, h)" "length secret = 32" using channel_key_eq [OF c] by blast
  obtain secret2 h2 where k2: "channel_key c (bytes_of ''#test'') = Some (secret2, h2)" "length secret2 = 32" using channel_key_eq [OF c] by blast
  define m where "m = bytes_of ''bot: hello world''"
  have m: "list_all (\<lambda>b. b < 0x80) m" "length m = 16" "m = [] \<or> last m \<noteq> 0" by (simp_all add: m_def bytes_of_def)
  have "length (sealed c secret (grp_plaintext ts m)) = 34" for ts
    using length_sealed [OF c, of secret "grp_plaintext ts m"] k m by (simp add: grp_plaintext_def padded_len_def div_ceil_def)
  then show "roundtrip_basic hv c = Some ()"
    using o(1,2) [OF k(2) m(1) _ m(3), of h 1700000000] m(2)
    by (simp add: roundtrip_basic_def m_def [symmetric] k(1) p idx_def MIN_GRP_TXT_PAYLOAD_def CIPHER_MAC_SIZE_def Let_def)
  show "roundtrip_empty_message hv c = Some ()"
    using o(1,2) [OF k2(2), of "[]" h2 42] by (simp add: roundtrip_empty_message_def k2(1))
  have "PacketHeader_try_from 0x15 = Inr \<lparr>hdr_route_type = Flood, hdr_payload_type = GrpTxt, hdr_version = V1\<rparr>" by code_simp
  moreover have "list_all (\<lambda>b. b < 0x80) (bytes_of ''hi'')" "last (bytes_of ''hi'') \<noteq> 0" by (simp_all add: bytes_of_def)
  ultimately show "packet_header_is_grp_txt_flood hv c = Some ()"
    using o(1) [OF k2(2), of "bytes_of ''hi''" h2 0] by (simp add: packet_header_is_grp_txt_flood_def k2(1) parsed_header_def grp_packet_def)
  define t where "t = bytes_of ''meshcore-rs: test''"
  have t: "list_all (\<lambda>b. b < 0x80) t" "length t = 17" "t = [] \<or> last t \<noteq> 0" by (simp_all add: t_def bytes_of_def)
  show "wire_roundtrip hv c = Some ()"
    using o(1,2,3) [OF k(2) t(1) _ t(3), of h 1234567890] t(2)
    by (auto simp: wire_roundtrip_def t_def [symmetric] k(1))
qed

lemma matches_channel_works_passes: "matches_channel_works = Some ()"
  by code_simp

lemma too_short_payload_fails_passes: "too_short_payload_fails c = Some ()"
  by (simp add: too_short_payload_fails_def decode_grp_txt_def MIN_GRP_TXT_PAYLOAD_def CIPHER_MAC_SIZE_def zeroed_def)

lemma wrong_key_fails_mac_passes:
  assumes hv: "heapless_ok hv" and c: "crypto_ok c"
    and k: "secret = take 16 (sha256 c (bytes_of ''#meshcore-rs'')) @ zeroed 16" "wrong = take 16 (sha256 c (bytes_of ''#wrong-channel'')) @ zeroed 16"
    and ct: "ct = ciphertext c secret (grp_plaintext 100 (bytes_of ''secret msg''))"
    and m: "compute_mac c wrong ct \<noteq> compute_mac c secret ct"
  shows "wrong_key_fails_mac hv c = Some ()"
proof -
  define msg where "msg = bytes_of ''secret msg''"
  have msg: "list_all (\<lambda>b. b < 0x80) msg" "length msg \<le> 171" "msg = [] \<or> last msg \<noteq> 0" by (simp_all add: msg_def bytes_of_def)
  obtain h where e: "channel_key c (bytes_of ''#meshcore-rs'') = Some (secret, h)" "length secret = 32" using channel_key_eq [OF c] k(1) by blast
  obtain h2 where w: "channel_key c (bytes_of ''#wrong-channel'') = Some (wrong, h2)" "length wrong = 32" using channel_key_eq [OF c] k(2) by blast
  let ?p = "grp_packet c secret h 100 msg"
  have wf: "wf_packet ?p" by (rule wf_grp_packet [OF c e(2) msg(2)])
  then have "length (payload ?p) \<le> 184" by (simp add: wf_packet_def MAX_PACKET_PAYLOAD_def)
  then have "length (payload ?p) \<le> length (zeroed 256)" by (simp add: zeroed_def)
  from decode_grp_txt_eq [OF c w(2) this] obtain buf where d: "decode_grp_txt c wrong (payload ?p) (zeroed 256) = Some (open_grp_txt c wrong (payload ?p), buf)"
    by blast
  have "take 2 (drop 1 (payload ?p)) = compute_mac c secret ct" "drop 3 (payload ?p) = ct"
    using length_compute_mac [OF c] by (simp_all add: grp_packet_def sealed_def ct msg_def)
  then have "open_grp_txt c wrong (payload ?p) = None" using m by (simp add: open_grp_txt_def)
  then show ?thesis using grp_sent_and_opened(1) [OF hv c e(2) msg refl, of h 100] d
    by (simp add: wrong_key_fails_mac_def e(1) w(1) msg_def [symmetric])
qed

section \<open>Identities\<close>

definition test_seed :: "u8 list" where
  "test_seed = [0x01, 0x02, 0x03, 0x04, 0x05, 0x06, 0x07, 0x08, 0x09, 0x0a, 0x0b, 0x0c, 0x0d, 0x0e,
     0x0f, 0x10, 0x11, 0x12, 0x13, 0x14, 0x15, 0x16, 0x17, 0x18, 0x19, 0x1a, 0x1b, 0x1c, 0x1d, 0x1e, 0x1f, 0x20]"

definition sign_and_verify :: "('sk, 'vk) ed25519 \<Rightarrow> unit option" where
  "sign_and_verify ed = do {
     let ident = LocalIdentity_from_bytes ed test_seed;
     let msg = bytes_of ''hello meshcore'';
     let signature = sign ed ident msg;
     let pubkey = public_key ed ident;
     assert (verify ed pubkey msg signature)
   }"

definition path_hash_is_first_byte :: "('sk, 'vk) ed25519 \<Rightarrow> unit option" where
  "path_hash_is_first_byte ed = do {
     let ident = LocalIdentity_from_bytes ed test_seed;
     let pubkey = public_key ed ident;
     h \<leftarrow> path_hash pubkey;
     b \<leftarrow> idx (key_bytes pubkey) 0;
     _ \<leftarrow> assert_eq h (PathHash b);
     h2 \<leftarrow> identity_path_hash ed ident;
     assert_eq h2 h
   }"

definition is_hash_match_works :: "('sk, 'vk) ed25519 \<Rightarrow> unit option" where
  "is_hash_match_works ed = do {
     let ident = LocalIdentity_from_bytes ed test_seed;
     let pubkey = public_key ed ident;
     b \<leftarrow> idx (key_bytes pubkey) 0;
     r \<leftarrow> is_hash_match pubkey [b];
     _ \<leftarrow> assert r;
     four \<leftarrow> slice (key_bytes pubkey) 0 4;
     r \<leftarrow> is_hash_match pubkey four;
     _ \<leftarrow> assert r;
     r \<leftarrow> is_hash_match pubkey (key_bytes pubkey);
     _ \<leftarrow> assert r;
     let wrong = b + 1;
     r \<leftarrow> is_hash_match pubkey [wrong];
     _ \<leftarrow> assert (\<not> r);
     r \<leftarrow> is_hash_match pubkey [];
     assert (\<not> r)
   }"

definition invalid_signature_fails :: "('sk, 'vk) ed25519 \<Rightarrow> unit option" where
  "invalid_signature_fails ed = do {
     let ident = LocalIdentity_from_bytes ed test_seed;
     let msg = bytes_of ''hello meshcore'';
     let signature = sign ed ident msg;
     b \<leftarrow> idx signature 0;
     signature \<leftarrow> put signature 0 (b XOR 0xff);
     assert (\<not> verify ed (public_key ed ident) msg signature)
   }"

definition wrong_message_fails :: "('sk, 'vk) ed25519 \<Rightarrow> unit option" where
  "wrong_message_fails ed = do {
     let ident = LocalIdentity_from_bytes ed test_seed;
     let signature = sign ed ident (bytes_of ''hello meshcore'');
     assert (\<not> verify ed (public_key ed ident) (bytes_of ''wrong message'') signature)
   }"

definition public_key_from_bytes :: "unit option" where
  "public_key_from_bytes = do {
     let bytes = replicate PUB_KEY_SIZE 0xaa;
     let pubkey = PublicKey bytes;
     _ \<leftarrow> assert_eq (case pubkey of PublicKey bs \<Rightarrow> bs) bytes;
     assert_eq (key_bytes pubkey) bytes
   }"

text \<open>The \<open>heapless::String<64>\<close> takes at most 64 bytes.\<close>

definition debug_format :: "('sk, 'vk) ed25519 \<Rightarrow> unit option" where
  "debug_format ed = do {
     let ident = LocalIdentity_from_bytes ed test_seed;
     let pubkey = public_key ed ident;
     buf \<leftarrow> PublicKey_fmt pubkey;
     _ \<leftarrow> assert (length buf \<le> 64);
     _ \<leftarrow> assert (take 10 buf = ''PublicKey('');
     assert (buf \<noteq> [] \<and> last buf = CHR '')'')
   }"

subsection \<open>They pass\<close>

lemma identity_tests_pass:
  assumes "ed25519_ok ed"
  shows "sign_and_verify ed = Some ()" "path_hash_is_first_byte ed = Some ()" "is_hash_match_works ed = Some ()" "debug_format ed = Some ()"
    "public_key_from_bytes = Some ()"
proof -
  have l: "length (key_bytes (public_key ed i)) = 32" for i by (rule public_key_length [OF assms])
  then have k: "\<exists>b bs. key_bytes (public_key ed i) = b # bs" for i by (metis list.exhaust list.size(3) zero_neq_numeral)
  show "sign_and_verify ed = Some ()" by (simp add: sign_and_verify_def verify_own [OF assms] Let_def)
  show "path_hash_is_first_byte ed = Some ()"
    using k [of "LocalIdentity_from_bytes ed test_seed"] by (auto simp: path_hash_is_first_byte_def identity_path_hash_def path_hash_def idx_def Let_def)
  obtain b bs where b: "key_bytes (public_key ed (LocalIdentity_from_bytes ed test_seed)) = b # bs" using k by blast
  have "b \<noteq> b + 1" by simp
  then show "is_hash_match_works ed = Some ()"
    using l [of "LocalIdentity_from_bytes ed test_seed"] b by (simp add: is_hash_match_works_def is_hash_match_def idx_def slice_def Let_def)
  show "debug_format ed = Some ()"
    using l [of "LocalIdentity_from_bytes ed test_seed"] k [of "LocalIdentity_from_bytes ed test_seed"] by (auto simp: debug_format_def PublicKey_fmt_def idx_def Let_def)
  show "public_key_from_bytes = Some ()" by (simp add: public_key_from_bytes_def Let_def)
qed

lemma forgery_tests_pass:
  assumes "ed25519_ok ed" "ident = LocalIdentity_from_bytes ed test_seed" "s = sign ed ident (bytes_of ''hello meshcore'')"
  shows "invalid_signature_fails ed = Some () \<longleftrightarrow> \<not> verify ed (public_key ed ident) (bytes_of ''hello meshcore'') (s[0 := s ! 0 XOR 0xff])"
    and "wrong_message_fails ed = Some () \<longleftrightarrow> \<not> verify ed (public_key ed ident) (bytes_of ''wrong message'') s"
proof -
  have "length s = 64" using assms(1,3) by (simp add: ed25519_ok_def sign_def SIGNATURE_SIZE_def)
  then have "length s = 64" "s \<noteq> []" by auto
  then show "invalid_signature_fails ed = Some () \<longleftrightarrow> \<not> verify ed (public_key ed ident) (bytes_of ''hello meshcore'') (s[0 := s ! 0 XOR 0xff])"
    by (simp add: invalid_signature_fails_def assms(2,3) [symmetric] idx_def put_def Let_def)
  show "wrong_message_fails ed = Some () \<longleftrightarrow> \<not> verify ed (public_key ed ident) (bytes_of ''wrong message'') s"
    by (simp add: wrong_message_fails_def assms(2,3) [symmetric] Let_def)
qed

lemma forgery_tests_pass_on_toys: "invalid_signature_fails toy_ed25519 = Some ()" "wrong_message_fails toy_ed25519 = Some ()"
  by code_simp+

end
