(* ===== verification/Queue_Tests.thy ===== *)
theory Queue_Tests
  imports Testing Console Tx_Queue Rx_Delay Duty_Cycle
begin

text \<open>
  The unit tests of \<open>crates/meshcore-dispatch/src/tx_queue.rs\<close>, \<open>rx_delay.rs\<close> and \<open>duty_cycle.rs\<close>. They pass with every container that
  satisfies its contract, at one tick per millisecond.
\<close>

section \<open>The transmission queue\<close>

definition make_request :: "u8 \<Rightarrow> u32 \<Rightarrow> TxRequest" where
  "make_request p ms = \<lparr>req_packet = Packet_new, req_priority = p, delay_ms = ms\<rparr>"

definition make_entry :: "time_api \<Rightarrow> u8 \<Rightarrow> u64 \<Rightarrow> TxEntry" where
  "make_entry tm p ms = \<lparr>te_packet = Packet_new, te_priority = p, send_after = inst_from_millis tm ms\<rparr>"

text \<open>\<open>let _ = q.entries.push(..)\<close>, and \<open>q.pop_ready(now).unwrap()\<close> with the queue it leaves.\<close>

definition tx_add :: "TxEntry heapless \<Rightarrow> nat \<Rightarrow> TxEntry \<Rightarrow> TxQueue \<Rightarrow> TxQueue" where
  "tx_add hv N e q = (case hv_push hv N (tx_entries q) e of Inl _ \<Rightarrow> q | Inr es \<Rightarrow> q\<lparr>tx_entries := es\<rparr>)"

definition tx_pop_unwrap :: "TxEntry heapless \<Rightarrow> instant \<Rightarrow> TxQueue \<Rightarrow> (TxEntry \<times> TxQueue) option" where
  "tx_pop_unwrap hv now q = do { (r, q) \<leftarrow> tx_pop_ready hv now q; e \<leftarrow> r; Some (e, q) }"

definition push_and_pop_single :: "TxEntry heapless \<Rightarrow> time_api \<Rightarrow> unit option" where
  "push_and_pop_single hv tm = do {
     es \<leftarrow> result_ok (hv_push hv 4 (tx_entries TxQueue_new) (make_entry tm 0 100));
     let q = \<lparr>tx_entries = es\<rparr>;
     _ \<leftarrow> assert_eq (tx_len q) 1;
     (entry, q) \<leftarrow> tx_pop_unwrap hv (inst_from_millis tm 100) q;
     _ \<leftarrow> assert_eq (te_priority entry) 0;
     _ \<leftarrow> assert_eq (send_after entry) (inst_from_millis tm 100);
     assert (tx_is_empty q)
   }"

definition priority_ordering :: "TxEntry heapless \<Rightarrow> time_api \<Rightarrow> unit option" where
  "priority_ordering hv tm = do {
     let q = tx_add hv 4 (make_entry tm 2 0) TxQueue_new;
     let q = tx_add hv 4 (make_entry tm 0 0) q;
     let q = tx_add hv 4 (make_entry tm 1 0) q;
     let now = inst_from_millis tm 0;
     (e, q) \<leftarrow> tx_pop_unwrap hv now q;
     _ \<leftarrow> assert_eq (te_priority e) 0;
     (e, q) \<leftarrow> tx_pop_unwrap hv now q;
     _ \<leftarrow> assert_eq (te_priority e) 1;
     (e, q) \<leftarrow> tx_pop_unwrap hv now q;
     _ \<leftarrow> assert_eq (te_priority e) 2;
     (r, q) \<leftarrow> tx_pop_ready hv now q;
     assert (r = None)
   }"

definition scheduled_ordering :: "TxEntry heapless \<Rightarrow> time_api \<Rightarrow> unit option" where
  "scheduled_ordering hv tm = do {
     let q = tx_add hv 4 (make_entry tm 1 300) TxQueue_new;
     let q = tx_add hv 4 (make_entry tm 1 100) q;
     let q = tx_add hv 4 (make_entry tm 1 200) q;
     let now = inst_from_millis tm 300;
     (e, q) \<leftarrow> tx_pop_unwrap hv now q;
     _ \<leftarrow> assert_eq (send_after e) (inst_from_millis tm 100);
     (e, q) \<leftarrow> tx_pop_unwrap hv now q;
     _ \<leftarrow> assert_eq (send_after e) (inst_from_millis tm 200);
     (e, q) \<leftarrow> tx_pop_unwrap hv now q;
     assert_eq (send_after e) (inst_from_millis tm 300)
   }"

definition tx_pop_ready_respects_time :: "TxEntry heapless \<Rightarrow> time_api \<Rightarrow> unit option" where
  "tx_pop_ready_respects_time hv tm = do {
     let q = tx_add hv 4 (make_entry tm 0 100) TxQueue_new;
     let q = tx_add hv 4 (make_entry tm 0 500) q;
     (r, q) \<leftarrow> tx_pop_ready hv (inst_from_millis tm 50) q;
     _ \<leftarrow> assert (r = None);
     (r, q) \<leftarrow> tx_pop_ready hv (inst_from_millis tm 100) q;
     _ \<leftarrow> assert (r \<noteq> None);
     (r, q) \<leftarrow> tx_pop_ready hv (inst_from_millis tm 200) q;
     _ \<leftarrow> assert (r = None);
     (r, q) \<leftarrow> tx_pop_ready hv (inst_from_millis tm 500) q;
     assert (r \<noteq> None)
   }"

definition next_ready_time_returns_min :: "TxEntry heapless \<Rightarrow> time_api \<Rightarrow> unit option" where
  "next_ready_time_returns_min hv tm = do {
     let q = TxQueue_new;
     _ \<leftarrow> assert (tx_next_ready_time q = None);
     let q = tx_add hv 4 (make_entry tm 0 300) q;
     let q = tx_add hv 4 (make_entry tm 1 100) q;
     let q = tx_add hv 4 (make_entry tm 2 200) q;
     assert_eq (tx_next_ready_time q) (Some (inst_from_millis tm 100))
   }"

text \<open>\<open>now\<close> is what \<open>push\<close> reads from the clock.\<close>

definition full_queue_returns_err :: "TxEntry heapless \<Rightarrow> time_api \<Rightarrow> instant \<Rightarrow> unit option" where
  "full_queue_returns_err hv tm now = do {
     let q = tx_add hv 2 (make_entry tm 0 0) TxQueue_new;
     let q = tx_add hv 2 (make_entry tm 1 0) q;
     _ \<leftarrow> assert (tx_is_full 2 q);
     (result, q) \<leftarrow> tx_push hv tm 2 now q (make_request 2 0);
     _ \<leftarrow> assert (isl result);
     assert_eq (tx_len q) 2
   }"

definition clear_empties_queue :: "TxEntry heapless \<Rightarrow> time_api \<Rightarrow> unit option" where
  "clear_empties_queue hv tm = do {
     let q = tx_add hv 4 (make_entry tm 0 0) TxQueue_new;
     let q = tx_add hv 4 (make_entry tm 1 100) q;
     _ \<leftarrow> assert_eq (tx_len q) 2;
     let q = tx_clear hv q;
     _ \<leftarrow> assert (tx_is_empty q);
     (r, q) \<leftarrow> tx_pop_ready hv (inst_from_millis tm 1000) q;
     assert (r = None)
   }"

lemma tx_queue_tests_pass:
  assumes "heapless_ok hv"
  shows "push_and_pop_single hv ms_time = Some ()" "priority_ordering hv ms_time = Some ()" "scheduled_ordering hv ms_time = Some ()"
    "tx_pop_ready_respects_time hv ms_time = Some ()" "next_ready_time_returns_min hv ms_time = Some ()" "clear_empties_queue hv ms_time = Some ()"
  unfolding push_and_pop_single_def priority_ordering_def scheduled_ordering_def tx_pop_ready_respects_time_def next_ready_time_returns_min_def
    clear_empties_queue_def make_entry_def ms_time_simps
  by (rule on_lists [OF assms], code_simp)+

lemma full_queue_returns_err_passes:
  assumes "heapless_ok hv"
  shows "full_queue_returns_err hv tm now = Some ()"
  using assms by (simp add: full_queue_returns_err_def tx_add_def TxQueue_new_def tx_is_full_def tx_push_def tx_len_def Let_def numeral_2_eq_2)

section \<open>The reception delay\<close>

definition make_rx_packet :: RxPacket where
  "make_rx_packet = \<lparr>rx_packet = Packet_new, rx_rssi = f32_lit (- 50) 1, rx_snr = f32_lit 10 1\<rparr>"

definition calc_rx_delay_strong_signal :: "unit option" where
  "calc_rx_delay_strong_signal = assert (calc_rx_delay (f32_lit 40 1) 100 DispatcherConfig_default = None)"

definition calc_rx_delay_weak_signal :: "unit option" where
  "calc_rx_delay_weak_signal = do {
     delay \<leftarrow> calc_rx_delay (f32_lit (- 4) 1) 500 DispatcherConfig_default;
     assert_eq delay 32000
   }"

definition calc_rx_delay_medium_signal :: "unit option" where
  "calc_rx_delay_medium_signal = do {
     delay \<leftarrow> calc_rx_delay (f32_lit 2 1) 200 DispatcherConfig_default;
     assert (delay > 150 \<and> delay < 400)
   }"

text \<open>\<open>assert!(queue.push(..).is_ok())\<close>.\<close>

definition rx_push_assert :: "RxDelayEntry heapless \<Rightarrow> nat \<Rightarrow> RxPacket \<Rightarrow> instant \<Rightarrow> RxDelayQueue \<Rightarrow> RxDelayQueue option" where
  "rx_push_assert hv N p at q = (let (r, q) = rx_push hv N q p at in do { _ \<leftarrow> assert (\<not> isl r); Some q })"

definition push_and_pop_ready :: "RxDelayEntry heapless \<Rightarrow> time_api \<Rightarrow> unit option" where
  "push_and_pop_ready hv tm = do {
     queue \<leftarrow> rx_push_assert hv 4 make_rx_packet (inst_from_millis tm 100) RxDelayQueue_new;
     _ \<leftarrow> assert_eq (rx_len queue) 1;
     (result, queue) \<leftarrow> rx_pop_ready hv tm (inst_from_millis tm 100) queue;
     _ \<leftarrow> assert (result \<noteq> None);
     assert_eq (rx_len queue) 0
   }"

definition rx_pop_ready_respects_time :: "RxDelayEntry heapless \<Rightarrow> time_api \<Rightarrow> unit option" where
  "rx_pop_ready_respects_time hv tm = do {
     queue \<leftarrow> rx_push_assert hv 4 make_rx_packet (inst_from_millis tm 200) RxDelayQueue_new;
     (r, queue) \<leftarrow> rx_pop_ready hv tm (inst_from_millis tm 100) queue;
     _ \<leftarrow> assert (r = None);
     _ \<leftarrow> assert_eq (rx_len queue) 1;
     (r, queue) \<leftarrow> rx_pop_ready hv tm (inst_from_millis tm 200) queue;
     _ \<leftarrow> assert (r \<noteq> None);
     assert_eq (rx_len queue) 0
   }"

definition next_ready_time_min :: "RxDelayEntry heapless \<Rightarrow> time_api \<Rightarrow> unit option" where
  "next_ready_time_min hv tm = do {
     let queue = RxDelayQueue_new;
     _ \<leftarrow> assert (rx_next_ready_time queue = None);
     queue \<leftarrow> rx_push_assert hv 4 make_rx_packet (inst_from_millis tm 300) queue;
     queue \<leftarrow> rx_push_assert hv 4 make_rx_packet (inst_from_millis tm 100) queue;
     queue \<leftarrow> rx_push_assert hv 4 make_rx_packet (inst_from_millis tm 200) queue;
     assert_eq (rx_next_ready_time queue) (Some (inst_from_millis tm 100))
   }"

definition full_queue :: "RxDelayEntry heapless \<Rightarrow> time_api \<Rightarrow> unit option" where
  "full_queue hv tm = do {
     queue \<leftarrow> rx_push_assert hv 2 make_rx_packet (inst_from_millis tm 100) RxDelayQueue_new;
     queue \<leftarrow> rx_push_assert hv 2 make_rx_packet (inst_from_millis tm 200) queue;
     _ \<leftarrow> assert (rx_is_full 2 queue);
     let (r, queue) = rx_push hv 2 queue make_rx_packet (inst_from_millis tm 300);
     _ \<leftarrow> assert (isl r);
     assert_eq (rx_len queue) 2
   }"

lemma rx_delay_tests_pass:
  "calc_rx_delay_strong_signal = Some ()" "calc_rx_delay_weak_signal = Some ()" "calc_rx_delay_medium_signal = Some ()"
  by code_simp+

lemma rx_queue_tests_pass:
  assumes "heapless_ok hv"
  shows "push_and_pop_ready hv ms_time = Some ()" "rx_pop_ready_respects_time hv ms_time = Some ()" "next_ready_time_min hv ms_time = Some ()"
    "full_queue hv ms_time = Some ()"
  unfolding push_and_pop_ready_def rx_pop_ready_respects_time_def next_ready_time_min_def full_queue_def rx_pop_ready_def ms_time_simps
  by (rule on_lists [OF assms], code_simp)+

section \<open>The duty cycle\<close>

definition new_starts_with_full_budget :: "time_api \<Rightarrow> unit option" where
  "new_starts_with_full_budget tm = do {
     let tracker = DutyCycleTracker_new tm DispatcherConfig_default;
     _ \<leftarrow> assert_eq (remaining_ms tracker) 1800000;
     assert_eq (max_budget_ms tracker) 1800000
   }"

definition can_transmit_with_full_budget :: "time_api \<Rightarrow> unit option" where
  "can_transmit_with_full_budget tm = do {
     let tracker = DutyCycleTracker_new tm DispatcherConfig_default;
     _ \<leftarrow> assert (can_transmit tracker 500);
     assert (can_transmit tracker 1000)
   }"

definition deduct_reduces_budget :: "time_api \<Rightarrow> unit option" where
  "deduct_reduces_budget tm = do {
     let tracker = DutyCycleTracker_new tm DispatcherConfig_default;
     let before = remaining_ms tracker;
     let tracker = deduct tracker 1000;
     assert_eq (remaining_ms tracker) (before - 1000)
   }"

definition deduct_saturates_at_zero :: "time_api \<Rightarrow> unit option" where
  "deduct_saturates_at_zero tm = do {
     let tracker = DutyCycleTracker_new tm DispatcherConfig_default;
     let tracker = deduct tracker (remaining_ms tracker + 1000);
     assert_eq (remaining_ms tracker) 0
   }"

definition can_transmit_false_when_depleted :: "time_api \<Rightarrow> unit option" where
  "can_transmit_false_when_depleted tm = do {
     let tracker = DutyCycleTracker_new tm DispatcherConfig_default;
     let tracker = deduct tracker (remaining_ms tracker);
     assert (\<not> can_transmit tracker 500)
   }"

definition refill_restores_budget :: "time_api \<Rightarrow> unit option" where
  "refill_restores_budget tm = do {
     let tracker = DutyCycleTracker_new tm DispatcherConfig_default;
     let tracker = deduct tracker 100000;
     let after_deduct = remaining_ms tracker;
     tracker \<leftarrow> refill tm tracker (inst_from_millis tm 60000);
     assert_eq (remaining_ms tracker) (after_deduct + 30000)
   }"

definition refill_caps_at_max :: "time_api \<Rightarrow> unit option" where
  "refill_caps_at_max tm = do {
     let tracker = DutyCycleTracker_new tm DispatcherConfig_default;
     let maximum = max_budget_ms tracker;
     tracker \<leftarrow> refill tm tracker (inst_from_millis tm 60000);
     assert_eq (remaining_ms tracker) maximum
   }"

definition can_transmit_checks_min_reserve :: "time_api \<Rightarrow> unit option" where
  "can_transmit_checks_min_reserve tm = do {
     let tracker = DutyCycleTracker_new tm DispatcherConfig_default;
     let tracker = deduct tracker (remaining_ms tracker - 50);
     _ \<leftarrow> assert_eq (remaining_ms tracker) 50;
     assert (\<not> can_transmit tracker 100)
   }"

definition custom_config :: "time_api \<Rightarrow> unit option" where
  "custom_config tm = do {
     let config = DispatcherConfig_default\<lparr>airtime_budget_factor := f32_lit 3 1\<rparr>;
     let tracker = DutyCycleTracker_new tm config;
     _ \<leftarrow> assert_eq (max_budget_ms tracker) 900000;
     assert_eq (remaining_ms tracker) 900000
   }"

lemma duty_cycle_tests_pass:
  shows "new_starts_with_full_budget tm = Some ()" "can_transmit_with_full_budget tm = Some ()" "deduct_reduces_budget tm = Some ()"
    "deduct_saturates_at_zero tm = Some ()" "can_transmit_false_when_depleted tm = Some ()" "can_transmit_checks_min_reserve tm = Some ()"
    "custom_config tm = Some ()"
proof -
  note defs = default_tracker remaining_ms_def can_transmit_def deduct_def saturating_sub_def MIN_TX_BUDGET_AIRTIME_DIV_def Let_def
  show "new_starts_with_full_budget tm = Some ()" "can_transmit_with_full_budget tm = Some ()" "deduct_reduces_budget tm = Some ()"
    "deduct_saturates_at_zero tm = Some ()" "can_transmit_false_when_depleted tm = Some ()" "can_transmit_checks_min_reserve tm = Some ()"
    by (simp_all add: new_starts_with_full_budget_def can_transmit_with_full_budget_def deduct_reduces_budget_def
        deduct_saturates_at_zero_def can_transmit_false_when_depleted_def can_transmit_checks_min_reserve_def defs)
  let ?cfg = "DispatcherConfig_default\<lparr>airtime_budget_factor := f32_lit 3 1\<rparr>"
  have q: "f32_as_u32 (f32_mul (f32_of_int (uint (duty_cycle_window_ms ?cfg)))
      (f32_div (f32_lit 1 1) (f32_add (f32_lit 1 1) (airtime_budget_factor ?cfg)))) = 900000"
    by code_simp
  have "budget_ms (DutyCycleTracker_new tm ?cfg) = 900000" "max_budget_ms (DutyCycleTracker_new tm ?cfg) = 900000"
    using q by (simp_all add: DutyCycleTracker_new_def Let_def)
  then show "custom_config tm = Some ()" by (simp add: custom_config_def remaining_ms_def Let_def)
qed

lemma refill_tests_pass: "refill_restores_budget ms_time = Some ()" "refill_caps_at_max ms_time = Some ()"
proof -
  have s: "saturating_add (1700000 :: u32) 30000 = 1730000" "saturating_add (1800000 :: u32) 30000 = 1830000" "saturating_sub (1800000 :: u32) 100000 = 1700000"
    by (simp_all add: saturating_add_def saturating_sub_def)
  have h: "refill ms_time \<lparr>budget_ms = b, last_refill = 0, max_budget_ms = 1800000, duty_ratio = f32_half, min_reserve_ms = 100\<rparr> 60000
      = Some \<lparr>budget_ms = min 1800000 (saturating_add b 30000), last_refill = 60000, max_budget_ms = 1800000, duty_ratio = f32_half, min_reserve_ms = 100\<rparr>" for b
    by (subst refill_half) simp_all
  show "refill_restores_budget ms_time = Some ()"
    by (simp add: refill_restores_budget_def default_tracker deduct_def remaining_ms_def h s Let_def)
  show "refill_caps_at_max ms_time = Some ()"
    by (simp add: refill_caps_at_max_def default_tracker remaining_ms_def h s Let_def)
qed

end
