(* ===== verification/Mock_Tests.thy ===== *)
theory Mock_Tests
  imports Testing
begin

text \<open>
  The unit tests of \<open>crates/meshcore-radio/src/mock.rs\<close>, which pass with every container that satisfies its contract. \<open>block_on\<close> runs
  a sequence of awaited operations to its end.
\<close>

section \<open>The mock radio\<close>

definition mock_radio_send_recv :: "containers \<Rightarrow> unit option" where
  "mock_radio_send_recv ct = do {
     let radio = push_recv ct [1, 2, 3, 4] (f32_lit (- 50) 1) (f32_lit 105 10) MockRadio_new;
     (result, buf, radio) \<leftarrow> mock_recv ct (zeroed MAX_TRANS_UNIT) radio;
     result \<leftarrow> result_ok result;
     _ \<leftarrow> assert_eq (rr_len result) 4;
     start \<leftarrow> slice buf 0 4;
     _ \<leftarrow> assert_eq start [1, 2, 3, 4];
     _ \<leftarrow> assert (f32_eq (rr_rssi result) (f32_lit (- 50) 1));
     _ \<leftarrow> assert (f32_eq (rr_snr result) (f32_lit 105 10));
     let (r, radio) = mock_send ct [10, 20, 30] radio;
     _ \<leftarrow> result_ok r;
     _ \<leftarrow> assert_eq (sent_count radio) 1;
     let (r, radio) = pop_sent ct radio;
     frame \<leftarrow> r;
     _ \<leftarrow> assert_eq frame [10, 20, 30];
     assert_eq (sent_count radio) 0
   }"

definition mock_radio_configure :: "unit option" where
  "mock_radio_configure = do {
     let radio = MockRadio_new;
     _ \<leftarrow> assert (\<not> is_configured radio);
     let config = RadioConfig_default\<lparr>frequency_mhz := f32_lit 915 1, bandwidth_khz := f32_lit 125 1, spreading_factor := 7,
       coding_rate := 5, tx_power := 14\<rparr>;
     let (r, radio) = mock_configure config radio;
     _ \<leftarrow> result_ok r;
     assert (is_configured radio)
   }"

definition mock_radio_sleep_standby :: "containers \<Rightarrow> unit option" where
  "mock_radio_sleep_standby ct = do {
     let radio = MockRadio_new;
     _ \<leftarrow> assert (\<not> is_sleeping radio);
     let (r, radio) = mock_sleep radio;
     _ \<leftarrow> result_ok r;
     _ \<leftarrow> assert (is_sleeping radio);
     let (r, radio) = mock_send ct [1, 2, 3] radio;
     err \<leftarrow> result_err r;
     _ \<leftarrow> assert_eq err InvalidState;
     let (r, radio) = mock_standby radio;
     _ \<leftarrow> result_ok r;
     _ \<leftarrow> assert (\<not> is_sleeping radio);
     let (r, radio) = mock_send ct [1, 2, 3] radio;
     _ \<leftarrow> result_ok r;
     assert_eq (sent_count radio) 1
   }"

definition mock_radio_empty_recv :: "containers \<Rightarrow> unit option" where
  "mock_radio_empty_recv ct = do {
     (r, buf, radio) \<leftarrow> mock_recv ct (zeroed MAX_TRANS_UNIT) MockRadio_new;
     err \<leftarrow> result_err r;
     assert_eq err RecvFailed
   }"

definition mock_radio_channel_active :: "unit option" where
  "mock_radio_channel_active = do {
     let (r, radio) = mock_channel_active MockRadio_new;
     active \<leftarrow> result_ok r;
     assert (\<not> active)
   }"

definition mock_radio_estimate_airtime :: "unit option" where
  "mock_radio_estimate_airtime = do {
     let radio = MockRadio_new;
     _ \<leftarrow> assert_eq (mock_estimate_airtime_ms radio 10) 20;
     _ \<leftarrow> assert_eq (mock_estimate_airtime_ms radio 0) 0;
     assert_eq (mock_estimate_airtime_ms radio 100) 200
   }"

lemma mock_radio_tests_pass: "mock_radio_configure = Some ()" "mock_radio_channel_active = Some ()" "mock_radio_estimate_airtime = Some ()"
  by code_simp+

lemma mock_io_tests_pass:
  assumes "containers_ok ct"
  shows "mock_radio_send_recv ct = Some ()" "mock_radio_sleep_standby ct = Some ()" "mock_radio_empty_recv ct = Some ()"
  by (rule on_containers [OF assms], code_simp)+

section \<open>The mock generator\<close>

definition mock_rng_deterministic :: "unit option" where
  "mock_rng_deterministic = do {
     let rng = MockRng_new 42;
     let (buf1, rng) = mock_random 4 rng;
     _ \<leftarrow> assert_eq buf1 [42, 43, 44, 45];
     let (buf2, rng) = mock_random 3 rng;
     _ \<leftarrow> assert_eq buf2 [46, 47, 48];
     let rng2 = MockRng_new 42;
     let (buf3, rng2) = mock_random 4 rng2;
     assert_eq buf3 [42, 43, 44, 45]
   }"

definition mock_rng_wrapping :: "unit option" where
  "mock_rng_wrapping = do {
     let (buf, rng) = mock_random 4 (MockRng_new 254);
     assert_eq buf [254, 255, 0, 1]
   }"

definition mock_rng_next_u32 :: "unit option" where
  "mock_rng_next_u32 = do {
     _ \<leftarrow> for_each_with [0..<20] (\<lambda>_ rng. do {
       let (v, rng) = next_u32 mock_random rng 10 20;
       _ \<leftarrow> assert (v \<ge> 10 \<and> v < 20);
       Some rng
     }) (MockRng_new 0);
     Some ()
   }"

definition mock_rng_next_u32_equal_bounds :: "unit option" where
  "mock_rng_next_u32_equal_bounds = do {
     let (v, rng) = next_u32 mock_random (MockRng_new 0) 5 5;
     assert_eq v 5
   }"

lemma mock_rng_tests_pass: "mock_rng_deterministic = Some ()" "mock_rng_wrapping = Some ()" "mock_rng_next_u32_equal_bounds = Some ()"
  by code_simp+

lemma mock_rng_next_u32_passes: "mock_rng_next_u32 = Some ()"
proof -
  have "\<exists>g'. for_each_with xs (\<lambda>_ rng. do {
       let (v, rng) = next_u32 mock_random rng 10 20;
       _ \<leftarrow> assert (v \<ge> 10 \<and> v < 20);
       Some rng
     }) g = Some g'" for xs :: "nat list" and g
    using mock_rng.next_u32_range [of 10 20] by (induction xs arbitrary: g) (simp_all add: case_prod_beta Let_def)
  then show ?thesis by (simp add: mock_rng_next_u32_def) (metis bind.bind_lunit)
qed

section \<open>The mock clock\<close>

definition mock_rtc_get_set :: "unit option" where
  "mock_rtc_get_set = do {
     let clock = MockRtcClock_new 1000;
     _ \<leftarrow> assert_eq (mrtc_get_time clock) 1000;
     let clock = mrtc_set_time 2000 clock;
     assert_eq (mrtc_get_time clock) 2000
   }"

definition mock_rtc_advance :: "unit option" where
  "mock_rtc_advance = do {
     let clock = MockRtcClock_new 1000;
     let clock = mrtc_advance 60 clock;
     _ \<leftarrow> assert_eq (mrtc_get_time clock) 1060;
     let clock = mrtc_advance 40 clock;
     assert_eq (mrtc_get_time clock) 1100
   }"

definition mock_rtc_unique :: "unit option" where
  "mock_rtc_unique = do {
     let clock = MockRtcClock_new 100;
     let (t1, clock) = mrtc_get_time_unique clock;
     _ \<leftarrow> assert_eq t1 100;
     let (t2, clock) = mrtc_get_time_unique clock;
     _ \<leftarrow> assert_eq t2 101;
     let (t3, clock) = mrtc_get_time_unique clock;
     _ \<leftarrow> assert_eq t3 102;
     _ \<leftarrow> assert_ne t1 t2;
     _ \<leftarrow> assert_ne t2 t3;
     _ \<leftarrow> assert_ne t1 t3;
     let clock = mrtc_advance 50 clock;
     let (t4, clock) = mrtc_get_time_unique clock;
     assert_eq t4 150
   }"

lemma mock_rtc_tests_pass: "mock_rtc_get_set = Some ()" "mock_rtc_advance = Some ()" "mock_rtc_unique = Some ()"
  by code_simp+

end
