(* ===== verification/Unit_Tests.thy ===== *)
theory Unit_Tests
  imports Wire_Tests Dedup_Tests Crypto_Tests Text_Tests Queue_Tests Mock_Tests
begin

text \<open>
  The unit tests inside the source files, together. The tests whose outcome depends on which digest, cipher or curve is used are characterised in \<open>Dedup_Tests\<close>,
  \<open>Crypto_Tests\<close> and \<open>Text_Tests\<close>; all the others are here.
\<close>

definition header_tests :: "unit option list" where
  "header_tests = [route_type_round_trip, route_type_invalid, route_type_is_flood, route_type_is_direct, route_type_has_transport_codes,
     payload_type_round_trip, payload_type_reserved_values_are_invalid, payload_type_out_of_range, payload_version_round_trip, payload_version_invalid,
     header_round_trip_all_combinations, header_bit_layout_matches_c, header_direct_ack_v1, header_transport_flood_advert_v1,
     header_invalid_payload_type_in_byte, do_not_retransmit_constant, do_not_retransmit_still_parses]"

definition packet_tests :: "u8 heapless \<Rightarrow> unit option list" where
  "packet_tests hv = [new_creates_valid_empty_packet, path_encoding_size1_count5, path_encoding_size2_count10, path_encoding_invalid_size_bits,
     round_trip_flood_no_transport hv, round_trip_transport_flood hv, round_trip_direct_with_path hv, read_from_rejects_too_short hv,
     read_from_rejects_invalid_path_len hv, do_not_retransmit_marker, wire_len_matches_write_to hv, snr_f32_conversion,
     set_path_hash_count_preserves_size, transport_codes_little_endian hv]"

definition crypto_tests :: "u8 heapless \<Rightarrow> crypto \<Rightarrow> ('sk, 'vk) ed25519 \<Rightarrow> unit option list" where
  "crypto_tests hv c ed = [aes_round_trip_partial_block c, aes_round_trip_multi_block c, mac_produces_two_bytes c, mac_is_deterministic c,
     encrypt_then_mac_round_trip c, mac_verification_failure_tampered_mac c, aes_empty_input c,
     roundtrip_basic hv c, roundtrip_empty_message hv c, too_short_payload_fails c, matches_channel_works, packet_header_is_grp_txt_flood hv c,
     wire_roundtrip hv c, sign_and_verify ed, path_hash_is_first_byte ed, is_hash_match_works ed, public_key_from_bytes, debug_format ed]"

definition queue_tests :: "TxEntry heapless \<Rightarrow> RxDelayEntry heapless \<Rightarrow> time_api \<Rightarrow> instant \<Rightarrow> unit option list" where
  "queue_tests tx rx tm now = [push_and_pop_single tx tm, priority_ordering tx tm, scheduled_ordering tx tm, tx_pop_ready_respects_time tx tm,
     next_ready_time_returns_min tx tm, full_queue_returns_err tx tm now, clear_empties_queue tx tm,
     calc_rx_delay_strong_signal, calc_rx_delay_weak_signal, calc_rx_delay_medium_signal, push_and_pop_ready rx tm, rx_pop_ready_respects_time rx tm,
     next_ready_time_min rx tm, full_queue rx tm,
     new_starts_with_full_budget tm, can_transmit_with_full_budget tm, deduct_reduces_budget tm, deduct_saturates_at_zero tm,
     can_transmit_false_when_depleted tm, refill_restores_budget tm, refill_caps_at_max tm, can_transmit_checks_min_reserve tm, custom_config tm]"

definition mock_tests :: "containers \<Rightarrow> unit option list" where
  "mock_tests ct = [mock_radio_send_recv ct, mock_radio_configure, mock_radio_sleep_standby ct, mock_radio_empty_recv ct, mock_radio_channel_active,
     mock_radio_estimate_airtime, mock_rng_deterministic, mock_rng_wrapping, mock_rng_next_u32, mock_rng_next_u32_equal_bounds,
     mock_rtc_get_set, mock_rtc_advance, mock_rtc_unique]"

lemma queue_tests_pass: "heapless_ok tx \<Longrightarrow> heapless_ok rx \<Longrightarrow> set (queue_tests tx rx ms_time now) = {Some ()}"
  by (simp add: queue_tests_def tx_queue_tests_pass full_queue_returns_err_passes rx_delay_tests_pass rx_queue_tests_pass duty_cycle_tests_pass refill_tests_pass)

lemma wire_tests_pass: "heapless_ok hv \<Longrightarrow> set (header_tests @ packet_tests hv) = {Some ()}"
  by (simp add: header_tests_def packet_tests_def header_tests_pass header_round_trip_all_combinations_passes packet_tests_pass packet_io_tests_pass)

lemma crypto_tests_pass: "heapless_ok hv \<Longrightarrow> crypto_ok c \<Longrightarrow> ed25519_ok ed \<Longrightarrow> set (crypto_tests hv c ed) = {Some ()}"
  by (simp add: crypto_tests_def aes_tests_pass mac_tests_pass sealed_tests_pass grp_tests_pass matches_channel_works_passes too_short_payload_fails_passes
      identity_tests_pass)

lemma mock_tests_pass: "containers_ok ct \<Longrightarrow> set (mock_tests ct) = {Some ()}"
  by (simp add: mock_tests_def mock_radio_tests_pass mock_io_tests_pass mock_rng_tests_pass mock_rng_next_u32_passes mock_rtc_tests_pass)

text \<open>
  C40: The model passes the unit tests the source carries, 85 of them, with whatever containers, ciphers and signatures satisfy their contracts, and at whatever instant a queue is pushed to.
\<close>
theorem unit_tests_pass:
  assumes "heapless_ok hv" "heapless_ok tx" "heapless_ok rx" "containers_ok ct" "crypto_ok c" "ed25519_ok ed"
    and "tests = header_tests @ packet_tests hv @ crypto_tests hv c ed @ queue_tests tx rx ms_time now @ mock_tests ct"
  shows "length tests = 85 \<and> set tests = {Some ()}"
proof
  show "length tests = 85"
    unfolding assms(7) by (simp add: header_tests_def packet_tests_def crypto_tests_def queue_tests_def mock_tests_def)
  have "set tests = set (header_tests @ packet_tests hv) \<union> set (crypto_tests hv c ed) \<union> set (queue_tests tx rx ms_time now) \<union> set (mock_tests ct)"
    unfolding assms(7) set_append by blast
  then show "set tests = {Some ()}"
    unfolding wire_tests_pass [OF assms(1)] crypto_tests_pass [OF assms(1,5,6)] queue_tests_pass [OF assms(2,3)] mock_tests_pass [OF assms(4)] by blast
qed

lemma unit_tests_pass_witness: "wire_roundtrip list_heapless toy_crypto \<in> {Some ()}"
proof -
  have "wire_roundtrip list_heapless toy_crypto \<in> set (crypto_tests list_heapless toy_crypto toy_ed25519)" by (simp add: crypto_tests_def)
  then show ?thesis
    using unit_tests_pass [OF list_heapless_ok list_heapless_ok list_heapless_ok list_containers_ok toy_crypto_ok toy_ed25519_ok refl, of 0] by auto
qed

end
