(* ===== verification/Spec2Isabelle.thy ===== *)
theory Spec2Isabelle
  imports Packet Dedup Grp_Txt Sx1262_States Mock Dispatcher Responder Progress Firmware On_Air Identity Loop_Spec Traffic Provenance Board
    Help_Storm Backlog Fine_Grained Interleaving Interleaved_Traffic Unit_Tests
begin

text \<open>
  A verification development of \<^bold>\<open>meshcore-rs\<close>, an implementation in Rust of the MeshCore LoRa mesh protocol: the protocol library
  (\<open>crates/meshcore-core\<close>), the radio drivers and clocks (\<open>crates/meshcore-radio\<close>), the packet dispatcher
  (\<open>crates/meshcore-dispatch\<close>) and the firmware of the RAK4631 board, a command responder (\<open>boards/rak4631\<close>).

  \<^bold>\<open>The program.\<close> Two tasks of a cooperative executor share a clock and two bounded channels. The dispatcher owns the radio: its loop moves submitted
  requests into a transmit queue, hands over packets whose delay is over, sends the most urgent due packet if the airtime budget
  allows it and the channel is clear, and then waits for a frame, a submission or the next due time. A received frame is parsed; a weak flood packet
  is held back, anything else goes to the channel of received packets. The responder takes packets from there, drops duplicates, authenticates and
  decrypts group texts of its channel, and submits encrypted answers to the commands \<open>!help\<close>, \<open>!ping\<close>, \<open>!status\<close> and \<open>!path\<close>.

  \<^bold>\<open>Conventions.\<close> Definitions carry the names of the source and follow its order. A \<open>w\<close>-bit integer is a \<open>w word\<close>, \<open>usize\<close> is \<open>nat\<close>
  (every value is bounded by a buffer), byte slices and strings are byte lists, \<open>&mut\<close> is returned
  state, \<open>Result\<close> is a sum with the error on the left. The outer \<open>option\<close> of a definition is a panic (\<^const>\<open>None\<close>): an index, slice, copy, assertion or instant out of
  range. The counters of statistics and packets are \<open>u32\<close> and wrap around, as in a release build; the bounds of the other arithmetic are
  theorems. Single precision arithmetic is computed exactly and rounded once per operation (\<open>F32\<close>).

  \<^bold>\<open>Parameters.\<close> Third-party code is an argument of the definitions, a record of functions, and what is relied upon is a predicate with its documented behaviour: \<open>heapless\<close>
  vectors and deques (\<open>heapless_ok\<close>, \<open>deque_ok\<close>), the ciphers and digests (\<open>crypto_ok\<close>), \<open>ed25519_dalek\<close> (\<open>ed25519_ok\<close>),
  \<open>embassy_time\<close> (\<open>time_ok\<close>, \<open>clock_ok\<close>), \<open>embassy_sync\<close> channels (\<open>channel_ok\<close>) and \<open>lora_phy\<close> (\<open>lora_ok\<close>). Each has
  a concrete instance, on which the witnesses run.

  \<^bold>\<open>Theories.\<close>
  \<^item> \<open>Prelude\<close>: words, results, panicking slices, little-endian numbers, \<open>heapless::Vec\<close>. \<open>Fmt\<close>, \<open>Utf8\<close>, \<open>F32\<close>, \<open>Time\<close>: what the source uses of
    \<open>core::fmt\<close>, \<open>core::str\<close>, \<open>f32\<close> and \<open>embassy_time\<close>.
  \<^item> \<open>Interfaces\<close>: the contracts \<open>codec\<close>, \<open>ready_queue\<close>, \<open>random_source\<close> and \<open>unique_clock\<close>, with what follows from them; \<open>Radio\<close> has
    \<open>radio_driver\<close>. They are interpreted on the header and packet codecs, the two queues, both generators, both clocks and both
    drivers; the dispatcher's lemmas are proved from \<open>radio_driver\<close>.
  \<^item> \<open>Constants\<close>, \<open>Header\<close>, \<open>Packet\<close> (\<open>constants.rs\<close>, \<open>header.rs\<close>, \<open>packet.rs\<close>): the wire format. The parser accepts
    exactly the wire images of well-formed packets and rejects the rest without a panic, and the serialiser is its inverse.
  \<^item> \<open>Dedup\<close> (\<open>dedup.rs\<close>): the ring of seen packets refines a queue of the last \<open>N\<close> new hashes (\<open>fifo_run\<close>), verdicts and counters included.
  \<^item> \<open>Crypto\<close>, \<open>Grp_Txt\<close>, \<open>Identity\<close> (\<open>crypto.rs\<close>, \<open>grp_txt.rs\<close>, \<open>identity.rs\<close>): block loops, padding and every panic; sealing and opening, end to end over the wire format;
    authentication before decryption; path hashes, verification and the text of a key.
  \<^item> \<open>Radio\<close>, \<open>Sx1262\<close>, \<open>Sx1262_States\<close>, \<open>Mock\<close> (\<open>radio.rs\<close>, \<open>rtc.rs\<close>, \<open>sx1262.rs\<close>, \<open>mock.rs\<close>; \<open>rng.rs\<close> is in \<open>Interfaces\<close>): the driver interface and its two
    implementations, unique clock readings, the airtime formula at 32 bits against the natural numbers, and what the SX1262 driver makes the
    transceiver do after any sequence of its operations (\<open>logged\<close>, a transceiver with a log for every transceiver).
  \<^item> \<open>Dispatch_Types\<close>, \<open>Tx_Queue\<close>, \<open>Rx_Delay\<close>, \<open>Duty_Cycle\<close> (the files of these names in \<open>meshcore-dispatch\<close>): the queues drain in the order they
    promise, the delay formula stays in its bounds, the budget bounds the airtime of every run by what the refill times entitle to (\<open>entitled\<close>).
  \<^item> \<open>Dispatcher\<close>, \<open>Progress\<close> (\<open>dispatcher.rs\<close>): the loop as the step relation \<open>dispatch_step\<close> over the record \<open>system\<close>; \<open>loop_top\<close> is everything
    between two waits, \<open>on_radio\<close> and \<open>on_submission\<close> are the branches of the \<open>select\<close>. The invariant of all reachable states, each handler on
    every branch, carrier sensing returns, no step panics, and the livelock of an exhausted budget.
  \<^item> \<open>Loop_Spec\<close>, \<open>Traffic\<close>: \<open>loop_top\<close> refines an abstract round of the loop; \<open>dispatch_run\<close> labels the runs with what is submitted and taken,
    and a tap on the radio (\<open>tapped\<close>, a driver for every driver) records the frames, so that what goes in and what comes out can be compared as multisets.
    \<open>Backlog\<close>: the rounds (\<open>rounds\<close>) that send what is due in the transmit queue, in order.
  \<^item> \<open>Console\<close>, \<open>Responder\<close>, \<open>Firmware\<close>, \<open>On_Air\<close> (\<open>main.rs\<close>): the text buffer and the serial port, \<open>user_boot\<close> (start-up of \<open>user_task\<close>)
    and \<open>user_step\<close> (an iteration of its loop), both tasks together as \<open>firmware_step\<close>. Neither task panics in any reachable state; a command the radio receives
    is answered by the radio.
  \<^item> \<open>Fine_Grained\<close>, \<open>Interleaving\<close>, \<open>Interleaved_Traffic\<close>: the same with the rounds of the dispatcher cut at every wait of a transmission (\<open>stage\<close>, \<open>fine_step\<close>) and the responder
    running in between, its iterations overlapping those of the dispatcher (\<open>interleaved_step\<close>). The dispatcher reaches the same states between rounds as without cuts,
    neither task panics at any stage, and what the firmware transmits is occasioned by what it received.
  \<^item> \<open>Provenance\<close>: the same for the rounds as one step each. \<open>Help_Storm\<close>: two nodes in range of each other. \<open>Board\<close>: the LED
    signals of the start-up and of the panic handler, written to the registers of the port.
  \<^item> \<open>Testing\<close>, \<open>Wire_Tests\<close>, \<open>Dedup_Tests\<close>, \<open>Crypto_Tests\<close>, \<open>Text_Tests\<close>, \<open>Queue_Tests\<close>, \<open>Mock_Tests\<close>, \<open>Unit_Tests\<close>: every \<open>#[test]\<close> function of the
    crates as a definition of the same name, which validates the model against the source's own expectations. Tests over third-party code take it as a parameter; they
    pass with whatever satisfies its contract, or exactly under the stated condition on it.

  \<^bold>\<open>Loops and fuel.\<close> Loops over data are structural or have a measure. \<open>drain_submissions\<close> and \<open>deliver_ready\<close> have one more unit of fuel than there are elements
  in the channel or the queue, which nothing refills while they run, so they never run out (\<open>drain_submissions_total\<close>,
  \<open>deliver_ready_total\<close>). Carrier sensing (\<open>cad_loop\<close>) is a partial function, \<^const>\<open>None\<close> being endless; that it returns is proved. A step of the dispatcher reads the clock a few times,
  and its instants do not overflow as long as \<open>time_left\<close> holds: the tick counter, 64 bits wide, stays below its end by a delay of 32 bits of milliseconds.

  \<^bold>\<open>Abstractions.\<close> In \<open>dispatch_step\<close> and \<open>firmware_step\<close> a round of the loop and an iteration of the responder are one step each; the theorems of \<open>Fine_Grained\<close> and
  \<open>Interleaving\<close> and \<open>Interleaved_Traffic\<close> are about the finer steps between two awaited operations, where an awaited operation itself is one step. A reception that the \<open>select\<close> cancels leaves no
  trace. The executor is cooperative: between two waits of a task the other one does not run. Readings of the clock never go back and are otherwise arbitrary.

  \<^bold>\<open>Not modelled.\<close> The set-up of pins, SPI, USB and interrupts in \<open>main.rs\<close> is a sequence of calls into \<open>embassy\<close>; what it returns is a parameter (\<open>firmware_main\<close>,
  \<open>boot_signals\<close>). \<open>build.rs\<close> writes the build time, which is the parameter \<open>BUILD_EPOCH\<close>. The debugger log (\<open>defmt\<close>) has no effect on the state. The module roots only re-export.
\<close>

end
